(* ===== verification/Prelude.thy ===== *)
theory Prelude
  imports Main "HOL-Library.Word"
begin

text \<open>
  The vocabulary every component theory shares: Rust's machine integers, results and
  panics, checked slice access, and the generic lemmas on them.

  \<^item> \<open>u8\<close>, \<open>u16\<close>, \<open>u32\<close> are words of that width; an \<open>i32\<close> or \<open>i8\<close> is a word read with
    \<open>sint\<close>; an \<open>f32\<close> is its IEEE bit pattern.
  \<^item> \<open>usize\<close> is \<open>nat\<close>. Where the code adds a length taken from the wire to a position the
    sum can pass the width of a pointer, and \<open>uadd w\<close> (addition modulo \<open>2 ^ w\<close>) is used.
  \<^item> \<open>result\<close> is Rust's \<open>Result\<close> with one more outcome: \<open>Panic\<close>, an out-of-range index or
    slice, or an explicit panic.
\<close>

unbundle bit_operations_syntax

section \<open>Machine integers\<close>

type_synonym u8 = "8 word"
type_synonym u16 = "16 word"
type_synonym u32 = "32 word"
type_synonym i8 = "8 word"
type_synonym i32 = "32 word"
type_synonym f32 = "32 word"
type_synonym bytes = "8 word list"

named_theorems result_simps "equations of the result monad"
named_theorems slice_defs "definitions of the checked slice operations"

definition uadd :: "nat \<Rightarrow> nat \<Rightarrow> nat \<Rightarrow> nat" where
  "uadd w a b = (a + b) mod 2 ^ w"

lemma uadd_small [simp]: "a + b < 2 ^ w \<Longrightarrow> uadd w a b = a + b"
  by (simp add: uadd_def)

lemma uadd_bound: "uadd w a b < 2 ^ w"
  by (simp add: uadd_def)

lemma uadd_le: "uadd w a b \<le> a + b"
  by (simp add: uadd_def)

section \<open>Results\<close>

datatype ('e, 'a) result = Ok 'a | Err 'e | Panic

fun and_then :: "('e, 'a) result \<Rightarrow> ('a \<Rightarrow> ('e, 'b) result) \<Rightarrow> ('e, 'b) result" where
  "and_then (Ok x) k = k x"
| "and_then (Err e) k = Err e"
| "and_then Panic k = Panic"

fun map_err :: "('e \<Rightarrow> 'f) \<Rightarrow> ('e, 'a) result \<Rightarrow> ('f, 'a) result" where
  "map_err f (Ok x) = Ok x"
| "map_err f (Err e) = Err (f e)"
| "map_err f Panic = Panic"

fun ok_or :: "'e \<Rightarrow> 'a option \<Rightarrow> ('e, 'a) result" where
  "ok_or e (Some x) = Ok x"
| "ok_or e None = Err e"

lemma and_then_cong [fundef_cong]:
  "m = m' \<Longrightarrow> (\<And>x. m' = Ok x \<Longrightarrow> k x = k' x) \<Longrightarrow> and_then m k = and_then m' k'"
  by (cases m') auto

lemma and_then_assoc:
  "and_then (and_then m f) g = and_then m (\<lambda>x. and_then (f x) g)"
  by (cases m) auto

lemma and_then_Ok_right [simp]: "and_then m Ok = m"
  by (cases m) auto

lemma and_then_eq_Ok [result_simps]:
  "and_then m k = Ok y \<longleftrightarrow> (\<exists>x. m = Ok x \<and> k x = Ok y)"
  by (cases m) auto

lemma and_then_eq_Err [result_simps]:
  "and_then m k = Err e \<longleftrightarrow> m = Err e \<or> (\<exists>x. m = Ok x \<and> k x = Err e)"
  by (cases m) auto

lemma and_then_eq_Panic [result_simps]:
  "and_then m k = Panic \<longleftrightarrow> m = Panic \<or> (\<exists>x. m = Ok x \<and> k x = Panic)"
  by (cases m) auto

lemma and_then_if_distrib:
  "and_then (if b then m else n) k = (if b then and_then m k else and_then n k)"
  by simp

lemma ok_or_eq_Ok [result_simps]: "ok_or e v = Ok x \<longleftrightarrow> v = Some x"
  by (cases v) auto

lemma ok_or_not_Panic [simp]: "ok_or e v \<noteq> Panic"
  by (cases v) auto

text \<open>A result that is not a panic: the property each decoder of untrusted bytes should have.\<close>

definition safe :: "('e, 'a) result \<Rightarrow> bool" where
  "safe r \<longleftrightarrow> r \<noteq> Panic"

lemma safe_simps [simp]: "safe (Ok x)" "safe (Err e)" "\<not> safe Panic"
  by (simp_all add: safe_def)

lemma safe_and_then:
  "safe m \<Longrightarrow> (\<And>x. m = Ok x \<Longrightarrow> safe (k x)) \<Longrightarrow> safe (and_then m k)"
  by (cases m) (auto simp: safe_def)

text \<open>\<open>post P m\<close>: the computation does not panic, and what it returns satisfies \<open>P\<close>.\<close>

definition post :: "('a \<Rightarrow> bool) \<Rightarrow> ('e, 'a) result \<Rightarrow> bool" where
  "post P m \<longleftrightarrow> m \<noteq> Panic \<and> (\<forall>x. m = Ok x \<longrightarrow> P x)"

lemma post_simps [simp]: "post P (Ok x) = P x" "post P (Err e)" "\<not> post P Panic"
  by (simp_all add: post_def)

lemma post_then: "post Q m \<Longrightarrow> (\<And>x. Q x \<Longrightarrow> post P (k x)) \<Longrightarrow> post P (and_then m k)"
  by (cases m) simp_all

lemma post_weaken: "post Q m \<Longrightarrow> (\<And>x. Q x \<Longrightarrow> P x) \<Longrightarrow> post P m"
  by (cases m) simp_all

lemma post_if: "(b \<Longrightarrow> post P m) \<Longrightarrow> (\<not> b \<Longrightarrow> post P n) \<Longrightarrow> post P (if b then m else n)"
  by simp

text \<open>\<open>yields P m\<close>: what the computation returns, if it returns, satisfies \<open>P\<close>.\<close>

definition yields :: "('a \<Rightarrow> bool) \<Rightarrow> ('e, 'a) result \<Rightarrow> bool" where
  "yields P m \<longleftrightarrow> (\<forall>x. m = Ok x \<longrightarrow> P x)"

lemma yields_simps [simp]: "yields P (Ok x) = P x" "yields P (Err e)" "yields P Panic"
  by (simp_all add: yields_def)

lemma yields_then: "(\<And>x. yields P (k x)) \<Longrightarrow> yields P (and_then m k)"
  by (cases m) auto

lemma yields_prod: "(\<And>a b. yields P (k a b)) \<Longrightarrow> yields P (case p of (a, b) \<Rightarrow> k a b)"
  by (cases p) auto

lemma yieldsD: "yields P m \<Longrightarrow> m = Ok x \<Longrightarrow> P x"
  by (simp add: yields_def)

section \<open>Slices and buffers\<close>

text \<open>
  \<open>idx\<close> is \<open>data[i]\<close>, \<open>subslice\<close> is \<open>&data[a..b]\<close>, \<open>put\<close> is a run of assignments
  \<open>buf[pos] = b0; buf[pos + 1] = b1; ...\<close>, and \<open>copy_at\<close> is
  \<open>buf[a..b].copy_from_slice(src)\<close>. Each panics where Rust does.
\<close>

definition idx :: "'a list \<Rightarrow> nat \<Rightarrow> ('e, 'a) result" where
  [slice_defs]: "idx xs i = (if i < length xs then Ok (xs ! i) else Panic)"

definition subslice :: "'a list \<Rightarrow> nat \<Rightarrow> nat \<Rightarrow> ('e, 'a list) result" where
  [slice_defs]: "subslice xs a b =
     (if a \<le> b \<and> b \<le> length xs then Ok (take (b - a) (drop a xs)) else Panic)"

definition store :: "'a list \<Rightarrow> nat \<Rightarrow> 'a \<Rightarrow> ('e, 'a list) result" where
  [slice_defs]: "store xs i x = (if i < length xs then Ok (xs[i := x]) else Panic)"

fun put :: "'a list \<Rightarrow> nat \<Rightarrow> 'a list \<Rightarrow> ('e, 'a list) result" where
  "put buf pos [] = Ok buf"
| "put buf pos (b # bs) = and_then (store buf pos b) (\<lambda>buf'. put buf' (pos + 1) bs)"

definition copy_at :: "'a list \<Rightarrow> nat \<Rightarrow> nat \<Rightarrow> 'a list \<Rightarrow> ('e, 'a list) result" where
  [slice_defs]: "copy_at buf a b src =
     (if a \<le> b \<and> b \<le> length buf \<and> length src = b - a
      then Ok (take a buf @ src @ drop b buf) else Panic)"

text \<open>\<open>overwrite\<close> overwrites a run of elements: what a successful \<open>put\<close> leaves behind.\<close>

definition overwrite :: "'a list \<Rightarrow> nat \<Rightarrow> 'a list \<Rightarrow> 'a list" where
  "overwrite buf pos bs = take pos buf @ bs @ drop (pos + length bs) buf"

lemma overwrite_Nil [simp]: "overwrite buf pos [] = buf"
  by (simp add: overwrite_def)

lemma length_overwrite [simp]:
  "pos + length bs \<le> length buf \<Longrightarrow> length (overwrite buf pos bs) = length buf"
  by (simp add: overwrite_def)

lemma overwrite_overwrite:
  "pos + length as + length bs \<le> length buf \<Longrightarrow>
   overwrite (overwrite buf pos as) (pos + length as) bs = overwrite buf pos (as @ bs)"
  by (cases as) (auto simp: overwrite_def min_def ac_simps)

lemma overwrite_Cons:
  "pos + length bs < length buf \<Longrightarrow> overwrite (buf[pos := b]) (Suc pos) bs = overwrite buf pos (b # bs)"
  by (simp add: overwrite_def drop_update_swap take_Suc_conv_app_nth)

lemma put_eq:
  fixes buf :: "'a list"
  shows "put buf pos bs =
     (if bs = [] \<or> pos + length bs \<le> length buf
      then Ok (overwrite buf pos bs) else (Panic :: ('e, 'a list) result))"
proof (induction bs arbitrary: buf pos)
  case Nil
  then show ?case by simp
next
  case (Cons b bs)
  show ?case
  proof (cases "pos < length buf")
    case False
    then show ?thesis by (simp add: store_def)
  next
    case True
    then have "put buf pos (b # bs) = (put (buf[pos := b]) (Suc pos) bs :: ('e, 'a list) result)"
      by (simp add: store_def)
    also have "\<dots> = (if bs = [] \<or> Suc pos + length bs \<le> length buf
                    then Ok (overwrite (buf[pos := b]) (Suc pos) bs) else Panic)"
      using Cons.IH [of "buf[pos := b]" "Suc pos"] by simp
    also have "\<dots> = (if Suc pos + length bs \<le> length buf
                    then Ok (overwrite buf pos (b # bs)) else Panic)"
      using True overwrite_Cons [of pos bs buf b] by auto
    finally show ?thesis by simp
  qed
qed

declare put.simps(2) [simp del]

lemma copy_at_eq:
  "b = a + length src \<Longrightarrow>
   copy_at buf a b src = (if a + length src \<le> length buf then Ok (overwrite buf a src) else Panic)"
  by (auto simp: copy_at_def overwrite_def)

lemma take_overwrite [simp]:
  "pos + length bs \<le> length buf \<Longrightarrow> take (pos + length bs) (overwrite buf pos bs) = take pos buf @ bs"
  by (simp add: overwrite_def)

lemma take_overwrite0 [simp]:
  "length bs \<le> length buf \<Longrightarrow> take (length bs) (overwrite buf 0 bs) = bs"
  by (simp add: overwrite_def)

section \<open>First index\<close>

text \<open>\<open>iter().position(P)\<close>: the index of the first element that satisfies \<open>P\<close>.\<close>

fun find_index :: "('a \<Rightarrow> bool) \<Rightarrow> 'a list \<Rightarrow> nat option" where
  "find_index P [] = None"
| "find_index P (x # xs) = (if P x then Some 0 else map_option Suc (find_index P xs))"

lemma find_index_None: "find_index P xs = None \<longleftrightarrow> (\<forall>x \<in> set xs. \<not> P x)"
  by (induction xs) auto

lemma find_index_SomeD:
  "find_index P xs = Some i \<Longrightarrow> i < length xs \<and> P (xs ! i) \<and> (\<forall>j < i. \<not> P (xs ! j))"
proof (induction xs arbitrary: i)
  case (Cons x xs)
  show ?case
  proof (cases "P x")
    case False
    with Cons.prems obtain k where k: "find_index P xs = Some k" "i = Suc k" by auto
    from Cons.IH [OF k(1)] k(2) False show ?thesis
      by (auto simp: nth_Cons split: nat.split)
  qed (use Cons.prems in simp)
qed simp

lemma find_index_snoc:
  "find_index P (xs @ [y]) =
     (case find_index P xs of Some i \<Rightarrow> Some i | None \<Rightarrow> if P y then Some (length xs) else None)"
  by (induction xs) (auto split: option.splits)

lemma find_index_map: "find_index P (map f xs) = find_index (\<lambda>x. P (f x)) xs"
  by (induction xs) simp_all

section \<open>Bytes at a position\<close>

text \<open>\<open>at data pos bs\<close>: the bytes \<open>bs\<close> stand in \<open>data\<close> from index \<open>pos\<close> on.\<close>

definition at :: "'a list \<Rightarrow> nat \<Rightarrow> 'a list \<Rightarrow> bool" where
  "at data pos bs \<longleftrightarrow> pos + length bs \<le> length data \<and> take (length bs) (drop pos data) = bs"

lemma at_Nil [simp]: "at data pos [] \<longleftrightarrow> pos \<le> length data"
  by (simp add: at_def)

lemma at_append:
  "at data pos (as @ bs) \<longleftrightarrow> at data pos as \<and> at data (pos + length as) bs"
proof
  assume a: "at data pos (as @ bs)"
  then obtain rest where p: "drop pos data = as @ bs @ rest"
    unfolding at_def by (metis append.assoc append_take_drop_id)
  then have q: "drop (pos + length as) data = bs @ rest"
    by (metis add.commute append_eq_conv_conj drop_drop)
  from a p q show "at data pos as \<and> at data (pos + length as) bs"
    by (simp add: at_def)
next
  assume "at data pos as \<and> at data (pos + length as) bs"
  then have a: "take (length as) (drop pos data) = as"
    and b: "take (length bs) (drop (pos + length as) data) = bs"
    and l: "pos + length as + length bs \<le> length data"
    by (auto simp: at_def)
  have "take (length as + length bs) (drop pos data) =
        take (length as) (drop pos data) @ take (length bs) (drop (length as) (drop pos data))"
    by (rule take_add)
  with a b l show "at data pos (as @ bs)"
    by (simp add: at_def add.commute)
qed

lemma at_Cons:
  "at data pos (b # bs) \<longleftrightarrow> pos < length data \<and> data ! pos = b \<and> at data (Suc pos) bs"
proof -
  have "at data pos [b] \<longleftrightarrow> pos < length data \<and> data ! pos = b"
    by (auto simp: at_def take_Suc_conv_app_nth take_Suc hd_drop_conv_nth)
  with at_append [of data pos "[b]" bs] show ?thesis by simp
qed

lemma at_length: "at data pos bs \<Longrightarrow> pos + length bs \<le> length data"
  by (simp add: at_def)

lemma at_nth: "at data pos bs \<Longrightarrow> i < length bs \<Longrightarrow> data ! (pos + i) = bs ! i"
  unfolding at_def by (metis add_leD1 nth_drop nth_take)

lemma at_self [simp]: "at data 0 data"
  by (simp add: at_def)

lemma at_prefix: "at (bs @ rest) 0 bs"
  by (simp add: at_def)

lemma at_suffix: "at (pre @ bs) (length pre) bs"
  by (simp add: at_def)

lemma at_slice: "at data pos bs \<Longrightarrow> b = pos + length bs \<Longrightarrow> subslice data pos b = Ok bs"
  by (simp add: at_def subslice_def)

lemma at_idx: "at data pos (b # bs) \<Longrightarrow> idx data pos = Ok b"
  by (simp add: at_Cons idx_def)

section \<open>Big-endian and little-endian words\<close>

definition be16 :: "u16 \<Rightarrow> bytes" where
  "be16 v = [ucast (drop_bit 8 v), ucast v]"

definition be32 :: "u32 \<Rightarrow> bytes" where
  "be32 v = [ucast (drop_bit 24 v), ucast (drop_bit 16 v), ucast (drop_bit 8 v), ucast v]"

definition of_be16 :: "u8 \<Rightarrow> u8 \<Rightarrow> u16" where
  "of_be16 a b = push_bit 8 (ucast a) OR ucast b"

definition of_be32 :: "u8 \<Rightarrow> u8 \<Rightarrow> u8 \<Rightarrow> u8 \<Rightarrow> u32" where
  "of_be32 a b c d =
     push_bit 24 (ucast a) OR push_bit 16 (ucast b) OR push_bit 8 (ucast c) OR ucast d"

lemma length_be [simp]: "length (be16 v) = 2" "length (be32 u) = 4"
  by (simp_all add: be16_def be32_def)

lemma be_not_Nil [simp]: "be16 v \<noteq> []" "be32 u \<noteq> []"
  by (simp_all add: be16_def be32_def)

lemma of_be16_be16 [simp]: "of_be16 (ucast (drop_bit 8 v)) (ucast v) = v"
  by (rule bit_word_eqI)
     (auto simp: of_be16_def bit_simps not_less nat_less_iff less_diff_conv2)

lemma of_be32_be32 [simp]:
  "of_be32 (ucast (drop_bit 24 v)) (ucast (drop_bit 16 v)) (ucast (drop_bit 8 v)) (ucast v) = v"
proof (rule bit_word_eqI)
  fix n assume n: "n < LENGTH(32)"
  then consider "n < 8" | "8 \<le> n" "n < 16" | "16 \<le> n" "n < 24" | "24 \<le> n" "n < 32"
    by force
  then show "bit (of_be32 (ucast (drop_bit 24 v)) (ucast (drop_bit 16 v)) (ucast (drop_bit 8 v)) (ucast v)) n
    = bit v n"
    by cases (auto simp: of_be32_def bit_simps)
qed

end
