(* ===== verification/Errors.thy ===== *)
theory Errors
  imports Prelude
begin

text \<open>
  The error types of \<open>bridge-core/src/error.rs\<close> with their \<open>Display\<close> text and the two
  \<open>From\<close> conversions into the umbrella error.
\<close>

datatype EncodeError = BufferTooSmall | StringTooLong | InvalidValue

datatype DecodeError =
    UnexpectedEnd
  | InvalidData
  | InvalidVersion
  | LengthOutOfBounds
  | InvalidNamePointer

datatype BridgeError =
    Encode EncodeError
  | Decode DecodeError
  | InvalidConfig
  | RingBufferFull
  | IpcNotReady

fun display_encode_error :: "EncodeError \<Rightarrow> string" where
  "display_encode_error BufferTooSmall = ''encode error: buffer too small''"
| "display_encode_error StringTooLong = ''encode error: string too long''"
| "display_encode_error InvalidValue = ''encode error: invalid value''"

fun display_decode_error :: "DecodeError \<Rightarrow> string" where
  "display_decode_error UnexpectedEnd = ''decode error: unexpected end of data''"
| "display_decode_error InvalidData = ''decode error: invalid data''"
| "display_decode_error InvalidVersion = ''decode error: invalid version''"
| "display_decode_error LengthOutOfBounds = ''decode error: length out of bounds''"
| "display_decode_error InvalidNamePointer = ''decode error: invalid DNS name pointer''"

fun display_bridge_error :: "BridgeError \<Rightarrow> string" where
  "display_bridge_error (Encode e) = ''bridge error: '' @ display_encode_error e"
| "display_bridge_error (Decode e) = ''bridge error: '' @ display_decode_error e"
| "display_bridge_error InvalidConfig = ''bridge error: invalid configuration''"
| "display_bridge_error RingBufferFull = ''bridge error: ring buffer full''"
| "display_bridge_error IpcNotReady = ''bridge error: IPC channel not ready''"

definition from_encode_error :: "EncodeError \<Rightarrow> BridgeError" where
  "from_encode_error e = Encode e"

definition from_decode_error :: "DecodeError \<Rightarrow> BridgeError" where
  "from_decode_error e = Decode e"

text \<open>The texts tell every two errors apart: a log line identifies the error it reports.\<close>

lemma display_encode_error_inj: "display_encode_error d = display_encode_error e \<longleftrightarrow> d = e"
  by (cases d; cases e) simp_all

lemma display_decode_error_inj: "display_decode_error d = display_decode_error e \<longleftrightarrow> d = e"
  by (cases d; cases e) simp_all

lemma display_bridge_error_inj: "display_bridge_error d = display_bridge_error e \<longleftrightarrow> d = e"
proof -
  have enc: "hd (display_encode_error x) = CHR ''e'' \<and> display_encode_error x \<noteq> []" for x
    by (cases x) simp_all
  have dec: "hd (display_decode_error y) = CHR ''d'' \<and> display_decode_error y \<noteq> []" for y
    by (cases y) simp_all
  have ne: "display_encode_error x \<noteq> display_decode_error y" for x y
    using enc [of x] dec [of y] by auto
  have lit: "display_encode_error x \<noteq> c # cs" if "c \<noteq> CHR ''e''" for x c cs
    using enc [of x] that by auto
  have lit': "display_decode_error x \<noteq> c # cs" if "c \<noteq> CHR ''d''" for x c cs
    using dec [of x] that by auto
  show ?thesis
    by (cases d; cases e)
       (simp_all add: display_encode_error_inj display_decode_error_inj ne ne [symmetric] lit lit'
          lit [symmetric] lit' [symmetric])
qed

end
