(* ===== verification/Codec.thy ===== *)
theory Codec
  imports Errors
begin

text \<open>
  The interface every wire format of the bridge offers, stated once.

  An encoder writes a value into the caller's buffer at a position and returns the buffer
  and the new position, or fails; \<open>emit\<close> is the canonical one. The locale \<open>encoder\<close> says
  that an encoder behaves as \<open>emit\<close> of a fixed byte string, the locale \<open>codec\<close> that a
  decoder reads that byte string back wherever it stands in the input. The laws give round
  trips, unique decodability, exact sizes and the absence of panics for every instance.

  On \<open>Err\<close> the model does not return the buffer: the code may have written a part of it, and
  every caller discards the buffer then.
\<close>

type_synonym writer = "bytes \<Rightarrow> nat \<Rightarrow> (EncodeError, bytes \<times> nat) result"

definition emit :: "bytes \<Rightarrow> writer" where
  "emit bs buf pos =
     (if bs = [] \<or> pos + length bs \<le> length buf
      then Ok (overwrite buf pos bs, pos + length bs) else Err BufferTooSmall)"

named_theorems emit_simps "encoders as emit"

lemma emit_Nil [simp]: "emit [] buf pos = Ok (buf, pos)"
  by (simp add: emit_def)

lemma emit_emit:
  "and_then (emit as buf pos) (\<lambda>(b, p). emit bs b p) = emit (as @ bs) buf pos"
  by (cases "as = []"; cases "bs = []") (auto simp: emit_def overwrite_overwrite add.assoc)

lemma emit_emit_then:
  "and_then (emit as buf pos) (\<lambda>(b, p). and_then (emit bs b p) (\<lambda>(b, p). k b p)) =
   and_then (emit (as @ bs) buf pos) (\<lambda>(b, p). k b p)"
proof -
  have "and_then (emit as buf pos) (\<lambda>(b, p). and_then (emit bs b p) (\<lambda>(b, p). k b p)) =
        and_then (and_then (emit as buf pos) (\<lambda>(b, p). emit bs b p)) (\<lambda>(b, p). k b p)"
    by (simp add: and_then_assoc case_prod_unfold)
  then show ?thesis by (simp add: emit_emit)
qed

text \<open>A step that behaves as \<open>emit\<close> at the position it is used at.\<close>

lemma emit_step:
  assumes "\<And>b. length b = length buf \<Longrightarrow> f b (pos + length as) = emit bs b (pos + length as)"
    and "pos + length as \<le> length buf"
  shows "and_then (emit as buf pos) (\<lambda>(b, p). and_then (f b p) k) = and_then (emit (as @ bs) buf pos) k"
proof -
  have "and_then (emit as buf pos) (\<lambda>(b, p). and_then (f b p) k) =
      and_then (emit as buf pos) (\<lambda>(b, p). and_then (emit bs b p) (\<lambda>(b, p). k (b, p)))"
    using assms by (simp add: emit_def)
  then show ?thesis
    using emit_emit_then [of as buf pos bs "\<lambda>b p. k (b, p)"] by simp
qed

lemma emit_Ok_iff:
  "emit bs buf pos = Ok r \<longleftrightarrow>
   (bs = [] \<or> pos + length bs \<le> length buf) \<and> r = (overwrite buf pos bs, pos + length bs)"
  by (auto simp: emit_def)

lemma emit_not_Panic [simp]: "emit bs buf pos \<noteq> Panic"
  by (simp add: emit_def)

lemma emit_at:
  "emit bs buf pos = Ok (buf', pos') \<Longrightarrow> pos \<le> length buf \<Longrightarrow>
   at buf' pos bs \<and> pos' = pos + length bs \<and> length buf' = length buf \<and> take pos buf' = take pos buf"
  by (auto simp: emit_Ok_iff at_def overwrite_def min_def)

lemma emit_0:
  "emit bs buf 0 = Ok (buf', n) \<Longrightarrow> take n buf' = bs \<and> n = length bs \<and> length buf' = length buf"
  by (auto simp: emit_Ok_iff)

lemma emit_take: "emit bs buf 0 = Ok (buf', n) \<Longrightarrow> take n buf' = bs"
  by (auto simp: emit_Ok_iff)

section \<open>Encoders\<close>

locale encoder =
  fixes enc :: "'a \<Rightarrow> writer"
    and wire :: "'a \<Rightarrow> bytes"
    and valid :: "'a \<Rightarrow> bool"
  assumes enc_emit: "valid v \<Longrightarrow> enc v buf pos = emit (wire v) buf pos"
begin

lemma enc_fits:
  "valid v \<Longrightarrow> pos + length (wire v) \<le> length buf \<Longrightarrow>
   enc v buf pos = Ok (overwrite buf pos (wire v), pos + length (wire v))"
  by (simp add: enc_emit emit_def)

lemma enc_too_small:
  "valid v \<Longrightarrow> wire v \<noteq> [] \<Longrightarrow> length buf < pos + length (wire v) \<Longrightarrow>
   enc v buf pos = Err BufferTooSmall"
  by (simp add: enc_emit emit_def)

lemma enc_safe: "valid v \<Longrightarrow> enc v buf pos \<noteq> Panic"
  by (simp add: enc_emit)

lemma enc_at:
  "valid v \<Longrightarrow> enc v buf pos = Ok (buf', pos') \<Longrightarrow> pos \<le> length buf \<Longrightarrow>
   at buf' pos (wire v) \<and> pos' = pos + length (wire v) \<and> length buf' = length buf
   \<and> take pos buf' = take pos buf"
  using emit_at by (simp add: enc_emit)

text \<open>Two encoders one after the other write the concatenation.\<close>

lemma enc_seq:
  "valid v \<Longrightarrow> and_then (emit as buf pos) (\<lambda>(b, p). enc v b p) = emit (as @ wire v) buf pos"
  by (simp add: enc_emit emit_emit)

lemma enc_optional:
  "(case x of None \<Rightarrow> True | Some v \<Rightarrow> valid v) \<Longrightarrow>
   (case x of None \<Rightarrow> Ok (buf, pos) | Some v \<Rightarrow> enc v buf pos) =
   emit (case x of None \<Rightarrow> [] | Some v \<Rightarrow> wire v) buf pos"
  by (cases x) (simp_all add: enc_emit)

end

section \<open>Codecs\<close>

text \<open>
  \<open>w\<close> is the pointer width: the decoders are correct on inputs that fit into the address
  space, \<open>length data < 2 ^ w\<close>.
\<close>

locale codec = encoder enc wire valid
  for enc :: "'a \<Rightarrow> writer" and wire :: "'a \<Rightarrow> bytes" and valid :: "'a \<Rightarrow> bool" +
  fixes dec :: "bytes \<Rightarrow> nat \<Rightarrow> (DecodeError, 'a \<times> nat) result"
    and w :: nat
  assumes dec_at: "valid v \<Longrightarrow> length data < 2 ^ w \<Longrightarrow> at data pos (wire v) \<Longrightarrow>
    dec data pos = Ok (v, pos + length (wire v))"
begin

lemma roundtrip:
  "valid v \<Longrightarrow> length buf < 2 ^ w \<Longrightarrow> pos \<le> length buf \<Longrightarrow> enc v buf pos = Ok (buf', pos') \<Longrightarrow>
   dec buf' pos = Ok (v, pos')"
  using enc_at [of v buf pos buf' pos'] dec_at [of v buf' pos] by simp

text \<open>No encoding is a prefix of another one: what stands on the wire is unambiguous.\<close>

lemma prefix_free:
  "valid u \<Longrightarrow> valid v \<Longrightarrow> length data < 2 ^ w \<Longrightarrow> at data pos (wire u) \<Longrightarrow> at data pos (wire v) \<Longrightarrow>
   u = v"
  using dec_at [of u data pos] dec_at [of v data pos] by simp

lemma wire_inject:
  "valid u \<Longrightarrow> valid v \<Longrightarrow> length (wire u) < 2 ^ w \<Longrightarrow> wire u = wire v \<longleftrightarrow> u = v"
  using prefix_free [of u v "wire u" 0] by auto

end

end
