(* ===== verification/Rust_Str.thy ===== *)
theory Rust_Str
  imports Codec
begin

text \<open>
  What the sources use of Rust's \<open>str\<close> and of \<open>heapless::String\<close> and \<open>heapless::Vec\<close>. A
  string is its list of UTF-8 bytes; a \<open>char\<close> is the byte group that encodes it.
  \<open>utf8_valid\<close> is the test of \<open>core::str::from_utf8\<close>.
\<close>

definition str :: "string \<Rightarrow> bytes" where
  "str s = map of_char s"

lemma length_str [simp]: "length (str s) = length s"
  by (simp add: str_def)

definition QUOTE :: u8 where "QUOTE = 34"

text \<open>A JSON literal of the source, written with a caret for each double quote.\<close>

definition json :: "string \<Rightarrow> bytes" where
  "json s = map (\<lambda>b. if b = 94 then QUOTE else b) (str s)"

section \<open>UTF-8\<close>

definition is_cont :: "u8 \<Rightarrow> bool" where
  "is_cont b \<longleftrightarrow> b AND 0xC0 = 0x80"

fun utf8_valid :: "bytes \<Rightarrow> bool" where
  "utf8_valid [] = True"
| "utf8_valid (b # bs) =
     (if b < 0x80 then utf8_valid bs
      else if 0xC2 \<le> b \<and> b \<le> 0xDF then
        (case bs of c1 # r \<Rightarrow> is_cont c1 \<and> utf8_valid r | _ \<Rightarrow> False)
      else if 0xE0 \<le> b \<and> b \<le> 0xEF then
        (case bs of c1 # c2 # r \<Rightarrow>
           is_cont c1 \<and> (b = 0xE0 \<longrightarrow> 0xA0 \<le> c1) \<and> (b = 0xED \<longrightarrow> c1 \<le> 0x9F)
           \<and> is_cont c2 \<and> utf8_valid r | _ \<Rightarrow> False)
      else if 0xF0 \<le> b \<and> b \<le> 0xF4 then
        (case bs of c1 # c2 # c3 # r \<Rightarrow>
           is_cont c1 \<and> (b = 0xF0 \<longrightarrow> 0x90 \<le> c1) \<and> (b = 0xF4 \<longrightarrow> c1 \<le> 0x8F)
           \<and> is_cont c2 \<and> is_cont c3 \<and> utf8_valid r | _ \<Rightarrow> False)
      else False)"

text \<open>The characters of a string: a lead byte and the continuation bytes after it.\<close>

lemma length_dropWhile_Suc [termination_simp]: "length (dropWhile P xs) < Suc (length xs)"
  by (simp add: le_imp_less_Suc length_dropWhile_le)

fun chars :: "bytes \<Rightarrow> bytes list" where
  "chars [] = []"
| "chars (b # bs) = (b # takeWhile is_cont bs) # chars (dropWhile is_cont bs)"

lemma concat_chars [simp]: "concat (chars s) = s"
  by (induction s rule: chars.induct) simp_all

definition is_char_boundary :: "bytes \<Rightarrow> nat \<Rightarrow> bool" where
  "is_char_boundary s i \<longleftrightarrow> i = 0 \<or> i = length s \<or> (i < length s \<and> \<not> is_cont (s ! i))"

text \<open>\<open>while end > 0 && !s.is_char_boundary(end) { end -= 1 }\<close>\<close>

fun floor_boundary :: "bytes \<Rightarrow> nat \<Rightarrow> nat" where
  "floor_boundary s 0 = 0"
| "floor_boundary s (Suc n) =
     (if is_char_boundary s (Suc n) then Suc n else floor_boundary s n)"

lemma floor_boundary_le: "floor_boundary s n \<le> n"
  by (induction n) auto

lemma floor_boundary_boundary: "is_char_boundary s (floor_boundary s n)"
  by (induction n) (auto simp: is_char_boundary_def)

section \<open>Fixed-capacity strings and vectors\<close>

text \<open>
  \<open>push_str\<close> and \<open>push\<close> either append the whole argument or leave the string as it is and
  fail; \<open>push_chars\<close> is the loop \<open>for ch in s.chars() { let _ = out.push(ch); }\<close>, which
  skips the characters that do not fit.
\<close>

definition push_str :: "nat \<Rightarrow> bytes \<Rightarrow> bytes \<Rightarrow> bytes option" where
  "push_str cap s t = (if length s + length t \<le> cap then Some (s @ t) else None)"

definition push_ignore :: "nat \<Rightarrow> bytes \<Rightarrow> bytes \<Rightarrow> bytes" where
  "push_ignore cap s t = (case push_str cap s t of Some s' \<Rightarrow> s' | None \<Rightarrow> s)"

definition push_chars :: "nat \<Rightarrow> bytes \<Rightarrow> bytes \<Rightarrow> bytes" where
  "push_chars cap s t = foldl (push_ignore cap) s (chars t)"

text \<open>\<open>write!(s, ...)\<close>: the pieces of the format are appended one after the other, until one does not fit.\<close>

fun push_all :: "nat \<Rightarrow> bytes \<Rightarrow> bytes list \<Rightarrow> bytes option" where
  "push_all cap s [] = Some s"
| "push_all cap s (p # ps) = (case push_str cap s p of None \<Rightarrow> None | Some s' \<Rightarrow> push_all cap s' ps)"

text \<open>\<open>let _ = write!(s, ...)\<close>: the pieces before the first one that does not fit stay.\<close>

fun push_until :: "nat \<Rightarrow> bytes \<Rightarrow> bytes list \<Rightarrow> bytes" where
  "push_until cap s [] = s"
| "push_until cap s (p # ps) = (case push_str cap s p of None \<Rightarrow> s | Some s' \<Rightarrow> push_until cap s' ps)"

definition vec_push :: "nat \<Rightarrow> 'a list \<Rightarrow> 'a \<Rightarrow> 'a list option" where
  "vec_push cap v x = (if length v < cap then Some (v @ [x]) else None)"

definition vec_push_ignore :: "nat \<Rightarrow> 'a list \<Rightarrow> 'a \<Rightarrow> 'a list" where
  "vec_push_ignore cap v x = (case vec_push cap v x of Some v' \<Rightarrow> v' | None \<Rightarrow> v)"

lemma push_all_eq:
  "push_all cap s ps = (if ps = [] \<or> length s + length (concat ps) \<le> cap then Some (s @ concat ps) else None)"
  by (induction ps arbitrary: s) (auto simp: push_str_def)

lemma push_until_length: "length s \<le> cap \<Longrightarrow> length (push_until cap s ps) \<le> cap"
  by (induction ps arbitrary: s) (simp_all add: push_str_def)

lemma push_until_fits: "length s + length (concat ps) \<le> cap \<Longrightarrow> push_until cap s ps = s @ concat ps"
  by (induction ps arbitrary: s) (simp_all add: push_str_def)

lemma push_ignore_length: "length s \<le> cap \<Longrightarrow> length (push_ignore cap s t) \<le> cap"
  by (simp add: push_ignore_def push_str_def)

lemma foldl_push_length:
  "length s \<le> cap \<Longrightarrow> length (foldl (push_ignore cap) s cs) \<le> cap"
  by (induction cs arbitrary: s) (simp_all add: push_ignore_length)

lemma push_chars_length: "length s \<le> cap \<Longrightarrow> length (push_chars cap s t) \<le> cap"
  by (simp add: push_chars_def foldl_push_length)

lemma foldl_push_fits:
  "length s + length (concat cs) \<le> cap \<Longrightarrow> foldl (push_ignore cap) s cs = s @ concat cs"
  by (induction cs arbitrary: s) (simp_all add: push_ignore_def push_str_def)

lemma push_chars_fits: "length s + length t \<le> cap \<Longrightarrow> push_chars cap s t = s @ t"
  by (simp add: push_chars_def foldl_push_fits)

lemma vec_push_ignore_length: "length v \<le> cap \<Longrightarrow> length (vec_push_ignore cap v x) \<le> cap"
  by (simp add: vec_push_ignore_def vec_push_def)

section \<open>Splitting\<close>

text \<open>\<open>s.split(c)\<close> for an ASCII character: the parts between its occurrences, at least one.\<close>

fun split_on :: "u8 \<Rightarrow> bytes \<Rightarrow> bytes list" where
  "split_on c [] = [[]]"
| "split_on c (b # bs) = (if b = c then [] # split_on c bs
     else (case split_on c bs of p # ps \<Rightarrow> (b # p) # ps | [] \<Rightarrow> [[b]]))"

fun join :: "u8 \<Rightarrow> bytes list \<Rightarrow> bytes" where
  "join c [] = []"
| "join c [p] = p"
| "join c (p # q # ps) = p @ c # join c (q # ps)"

lemma split_on_not_Nil [simp]: "split_on c s \<noteq> []"
  by (induction s) (auto split: list.split)

lemma join_Cons: "join c (p # ps) = (if ps = [] then p else p @ c # join c ps)"
  by (cases ps) simp_all

lemma join_split_on [simp]: "join c (split_on c s) = s"
  by (induction s) (auto simp: join_Cons split: list.split)

lemma split_on_no_sep: "\<forall>p \<in> set (split_on c s). c \<notin> set p"
  by (induction s) (auto split: list.split)

lemma split_on_part: "c \<notin> set p \<Longrightarrow> split_on c p = [p]"
  by (induction p) auto

lemma split_on_append: "c \<notin> set p \<Longrightarrow> split_on c (p @ c # s) = p # split_on c s"
  by (induction p) auto

lemma split_on_join: "ps \<noteq> [] \<Longrightarrow> \<forall>p \<in> set ps. c \<notin> set p \<Longrightarrow> split_on c (join c ps) = ps"
  by (induction c ps rule: join.induct) (simp_all add: split_on_part split_on_append)

section \<open>Decimal integers\<close>

text \<open>\<open>{}\<close> of an unsigned integer, and \<open>str::parse\<close> into one of \<open>2 ^ w\<close> values.\<close>

fun dec_digits :: "nat \<Rightarrow> bytes" where
  "dec_digits n = (if n < 10 then [48 + of_nat n]
                   else dec_digits (n div 10) @ [48 + of_nat (n mod 10)])"

declare dec_digits.simps [simp del]

text \<open>\<open>{}\<close> of a signed integer: the sign is a piece of its own; \<open>{:0w}\<close> of an unsigned one.\<close>

definition dec_int :: "int \<Rightarrow> bytes list" where
  "dec_int n = (if n < 0 then [[45]] else []) @ [dec_digits (nat \<bar>n\<bar>)]"

definition dec_padded :: "nat \<Rightarrow> nat \<Rightarrow> bytes list" where
  "dec_padded w n = replicate (w - length (dec_digits n)) [48] @ [dec_digits n]"

definition is_digit :: "u8 \<Rightarrow> bool" where
  "is_digit b \<longleftrightarrow> 48 \<le> b \<and> b \<le> 57"

definition digit_val :: "u8 \<Rightarrow> nat" where
  "digit_val b = unat (b - 48)"

fun parse_digits :: "nat \<Rightarrow> nat \<Rightarrow> bytes \<Rightarrow> nat option" where
  "parse_digits w acc [] = Some acc"
| "parse_digits w acc (b # bs) =
     (if is_digit b \<and> 10 * acc + digit_val b < 2 ^ w
      then parse_digits w (10 * acc + digit_val b) bs else None)"

definition parse_uint :: "nat \<Rightarrow> bytes \<Rightarrow> nat option" where
  "parse_uint w s =
     (case s of [] \<Rightarrow> None
      | b # bs \<Rightarrow> if b = 43 then (if bs = [] then None else parse_digits w 0 bs)
                else parse_digits w 0 s)"

lemma parse_digits_bound: "parse_digits w acc s = Some n \<Longrightarrow> acc < 2 ^ w \<Longrightarrow> n < 2 ^ w"
  by (induction w acc s rule: parse_digits.induct) (auto split: if_splits)

lemma digit_of_nat [simp]:
  assumes "d < 10"
  shows "is_digit (48 + of_nat d)" "digit_val (48 + of_nat d) = d"
proof -
  have u: "unat (48 + of_nat d :: u8) = 48 + d" and v: "unat (of_nat d :: u8) = d"
    using assms by (simp_all add: unat_word_ariths unat_of_nat)
  then show "is_digit (48 + of_nat d)"
    using assms by (simp add: is_digit_def word_le_nat_alt)
  show "digit_val (48 + of_nat d) = d"
    using v by (simp add: digit_val_def)
qed

lemma parse_digits_append:
  "parse_digits w acc (s @ t) = (case parse_digits w acc s of None \<Rightarrow> None | Some a \<Rightarrow> parse_digits w a t)"
  by (induction w acc s rule: parse_digits.induct) auto

lemma parse_dec_digits: "n < 2 ^ w \<Longrightarrow> parse_digits w 0 (dec_digits n) = Some n"
proof (induction n rule: dec_digits.induct)
  case (1 n)
  show ?case
  proof (cases "n < 10")
    case True
    with 1 show ?thesis using digit_of_nat [of n] by (simp add: dec_digits.simps [of n])
  next
    case False
    then have "parse_digits w 0 (dec_digits (n div 10)) = Some (n div 10)"
      using 1 by (meson div_le_dividend le_less_trans)
    then show ?thesis
      using False 1(2) digit_of_nat [of "n mod 10"]
      by (simp add: dec_digits.simps [of n] parse_digits_append)
  qed
qed

lemma dec_digits_not_Nil [simp]: "dec_digits n \<noteq> []"
  by (simp add: dec_digits.simps [of n])

lemma dec_digits_all: "\<forall>b \<in> set (dec_digits n). is_digit b"
proof (induction n rule: dec_digits.induct)
  case (1 n)
  then show ?case
    using digit_of_nat(1) [of n] digit_of_nat(1) [of "n mod 10"]
    by (cases "n < 10") (auto simp: dec_digits.simps [of n])
qed

lemma dec_digits_length: "n < 10 ^ Suc k \<Longrightarrow> length (dec_digits n) \<le> Suc k"
proof (induction k arbitrary: n)
  case (Suc k)
  then have "n div 10 < 10 ^ Suc k" by (simp add: less_mult_imp_div_less)
  from Suc.IH [OF this] show ?case by (simp add: dec_digits.simps [of n])
qed (simp add: dec_digits.simps)

lemma dec_u32_length: "length (dec_digits (unat (d :: u32))) \<le> 10"
proof -
  have "unat d < 10 ^ Suc 9" using unsigned_less [of d, where ?'a = nat] by simp
  from dec_digits_length [OF this] show ?thesis by simp
qed

lemma parse_uint_dec_digits: "n < 2 ^ w \<Longrightarrow> parse_uint w (dec_digits n) = Some n"
proof -
  assume n: "n < 2 ^ w"
  obtain b bs where s: "dec_digits n = b # bs"
    by (cases "dec_digits n") simp_all
  then have "is_digit b" using dec_digits_all [of n] by simp
  then have "b \<noteq> 43" by (auto simp: is_digit_def)
  with s parse_dec_digits [OF n] show ?thesis by (simp add: parse_uint_def)
qed

section \<open>Searching\<close>

definition starts_with :: "bytes \<Rightarrow> bytes \<Rightarrow> bool" where
  "starts_with p s \<longleftrightarrow> take (length p) s = p"

definition strip_prefix :: "bytes \<Rightarrow> bytes \<Rightarrow> bytes option" where
  "strip_prefix p s = (if starts_with p s then Some (drop (length p) s) else None)"

definition strip_suffix :: "bytes \<Rightarrow> bytes \<Rightarrow> bytes option" where
  "strip_suffix p s =
     (if length p \<le> length s \<and> drop (length s - length p) s = p then Some (take (length s - length p) s) else None)"

text \<open>\<open>find\<close> of a substring: the first position it stands at.\<close>

fun str_find :: "bytes \<Rightarrow> bytes \<Rightarrow> nat option" where
  "str_find pat [] = (if pat = [] then Some 0 else None)"
| "str_find pat (b # bs) =
     (if starts_with pat (b # bs) then Some 0 else map_option Suc (str_find pat bs))"

definition str_contains :: "bytes \<Rightarrow> bytes \<Rightarrow> bool" where
  "str_contains pat s \<longleftrightarrow> str_find pat s \<noteq> None"

lemma starts_with_iff: "starts_with p s \<longleftrightarrow> (\<exists>r. s = p @ r)"
proof
  assume "starts_with p s"
  then have "s = p @ drop (length p) s" by (metis append_take_drop_id starts_with_def)
  then show "\<exists>r. s = p @ r" by blast
qed (auto simp: starts_with_def)

lemma strip_prefix_iff: "strip_prefix p s = Some r \<longleftrightarrow> s = p @ r"
  by (auto simp: strip_prefix_def starts_with_iff)

lemma strip_prefix_None: "strip_prefix p s = None \<longleftrightarrow> (\<nexists>r. s = p @ r)"
  by (simp add: strip_prefix_def starts_with_iff)

lemma str_find_Some:
  "str_find pat s = Some i \<Longrightarrow> i + length pat \<le> length s \<and> take (length pat) (drop i s) = pat"
proof (induction s arbitrary: i)
  case (Cons b s)
  then show ?case
    by (cases i) (auto simp: starts_with_def split: if_splits dest: arg_cong [where f = length])
qed (simp split: if_splits)

section \<open>Characters of a valid string\<close>

text \<open>A property of all bytes, by evaluation.\<close>

lemma all_bytes:
  assumes "\<forall>n \<in> set [0..<256]. P (of_nat n :: u8)"
  shows "P b"
proof -
  have "unat b < 256" using unsigned_less [of b, where ?'a = nat] by simp
  then have "unat b \<in> set [0..<256]" by simp
  from bspec [OF assms this] show ?thesis by simp
qed

lemma is_cont_range: "is_cont b \<longleftrightarrow> 0x80 \<le> b \<and> b \<le> 0xBF"
  by (rule all_bytes [of "\<lambda>b. is_cont b \<longleftrightarrow> 0x80 \<le> b \<and> b \<le> 0xBF"]) code_simp

lemma utf8_head:
  assumes "utf8_valid (b # bs)"
  shows "\<not> is_cont b"
proof -
  have "b < 0x80 \<or> 0xC2 \<le> b" using assms by (auto simp: word_less_nat_alt word_le_nat_alt split: if_splits)
  then show ?thesis by (auto simp: is_cont_range word_less_nat_alt word_le_nat_alt)
qed

lemma utf8_takeWhile: "utf8_valid bs \<Longrightarrow> takeWhile is_cont bs = [] \<and> dropWhile is_cont bs = bs"
  using utf8_head by (cases bs) (simp_all del: utf8_valid.simps(2))

lemma utf8_ascii: "b < 0x80 \<Longrightarrow> utf8_valid (b # bs) \<longleftrightarrow> utf8_valid bs"
  by simp

lemma utf8_multi:
  assumes "utf8_valid (b # bs)" and "\<not> b < 0x80"
  obtains cs r where "bs = cs @ r" and "\<forall>c \<in> set cs. is_cont c" and "utf8_valid r"
proof -
  have "(\<exists>c1 r. bs = [c1] @ r \<and> is_cont c1 \<and> utf8_valid r)
      \<or> (\<exists>c1 c2 r. bs = [c1, c2] @ r \<and> is_cont c1 \<and> is_cont c2 \<and> utf8_valid r)
      \<or> (\<exists>c1 c2 c3 r. bs = [c1, c2, c3] @ r \<and> is_cont c1 \<and> is_cont c2 \<and> is_cont c3 \<and> utf8_valid r)"
    using assms by (simp only: utf8_valid.simps(2) if_False split: if_splits list.splits) (simp_all del: utf8_valid.simps(2))
  then show ?thesis
    by (elim disjE exE conjE) (rule that, assumption, simp, simp)+
qed

lemma utf8_rest:
  assumes "utf8_valid (b # bs)"
  shows "b < 0x80 \<Longrightarrow> takeWhile is_cont bs = []" "utf8_valid (dropWhile is_cont bs)"
proof -
  show "b < 0x80 \<Longrightarrow> takeWhile is_cont bs = []" using assms utf8_takeWhile by (simp add: utf8_ascii)
  show "utf8_valid (dropWhile is_cont bs)"
  proof (cases "b < 0x80")
    case True
    then show ?thesis using assms utf8_takeWhile by (simp add: utf8_ascii)
  next
    case False
    from utf8_multi [OF assms this] obtain cs r where "bs = cs @ r" "\<forall>c \<in> set cs. is_cont c" "utf8_valid r" by metis
    then show ?thesis using utf8_takeWhile [of r] by (simp add: dropWhile_append2)
  qed
qed

text \<open>Each character of a valid string is one byte below 0x80 or a group of bytes from 0x80 on.\<close>

lemma utf8_chars:
  "utf8_valid s \<Longrightarrow> ch \<in> set (chars s) \<Longrightarrow> (\<exists>b. ch = [b] \<and> b < 0x80) \<or> (\<forall>c \<in> set ch. 0x80 \<le> c)"
proof (induction s arbitrary: ch rule: chars.induct)
  case (2 b bs)
  have hi: "\<forall>c \<in> set (takeWhile is_cont bs). 0x80 \<le> c" by (auto simp: is_cont_range dest: set_takeWhileD)
  show ?case
  proof (cases "ch \<in> set (chars (dropWhile is_cont bs))")
    case True
    then show ?thesis using "2.IH" utf8_rest(2) [OF "2.prems"(1)] by blast
  next
    case False
    then have "ch = b # takeWhile is_cont bs" using "2.prems"(2) by simp
    then show ?thesis using hi utf8_rest(1) [OF "2.prems"(1)] by (cases "b < 0x80") (auto simp: not_less)
  qed
qed simp

end
