(* ===== verification/Bacnet.thy ===== *)
theory Bacnet
  imports Rust_Str
begin

text \<open>
  The BACnet protocol types of \<open>bridge-core/src/bacnet.rs\<close>: object types and identifiers,
  property identifiers, values, APDU types and service choices, each with its numeric
  code. The engineering units and the conversions with \<open>f32\<close> arithmetic are in theories of
  their own.

  Names: Isabelle reserves \<open>instance\<close>, so the field is \<open>instance_no\<close>; the property
  identifiers that share a name with a value constructor or a type carry a \<open>P\<close>.
\<close>

section \<open>Object types\<close>

datatype ObjectType =
    AnalogInput | AnalogOutput | AnalogValue
  | BinaryInput | BinaryOutput | BinaryValue
  | Calendar | Device
  | MultiStateInput | MultiStateOutput
  | NotificationClass | Schedule | MultiStateValue | TrendLog

fun object_type_code :: "ObjectType \<Rightarrow> u16" where
  "object_type_code AnalogInput = 0"
| "object_type_code AnalogOutput = 1"
| "object_type_code AnalogValue = 2"
| "object_type_code BinaryInput = 3"
| "object_type_code BinaryOutput = 4"
| "object_type_code BinaryValue = 5"
| "object_type_code Calendar = 6"
| "object_type_code Device = 8"
| "object_type_code MultiStateInput = 13"
| "object_type_code MultiStateOutput = 14"
| "object_type_code NotificationClass = 15"
| "object_type_code Schedule = 17"
| "object_type_code MultiStateValue = 19"
| "object_type_code TrendLog = 20"

definition object_type_from_code :: "u16 \<Rightarrow> ObjectType option" where
  "object_type_from_code code = map_of
    [(0, AnalogInput), (1, AnalogOutput), (2, AnalogValue), (3, BinaryInput),
     (4, BinaryOutput), (5, BinaryValue), (6, Calendar), (8, Device), (13, MultiStateInput),
     (14, MultiStateOutput), (15, NotificationClass), (17, Schedule), (19, MultiStateValue),
     (20, TrendLog)] code"

lemma object_type_from_code_code [simp]: "object_type_from_code (object_type_code t) = Some t"
  by (cases t) (simp_all add: object_type_from_code_def)

lemma object_type_from_code_Some:
  "object_type_from_code c = Some t \<longleftrightarrow> c = object_type_code t"
  by (cases t) (auto simp: object_type_from_code_def split: if_splits)

lemma object_type_code_bound: "object_type_code t \<le> 20"
  by (cases t) simp_all

lemma unat_object_type_code: "unat (object_type_code t) \<le> 20"
  by (cases t) simp_all

section \<open>Object identifiers\<close>

record ObjectId =
  object_type :: ObjectType
  instance_no :: u32

definition INSTANCE_MAX :: u32 where
  "INSTANCE_MAX = 0x003FFFFE"

text \<open>\<open>ObjectId::new\<close>: its \<open>debug_assert!\<close> is compiled out of the release firmware.\<close>

definition object_id_new :: "ObjectType \<Rightarrow> u32 \<Rightarrow> ObjectId" where
  "object_id_new t n = \<lparr>object_type = t, instance_no = n\<rparr>"

definition object_id_try_new :: "ObjectType \<Rightarrow> u32 \<Rightarrow> ObjectId option" where
  "object_id_try_new t n =
     (if n > INSTANCE_MAX then None else Some \<lparr>object_type = t, instance_no = n\<rparr>)"

definition to_raw :: "ObjectId \<Rightarrow> u32" where
  "to_raw oid = push_bit 22 (ucast (object_type_code (object_type oid)))
                OR (instance_no oid AND 0x003FFFFF)"

definition from_raw :: "u32 \<Rightarrow> ObjectId option" where
  "from_raw raw =
     (let type_code = ucast (drop_bit 22 raw AND 0x3FF) :: u16;
          n = raw AND 0x003FFFFF
      in map_option (\<lambda>t. \<lparr>object_type = t, instance_no = n\<rparr>) (object_type_from_code type_code))"

text \<open>An object identifier is encodable when its instance fits into the 22-bit field.\<close>

definition encodable_id :: "ObjectId \<Rightarrow> bool" where
  "encodable_id oid \<longleftrightarrow> instance_no oid \<le> 0x003FFFFF"

lemma mask22: "(0x003FFFFF :: u32) = mask 22"
  by (simp add: mask_eq_exp_minus_1)

lemma mask10: "(0x3FF :: u32) = mask 10"
  by (simp add: mask_eq_exp_minus_1)

lemma and_mask22:
  assumes "n \<le> (0x003FFFFF :: u32)"
  shows "n AND 0x003FFFFF = n"
proof -
  have "unat n < 2 ^ 22"
    using assms by (simp add: word_le_nat_alt)
  then have "take_bit 22 n = n"
    by (simp add: word_unat_eq_iff unsigned_take_bit_eq take_bit_nat_eq_self_iff)
  then show ?thesis
    unfolding mask22 by (simp only: take_bit_eq_mask)
qed

lemma raw_type: "ucast (drop_bit 22 (to_raw oid) AND 0x3FF) = object_type_code (object_type oid)"
proof (rule bit_word_eqI)
  fix n assume "n < LENGTH(16)"
  moreover have "bit (object_type_code (object_type oid)) n \<Longrightarrow> n < 5"
    by (cases "object_type oid") (auto simp: bit_numeral_rec bit_1_iff split: nat.splits)
  ultimately show "bit (ucast (drop_bit 22 (to_raw oid) AND 0x3FF) :: u16) n =
      bit (object_type_code (object_type oid)) n"
    unfolding to_raw_def mask22 mask10 by (auto simp: bit_simps)
qed

lemma raw_instance: "to_raw oid AND 0x003FFFFF = instance_no oid AND 0x003FFFFF"
  unfolding to_raw_def mask22 by (rule bit_word_eqI) (auto simp: bit_simps)

lemma from_raw_to_raw:
  "from_raw (to_raw oid) = Some (oid\<lparr>instance_no := instance_no oid AND 0x003FFFFF\<rparr>)"
  by (simp add: from_raw_def raw_type raw_instance Let_def)

lemma from_raw_to_raw_id [simp]: "encodable_id oid \<Longrightarrow> from_raw (to_raw oid) = Some oid"
  by (simp add: from_raw_to_raw encodable_id_def and_mask22)

lemma from_raw_encodable: "from_raw raw = Some oid \<Longrightarrow> encodable_id oid"
  by (auto simp: from_raw_def Let_def encodable_id_def word_and_le1)

lemma try_new_encodable: "object_id_try_new t n = Some oid \<Longrightarrow> encodable_id oid"
  by (auto simp: object_id_try_new_def encodable_id_def INSTANCE_MAX_def word_le_nat_alt
      word_less_nat_alt split: if_splits)

section \<open>Property identifiers\<close>

datatype PropertyId =
    Description | DeviceType | ObjectIdentifierP | ObjectName | ObjectTypeP
  | OutOfService | PresentValue | StatusFlags | Units | Raw u32

definition property_from_code :: "u32 \<Rightarrow> PropertyId" where
  "property_from_code code =
     (if code = 28 then Description
      else if code = 31 then DeviceType
      else if code = 75 then ObjectIdentifierP
      else if code = 77 then ObjectName
      else if code = 79 then ObjectTypeP
      else if code = 81 then OutOfService
      else if code = 85 then PresentValue
      else if code = 111 then StatusFlags
      else if code = 117 then Units
      else Raw code)"

fun property_code :: "PropertyId \<Rightarrow> u32" where
  "property_code Description = 28"
| "property_code DeviceType = 31"
| "property_code ObjectIdentifierP = 75"
| "property_code ObjectName = 77"
| "property_code ObjectTypeP = 79"
| "property_code OutOfService = 81"
| "property_code PresentValue = 85"
| "property_code StatusFlags = 111"
| "property_code Units = 117"
| "property_code (Raw v) = v"

text \<open>
  \<open>Raw\<close> of a code that has a name of its own does not survive a round trip (it comes back
  as the named property); every property the decoder itself produces does.
\<close>

definition canonical_property :: "PropertyId \<Rightarrow> bool" where
  "canonical_property p \<longleftrightarrow> property_from_code (property_code p) = p"

lemma property_code_from_code [simp]: "property_code (property_from_code c) = c"
  by (simp add: property_from_code_def)

lemma canonical_from_code [simp]: "canonical_property (property_from_code c)"
  by (simp add: canonical_property_def)

lemma canonical_named [simp]:
  "canonical_property PresentValue" "canonical_property Units" "canonical_property ObjectName"
  "canonical_property Description" "canonical_property ObjectIdentifierP"
  "canonical_property ObjectTypeP"
  by (simp_all add: canonical_property_def property_from_code_def)

section \<open>Values\<close>

datatype BacnetValue =
    Null
  | Boolean bool
  | UnsignedInt u32
  | SignedInt i32
  | Real f32
  | CharString bytes
  | Enumerated u32
  | ObjectIdentifier ObjectId

section \<open>APDU types and service choices\<close>

datatype ApduType =
    ConfirmedRequest | UnconfirmedRequest | SimpleAckT | ComplexAck
  | SegmentAck | ErrorT | Reject | Abort

fun apdu_type_byte :: "ApduType \<Rightarrow> u8" where
  "apdu_type_byte ConfirmedRequest = 0x00"
| "apdu_type_byte UnconfirmedRequest = 0x10"
| "apdu_type_byte SimpleAckT = 0x20"
| "apdu_type_byte ComplexAck = 0x30"
| "apdu_type_byte SegmentAck = 0x40"
| "apdu_type_byte ErrorT = 0x50"
| "apdu_type_byte Reject = 0x60"
| "apdu_type_byte Abort = 0x70"

definition apdu_type_from_byte :: "u8 \<Rightarrow> ApduType option" where
  "apdu_type_from_byte b = map_of
    [(0x00, ConfirmedRequest), (0x10, UnconfirmedRequest), (0x20, SimpleAckT),
     (0x30, ComplexAck), (0x40, SegmentAck), (0x50, ErrorT), (0x60, Reject), (0x70, Abort)]
    (b AND 0xF0)"

lemma apdu_type_from_byte_byte:
  "low AND 0xF0 = 0 \<Longrightarrow> apdu_type_from_byte (apdu_type_byte t OR low) = Some t"
  by (cases t) (simp_all add: apdu_type_from_byte_def bit.conj_disj_distrib2)

datatype ServiceChoice =
    SubscribeCOV | ReadPropertyS | ReadPropertyMultiple | WritePropertyS
  | IAmS | IHave | TimeSynchronization | WhoHas | WhoIsS

fun confirmed_code :: "ServiceChoice \<Rightarrow> u8 option" where
  "confirmed_code SubscribeCOV = Some 5"
| "confirmed_code ReadPropertyS = Some 12"
| "confirmed_code ReadPropertyMultiple = Some 14"
| "confirmed_code WritePropertyS = Some 15"
| "confirmed_code _ = None"

fun unconfirmed_code :: "ServiceChoice \<Rightarrow> u8 option" where
  "unconfirmed_code IAmS = Some 0"
| "unconfirmed_code IHave = Some 1"
| "unconfirmed_code TimeSynchronization = Some 6"
| "unconfirmed_code WhoHas = Some 7"
| "unconfirmed_code WhoIsS = Some 8"
| "unconfirmed_code _ = None"

definition from_confirmed_code :: "u8 \<Rightarrow> ServiceChoice option" where
  "from_confirmed_code code = map_of
    [(5, SubscribeCOV), (12, ReadPropertyS), (14, ReadPropertyMultiple), (15, WritePropertyS)] code"

definition from_unconfirmed_code :: "u8 \<Rightarrow> ServiceChoice option" where
  "from_unconfirmed_code code = map_of
    [(0, IAmS), (1, IHave), (6, TimeSynchronization), (7, WhoHas), (8, WhoIsS)] code"

lemma from_confirmed_code_iff:
  "from_confirmed_code c = Some s \<longleftrightarrow> confirmed_code s = Some c"
  by (cases s) (auto simp: from_confirmed_code_def split: if_splits)

lemma from_unconfirmed_code_iff:
  "from_unconfirmed_code c = Some s \<longleftrightarrow> unconfirmed_code s = Some c"
  by (cases s) (auto simp: from_unconfirmed_code_def split: if_splits)

lemma service_code_exclusive: "(confirmed_code s = None) \<noteq> (unconfirmed_code s = None)"
  by (cases s) simp_all

end
