(* ===== verification/Apdu_Tags.thy ===== *)
theory Apdu_Tags
  imports Bacnet
begin

text \<open>
  The ASN.1 tag layer of \<open>bridge-core/src/apdu.rs\<close>: the encoders of tagged values, the tag
  decoder and the decoders of tagged values.

  A decoder takes the pointer width \<open>w\<close> (32 on the RP2350A, 64 on the host that runs the
  unit tests): \<open>pos + n\<close> in \<open>dneed\<close> is a \<open>usize\<close> sum whose second argument can be a 32-bit
  length from the wire, and the release profile has \<open>overflow-checks = false\<close>, so it wraps.
  A decoder returns its value with the new position, the code's \<open>*pos\<close>.
\<close>

section \<open>Encoders\<close>

definition need :: "bytes \<Rightarrow> nat \<Rightarrow> nat \<Rightarrow> (EncodeError, unit) result" where
  "need buf pos n = (if pos + n > length buf then Err BufferTooSmall else Ok ())"

definition encode_app_unsigned :: "u32 \<Rightarrow> writer" where
  "encode_app_unsigned val buf pos =
     (if val \<le> 0xFF then
        and_then (need buf pos 2) (\<lambda>_.
        and_then (put buf pos [0x21, ucast val]) (\<lambda>buf. Ok (buf, pos + 2)))
      else if val \<le> 0xFFFF then
        and_then (need buf pos 3) (\<lambda>_.
        and_then (put buf pos [0x22, ucast (drop_bit 8 val), ucast val]) (\<lambda>buf.
          Ok (buf, pos + 3)))
      else if val \<le> 0xFFFFFF then
        and_then (need buf pos 4) (\<lambda>_.
        and_then (put buf pos [0x23, ucast (drop_bit 16 val), ucast (drop_bit 8 val), ucast val])
          (\<lambda>buf. Ok (buf, pos + 4)))
      else
        and_then (need buf pos 5) (\<lambda>_.
        and_then (put buf pos [0x24, ucast (drop_bit 24 val), ucast (drop_bit 16 val),
                               ucast (drop_bit 8 val), ucast val])
          (\<lambda>buf. Ok (buf, pos + 5))))"

definition encode_context_unsigned :: "u8 \<Rightarrow> u32 \<Rightarrow> writer" where
  "encode_context_unsigned tag val buf pos =
     (let tag_hi = push_bit 4 (tag AND 0x0F) in
      if val \<le> 0xFF then
        and_then (need buf pos 2) (\<lambda>_.
        and_then (put buf pos [tag_hi OR 0x09, ucast val]) (\<lambda>buf. Ok (buf, pos + 2)))
      else if val \<le> 0xFFFF then
        and_then (need buf pos 3) (\<lambda>_.
        and_then (put buf pos [tag_hi OR 0x0A, ucast (drop_bit 8 val), ucast val]) (\<lambda>buf.
          Ok (buf, pos + 3)))
      else if val \<le> 0xFFFFFF then
        and_then (need buf pos 4) (\<lambda>_.
        and_then (put buf pos [tag_hi OR 0x0B, ucast (drop_bit 16 val), ucast (drop_bit 8 val),
                               ucast val])
          (\<lambda>buf. Ok (buf, pos + 4)))
      else
        and_then (need buf pos 5) (\<lambda>_.
        and_then (put buf pos [tag_hi OR 0x0C, ucast (drop_bit 24 val), ucast (drop_bit 16 val),
                               ucast (drop_bit 8 val), ucast val])
          (\<lambda>buf. Ok (buf, pos + 5))))"

definition encode_app_object_id :: "ObjectId \<Rightarrow> writer" where
  "encode_app_object_id obj buf pos =
     and_then (need buf pos 5) (\<lambda>_.
       let raw = to_raw obj in
       and_then (put buf pos [0xC4, ucast (drop_bit 24 raw), ucast (drop_bit 16 raw),
                              ucast (drop_bit 8 raw), ucast raw])
         (\<lambda>buf. Ok (buf, pos + 5)))"

definition encode_context_object_id :: "u8 \<Rightarrow> ObjectId \<Rightarrow> writer" where
  "encode_context_object_id tag obj buf pos =
     and_then (need buf pos 5) (\<lambda>_.
       let raw = to_raw obj in
       and_then (put buf pos [push_bit 4 (tag AND 0x0F) OR 0x0C, ucast (drop_bit 24 raw),
                              ucast (drop_bit 16 raw), ucast (drop_bit 8 raw), ucast raw])
         (\<lambda>buf. Ok (buf, pos + 5)))"

definition encode_app_enumerated :: "u32 \<Rightarrow> writer" where
  "encode_app_enumerated val buf pos =
     (if val \<le> 0xFF then
        and_then (need buf pos 2) (\<lambda>_.
        and_then (put buf pos [0x91, ucast val]) (\<lambda>buf. Ok (buf, pos + 2)))
      else if val \<le> 0xFFFF then
        and_then (need buf pos 3) (\<lambda>_.
        and_then (put buf pos [0x92, ucast (drop_bit 8 val), ucast val]) (\<lambda>buf.
          Ok (buf, pos + 3)))
      else if val \<le> 0xFFFFFF then
        and_then (need buf pos 4) (\<lambda>_.
        and_then (put buf pos [0x93, ucast (drop_bit 16 val), ucast (drop_bit 8 val), ucast val])
          (\<lambda>buf. Ok (buf, pos + 4)))
      else
        and_then (need buf pos 5) (\<lambda>_.
        and_then (put buf pos [0x94, ucast (drop_bit 24 val), ucast (drop_bit 16 val),
                               ucast (drop_bit 8 val), ucast val])
          (\<lambda>buf. Ok (buf, pos + 5))))"

definition encode_opening_tag :: "u8 \<Rightarrow> writer" where
  "encode_opening_tag tag buf pos =
     and_then (need buf pos 1) (\<lambda>_.
     and_then (put buf pos [push_bit 4 (tag AND 0x0F) OR 0x0E]) (\<lambda>buf. Ok (buf, pos + 1)))"

definition encode_closing_tag :: "u8 \<Rightarrow> writer" where
  "encode_closing_tag tag buf pos =
     and_then (need buf pos 1) (\<lambda>_.
     and_then (put buf pos [push_bit 4 (tag AND 0x0F) OR 0x0F]) (\<lambda>buf. Ok (buf, pos + 1)))"

definition signed_len :: "i32 \<Rightarrow> nat \<times> nat" where
  "signed_len v =
     (if sint v \<ge> -128 \<and> sint v \<le> 127 then (3, 1)
      else if sint v \<ge> -32768 \<and> sint v \<le> 32767 then (2, 2)
      else (0, 4))"

fun encode_app_value :: "BacnetValue \<Rightarrow> writer" where
  "encode_app_value Null buf pos =
     and_then (need buf pos 1) (\<lambda>_.
     and_then (put buf pos [0x00]) (\<lambda>buf. Ok (buf, pos + 1)))"
| "encode_app_value (Boolean b) buf pos =
     and_then (need buf pos 1) (\<lambda>_.
     and_then (put buf pos [if b then 0x11 else 0x10]) (\<lambda>buf. Ok (buf, pos + 1)))"
| "encode_app_value (UnsignedInt v) buf pos = encode_app_unsigned v buf pos"
| "encode_app_value (SignedInt v) buf pos =
     (let bytes = be32 v; (start, len) = signed_len v in
      and_then (need buf pos (1 + len)) (\<lambda>_.
      and_then (put buf pos [0x30 OR of_nat len]) (\<lambda>buf.
      let pos = pos + 1 in
      and_then (subslice bytes start (start + len)) (\<lambda>src.
      and_then (copy_at buf pos (pos + len) src) (\<lambda>buf. Ok (buf, pos + len))))))"
| "encode_app_value (Real v) buf pos =
     and_then (need buf pos 5) (\<lambda>_.
     and_then (put buf pos [0x44]) (\<lambda>buf.
     and_then (copy_at buf (pos + 1) (pos + 5) (be32 v)) (\<lambda>buf. Ok (buf, pos + 5))))"
| "encode_app_value (CharString s) buf pos =
     (let slen = length s + 1 in
      and_then
        (if slen \<le> 4 then
           and_then (need buf pos (1 + slen)) (\<lambda>_.
           and_then (put buf pos [0x70 OR of_nat slen]) (\<lambda>buf. Ok (buf, pos + 1)))
         else if slen \<le> 253 then
           and_then (need buf pos (2 + slen)) (\<lambda>_.
           and_then (put buf pos [0x75, of_nat slen]) (\<lambda>buf. Ok (buf, pos + 2)))
         else
           and_then (need buf pos (4 + slen)) (\<lambda>_.
           and_then (put buf pos [0x75, 0xFE, of_nat (slen div 256), of_nat slen]) (\<lambda>buf.
             Ok (buf, pos + 4))))
        (\<lambda>(buf, pos).
           and_then (put buf pos [0x00]) (\<lambda>buf.
           let pos = pos + 1 in
           and_then (copy_at buf pos (pos + length s) s) (\<lambda>buf. Ok (buf, pos + length s)))))"
| "encode_app_value (Enumerated v) buf pos = encode_app_enumerated v buf pos"
| "encode_app_value (ObjectIdentifier obj) buf pos = encode_app_object_id obj buf pos"

section \<open>Tag decoding\<close>

definition dneed :: "nat \<Rightarrow> bytes \<Rightarrow> nat \<Rightarrow> nat \<Rightarrow> (DecodeError, unit) result" where
  "dneed w data pos n = (if uadd w pos n > length data then Err UnexpectedEnd else Ok ())"

record TagInfo =
  number :: u8
  context_tag :: bool
  lvt :: u32
  header_len :: nat

definition decode_tag :: "nat \<Rightarrow> bytes \<Rightarrow> nat \<Rightarrow> (DecodeError, TagInfo) result" where
  "decode_tag w data pos =
     and_then (dneed w data pos 1) (\<lambda>_.
     and_then (idx data pos) (\<lambda>b.
     let num = drop_bit 4 b AND 0x0F in
     and_then
       (if num = 0x0F then
          and_then (dneed w data pos 2) (\<lambda>_.
          and_then (idx data (uadd w pos 1)) (\<lambda>n. Ok (n, 2)))
        else Ok (num, 1)) (\<lambda>(num, hlen).
     let ctx = (b AND 0x08 \<noteq> 0); lvt_raw = b AND 0x07 in
     if ctx \<and> (lvt_raw = 6 \<or> lvt_raw = 7) then
       Ok \<lparr>number = num, context_tag = ctx, lvt = ucast lvt_raw, header_len = hlen\<rparr>
     else
       and_then
         (if lvt_raw = 5 then
            and_then (dneed w data pos (hlen + 1)) (\<lambda>_.
            and_then (idx data (uadd w pos hlen)) (\<lambda>ext.
            let hlen = hlen + 1 in
            if ext < 254 then Ok (ucast ext, hlen)
            else if ext = 254 then
              and_then (dneed w data pos (hlen + 2)) (\<lambda>_.
              and_then (idx data (uadd w pos hlen)) (\<lambda>b1.
              and_then (idx data (uadd w pos (hlen + 1))) (\<lambda>b0.
                Ok (push_bit 8 (ucast b1) OR ucast b0, hlen + 2))))
            else
              and_then (dneed w data pos (hlen + 4)) (\<lambda>_.
              and_then (idx data (uadd w pos hlen)) (\<lambda>b3.
              and_then (idx data (uadd w pos (hlen + 1))) (\<lambda>b2.
              and_then (idx data (uadd w pos (hlen + 2))) (\<lambda>b1.
              and_then (idx data (uadd w pos (hlen + 3))) (\<lambda>b0.
                Ok (of_be32 b3 b2 b1 b0, hlen + 4))))))))
          else Ok (ucast lvt_raw, hlen)) (\<lambda>(v, hlen).
       Ok \<lparr>number = num, context_tag = ctx, lvt = v, header_len = hlen\<rparr>))))"

section \<open>Value decoding\<close>

text \<open>\<open>for i in 0..len { val = (val << 8) | data[pos + i] }\<close>\<close>

function shift_loop :: "nat \<Rightarrow> bytes \<Rightarrow> nat \<Rightarrow> nat \<Rightarrow> nat \<Rightarrow> u32 \<Rightarrow> (DecodeError, u32) result" where
  "shift_loop w data pos i len val =
     (if i < len then
        and_then (idx data (uadd w pos i)) (\<lambda>b.
          shift_loop w data pos (Suc i) len (push_bit 8 val OR ucast b))
      else Ok val)"
  by pat_completeness auto
termination
  by (relation "measure (\<lambda>(w, data, pos, i, len, val). len - i)") auto

declare shift_loop.simps [simp del]

definition decode_unsigned :: "nat \<Rightarrow> bytes \<Rightarrow> nat \<Rightarrow> u32 \<Rightarrow> (DecodeError, u32) result" where
  "decode_unsigned w data pos len =
     (let len = unat len in
      and_then (dneed w data pos len) (\<lambda>_. shift_loop w data pos 0 len 0))"

definition decode_signed :: "nat \<Rightarrow> bytes \<Rightarrow> nat \<Rightarrow> u32 \<Rightarrow> (DecodeError, i32) result" where
  "decode_signed w data pos len =
     (let len = unat len in
      and_then (dneed w data pos len) (\<lambda>_.
      and_then (idx data pos) (\<lambda>b.
        shift_loop w data pos 0 len (if b AND 0x80 \<noteq> 0 then -1 else 0))))"

text \<open>The \<open>String<64>\<close> of a decoded character string: the whole text, or its longest prefix
  of at most 64 bytes that ends at a character boundary.\<close>

definition to_string64 :: "bytes \<Rightarrow> bytes" where
  "to_string64 s =
     (case push_str 64 [] s of Some hs \<Rightarrow> hs
      | None \<Rightarrow> (let cut = floor_boundary s (min 64 (length s)) in
                push_ignore 64 [] (take cut s)))"

definition decode_app_value :: "nat \<Rightarrow> bytes \<Rightarrow> nat \<Rightarrow> (DecodeError, BacnetValue \<times> nat) result" where
  "decode_app_value w data pos =
     and_then (decode_tag w data pos) (\<lambda>tag.
     if context_tag tag then Err InvalidData
     else
       let vpos = uadd w pos (header_len tag); vlen = lvt tag; num = number tag;
           next = uadd w vpos (unat vlen) in
       if num = 0 then Ok (Null, next)
       else if num = 1 then Ok (Boolean (lvt tag \<noteq> 0), vpos)
       else if num = 2 then
         and_then (decode_unsigned w data vpos vlen) (\<lambda>v. Ok (UnsignedInt v, next))
       else if num = 3 then
         and_then (decode_signed w data vpos vlen) (\<lambda>v. Ok (SignedInt v, next))
       else if num = 4 then
         (if vlen \<noteq> 4 then Err InvalidData
          else
            and_then (dneed w data vpos 4) (\<lambda>_.
            and_then (idx data vpos) (\<lambda>b3.
            and_then (idx data (uadd w vpos 1)) (\<lambda>b2.
            and_then (idx data (uadd w vpos 2)) (\<lambda>b1.
            and_then (idx data (uadd w vpos 3)) (\<lambda>b0.
              Ok (Real (of_be32 b3 b2 b1 b0), next)))))))
       else if num = 7 then
         (if vlen < 1 then Err InvalidData
          else
            and_then (dneed w data vpos (unat vlen)) (\<lambda>_.
            and_then (idx data vpos) (\<lambda>_.
            let slen = unat (vlen - 1) in
            and_then (subslice data (uadd w vpos 1) (uadd w (uadd w vpos 1) slen)) (\<lambda>s.
            if \<not> utf8_valid s then Err InvalidData
            else Ok (CharString (to_string64 s), next)))))
       else if num = 9 then
         and_then (decode_unsigned w data vpos vlen) (\<lambda>v. Ok (Enumerated v, next))
       else if num = 12 then
         (if vlen \<noteq> 4 then Err InvalidData
          else
            and_then (decode_unsigned w data vpos 4) (\<lambda>raw.
            and_then (ok_or InvalidData (from_raw raw)) (\<lambda>obj.
              Ok (ObjectIdentifier obj, next))))
       else Ok (Null, next))"

definition decode_context_unsigned ::
  "nat \<Rightarrow> bytes \<Rightarrow> nat \<Rightarrow> u8 \<Rightarrow> (DecodeError, u32 option \<times> nat) result" where
  "decode_context_unsigned w data pos expected =
     (if pos \<ge> length data then Ok (None, pos)
      else
        and_then (decode_tag w data pos) (\<lambda>tag.
        if \<not> context_tag tag \<or> number tag \<noteq> expected then Ok (None, pos)
        else
          let vpos = uadd w pos (header_len tag) in
          and_then (decode_unsigned w data vpos (lvt tag)) (\<lambda>val.
            Ok (Some val, uadd w vpos (unat (lvt tag))))))"

definition decode_context_object_id ::
  "nat \<Rightarrow> bytes \<Rightarrow> nat \<Rightarrow> u8 \<Rightarrow> (DecodeError, ObjectId option \<times> nat) result" where
  "decode_context_object_id w data pos expected =
     (if pos \<ge> length data then Ok (None, pos)
      else
        and_then (decode_tag w data pos) (\<lambda>tag.
        if \<not> context_tag tag \<or> number tag \<noteq> expected \<or> lvt tag \<noteq> 4 then Ok (None, pos)
        else
          let vpos = uadd w pos (header_len tag) in
          and_then (decode_unsigned w data vpos 4) (\<lambda>raw.
          and_then (ok_or InvalidData (from_raw raw)) (\<lambda>obj.
            Ok (Some obj, uadd w vpos 4)))))"

text \<open>The idiom \<open>decode_...(data, &mut pos, n)?.ok_or(DecodeError::InvalidData)?\<close>.\<close>

definition require :: "(DecodeError, 'a option \<times> nat) result \<Rightarrow> (DecodeError, 'a \<times> nat) result" where
  "require r = and_then r (\<lambda>(v, pos). and_then (ok_or InvalidData v) (\<lambda>x. Ok (x, pos)))"

definition expect_opening_tag :: "nat \<Rightarrow> bytes \<Rightarrow> nat \<Rightarrow> u8 \<Rightarrow> (DecodeError, nat) result" where
  "expect_opening_tag w data pos expected =
     and_then (decode_tag w data pos) (\<lambda>tag.
     if \<not> context_tag tag \<or> number tag \<noteq> expected \<or> lvt tag \<noteq> 6 then Err InvalidData
     else Ok (uadd w pos (header_len tag)))"

definition expect_closing_tag :: "nat \<Rightarrow> bytes \<Rightarrow> nat \<Rightarrow> u8 \<Rightarrow> (DecodeError, nat) result" where
  "expect_closing_tag w data pos expected =
     and_then (decode_tag w data pos) (\<lambda>tag.
     if \<not> context_tag tag \<or> number tag \<noteq> expected \<or> lvt tag \<noteq> 7 then Err InvalidData
     else Ok (uadd w pos (header_len tag)))"

definition is_closing_tag :: "bytes \<Rightarrow> nat \<Rightarrow> u8 \<Rightarrow> bool" where
  "is_closing_tag data pos tag_num =
     (if pos \<ge> length data then False
      else
        let b = data ! pos in
        b AND 0x08 \<noteq> 0 \<and> drop_bit 4 b AND 0x0F = tag_num \<and> b AND 0x07 = 7)"

end
