(* ===== verification/Apdu_Wire.thy ===== *)
theory Apdu_Wire
  imports Apdu_Tags
begin

text \<open>
  What the tag encoders put on the wire and what the tag decoders read back: every encoder
  is \<open>emit\<close> of a byte string given here, every decoder inverts it at any position.
\<close>

section \<open>Bits of small words\<close>

lemma small_bit:
  fixes v :: "'a::len word"
  assumes "unat v < 2 ^ k" and "bit v n"
  shows "n < k"
proof -
  have "take_bit k v = v"
    using assms(1) by (simp add: word_unat_eq_iff unsigned_take_bit_eq take_bit_nat_eq_self_iff)
  then have "bit (take_bit k v) n" using assms(2) by simp
  then show ?thesis by (simp add: bit_simps)
qed

lemma and_bit: "(b :: u8) AND 0x80 \<noteq> 0 \<longleftrightarrow> bit b 7" "b AND 0x08 \<noteq> 0 \<longleftrightarrow> bit b 3"
  using bit_iff_and_push_bit_not_eq_0 [of b 7] bit_iff_and_push_bit_not_eq_0 [of b 3] by simp_all

lemma header_fields:
  fixes t c :: u8
  assumes "t < 16" and "c < 16"
  shows "drop_bit 4 (push_bit 4 (t AND 0x0F) OR c) AND 0x0F = t"
    and "(push_bit 4 (t AND 0x0F) OR c) AND 0x08 = c AND 0x08"
    and "(push_bit 4 (t AND 0x0F) OR c) AND 0x07 = c AND 0x07"
proof -
  have m: "(0x0F :: u8) = mask 4" "(0x07 :: u8) = mask 3"
    by (simp_all add: mask_eq_exp_minus_1)
  have tb: "bit t n \<Longrightarrow> n < 4" and cb: "bit c n \<Longrightarrow> n < 4" for n
    using small_bit [of t 4 n] small_bit [of c 4 n] assms by (simp_all add: word_less_nat_alt)
  show "drop_bit 4 (push_bit 4 (t AND 0x0F) OR c) AND 0x0F = t"
    unfolding m by (rule bit_word_eqI) (auto simp: bit_simps dest: tb cb)
  show "(push_bit 4 (t AND 0x0F) OR c) AND 0x07 = c AND 0x07"
    unfolding m by (rule bit_word_eqI) (auto simp: bit_simps dest: tb cb)
  have "bit (8 :: u8) n \<longleftrightarrow> n = 3" for n
  proof -
    have "bit (push_bit 3 (1 :: u8)) n \<longleftrightarrow> n = 3"
      unfolding bit_push_bit_iff by (auto simp: bit_1_iff)
    moreover have "push_bit 3 (1 :: u8) = 8" by simp
    ultimately show ?thesis by metis
  qed
  then have "bit ((push_bit 4 (t AND 0x0F) OR c) AND 0x08) n = bit (c AND 0x08) n" for n
    by (cases "n = 3") (simp_all add: bit_and_iff bit_or_iff bit_push_bit_iff)
  then show "(push_bit 4 (t AND 0x0F) OR c) AND 0x08 = c AND 0x08"
    by (simp add: bit_eq_iff)
qed

section \<open>Minimal big-endian integers\<close>

definition be_min :: "u32 \<Rightarrow> bytes" where
  "be_min v =
     (if v \<le> 0xFF then [ucast v]
      else if v \<le> 0xFFFF then [ucast (drop_bit 8 v), ucast v]
      else if v \<le> 0xFFFFFF then [ucast (drop_bit 16 v), ucast (drop_bit 8 v), ucast v]
      else be32 v)"

lemma be_min_length: "be_min v \<noteq> []" "length (be_min v) \<le> 4"
  by (simp_all add: be_min_def be32_def)

definition shift_in :: "u32 \<Rightarrow> u8 \<Rightarrow> u32" where
  "shift_in v b = push_bit 8 v OR ucast b"

lemma shift_in_step: "shift_in (drop_bit 8 v) (ucast v) = v"
proof (rule bit_word_eqI)
  fix n assume "n < LENGTH(32)"
  then show "bit (shift_in (drop_bit 8 v) (ucast v)) n = bit v n"
    by (cases "n < 8") (auto simp: shift_in_def bit_simps)
qed

lemma shift_in_steps:
  "shift_in (drop_bit 16 v) (ucast (drop_bit 8 v)) = drop_bit 8 v"
  "shift_in (drop_bit 24 v) (ucast (drop_bit 16 v)) = drop_bit 16 v"
  "shift_in 0 (ucast (drop_bit 24 v)) = drop_bit 24 v"
  using shift_in_step [of "drop_bit 8 v"] shift_in_step [of "drop_bit 16 v"]
    shift_in_step [of "drop_bit 24 v"] by simp_all

lemma drop_bit_small:
  "unat (v :: u32) < 2 ^ k \<Longrightarrow> drop_bit k v = 0"
  by (simp only: word_unat_eq_iff unat_drop_bit_eq) (simp add: drop_bit_eq_div)

lemma fold_be_min: "foldl shift_in 0 (be_min v) = v"
proof -
  have "v \<le> 0xFF \<Longrightarrow> drop_bit 8 v = 0" "v \<le> 0xFFFF \<Longrightarrow> drop_bit 16 v = 0"
    "v \<le> 0xFFFFFF \<Longrightarrow> drop_bit 24 v = 0"
    using drop_bit_small [of v 8] drop_bit_small [of v 16] drop_bit_small [of v 24]
    by (simp_all add: word_le_nat_alt)
  then show ?thesis
    using shift_in_step [of v] shift_in_steps [of v] by (auto simp: be_min_def be32_def)
qed

section \<open>Minimal signed integers\<close>

definition be_signed :: "i32 \<Rightarrow> bytes" where
  "be_signed v = drop (fst (signed_len v)) (be32 v)"

lemma be_signed_length: "length (be_signed v) = snd (signed_len v)"
  by (simp add: be_signed_def signed_len_def)

lemma sign_extended:
  fixes v :: i32
  assumes "- (2 ^ k) \<le> sint v" and "sint v < 2 ^ k" and "n < 32"
  shows "bit v n = bit v (min k n)"
proof -
  have sb: "bit (sint v) m = bit v m" if "m < 32" for m
    using that by (cases "m = 31") (simp_all add: bit_simps min_def)
  have "bit (sint v) n = bit (signed_take_bit k (sint v)) n"
    using assms(1,2) by (simp only: signed_take_bit_int_eq_self)
  also have "\<dots> = bit (sint v) (min k n)"
    by (simp add: bit_signed_take_bit_iff)
  finally show ?thesis using sb [of n] sb [of "min k n"] assms(3) by simp
qed

lemma bit_shift_in:
  "n < 32 \<Longrightarrow> bit (shift_in v b) n = (if n < 8 then bit b n else bit v (n - 8))"
  by (auto simp: shift_in_def bit_simps dest: bit_imp_le_length)

lemma shift_in_all: "foldl shift_in s (be32 v) = v"
proof (rule bit_word_eqI)
  fix n assume "n < LENGTH(32)"
  then consider "n < 8" | "8 \<le> n" "n < 16" | "16 \<le> n" "n < 24" | "24 \<le> n" "n < 32" by force
  then show "bit (foldl shift_in s (be32 v)) n = bit v n"
    by cases (simp_all add: be32_def bit_shift_in bit_simps less_diff_conv2)
qed

text \<open>The sign of the first byte fills the missing high bytes.\<close>

definition sign_fill :: "u8 \<Rightarrow> u32" where
  "sign_fill b = (if b AND 0x80 \<noteq> 0 then -1 else 0)"

lemma sign_fill_drop:
  assumes "- (2 ^ (k + 7)) \<le> sint v" and "sint v < 2 ^ (k + 7)" and "k + 8 < 32"
  shows "shift_in (sign_fill (ucast (drop_bit k v))) (ucast (drop_bit k v)) = signed_drop_bit k v"
proof (rule bit_word_eqI)
  fix n assume n: "n < LENGTH(32)"
  have s: "m < 32 \<Longrightarrow> bit v m = bit v (min (k + 7) m)" for m
    by (rule sign_extended) (use assms in simp_all)
  have r: "bit (signed_drop_bit k v) n = bit v (min (k + n) 31)"
  proof -
    have "32 - k \<le> n \<longleftrightarrow> 31 < k + n" using assms(3) by linarith
    then show ?thesis using n by (simp add: bit_signed_drop_bit_iff min_def)
  qed
  show "bit (shift_in (sign_fill (ucast (drop_bit k v))) (ucast (drop_bit k v))) n =
      bit (signed_drop_bit k v) n"
  proof (cases "n < 8")
    case True
    with n assms(3) show ?thesis
      by (simp add: bit_shift_in r bit_ucast_iff bit_drop_bit_eq min_def)
  next
    case False
    have "min (k + 7) (min (k + n) 31) = k + 7"
      using False assms(3) by (simp add: min_def)
    then have "bit v (min (k + n) 31) = bit v (k + 7)"
      using s [of "min (k + n) 31"] by simp
    moreover have "bit (sign_fill (ucast (drop_bit k v))) m = bit v (k + 7)" if "m < 32" for m
      using that assms(3) by (simp add: sign_fill_def and_bit bit_simps)
    ultimately show ?thesis
      using n False by (simp add: bit_shift_in r)
  qed
qed

lemma fold_be_signed: "foldl shift_in (sign_fill (hd (be_signed v))) (be_signed v) = v"
proof -
  consider "sint v \<ge> -128" "sint v \<le> 127"
    | "\<not> (sint v \<ge> -128 \<and> sint v \<le> 127)" "sint v \<ge> -32768" "sint v \<le> 32767"
    | "\<not> (sint v \<ge> -128 \<and> sint v \<le> 127)" "\<not> (sint v \<ge> -32768 \<and> sint v \<le> 32767)" by blast
  then show ?thesis
  proof cases
    case 1
    with sign_fill_drop [of 0 v] show ?thesis
      by (simp add: be_signed_def signed_len_def be32_def)
  next
    case 2
    then have e: "be_signed v = [ucast (drop_bit 8 v), ucast v]"
      by (auto simp: be_signed_def signed_len_def be32_def)
    have s: "m < 32 \<Longrightarrow> bit v m = bit v (min 15 m)" for m
      by (rule sign_extended) (use 2 in simp_all)
    have "shift_in (signed_drop_bit 8 v) (ucast v) = v"
    proof (rule bit_word_eqI)
      fix n assume "n < LENGTH(32)"
      then show "bit (shift_in (signed_drop_bit 8 v) (ucast v)) n = bit v n"
        using s [of n] s [of 31]
        by (cases "n < 8") (auto simp: bit_shift_in bit_simps bit_signed_drop_bit_iff)
    qed
    with 2 sign_fill_drop [of 8 v] show ?thesis by (simp add: e)
  next
    case 3
    then have "be_signed v = be32 v"
      by (auto simp: be_signed_def signed_len_def)
    then show ?thesis by (simp add: shift_in_all)
  qed
qed

section \<open>Wire formats\<close>

definition tagged :: "u8 \<Rightarrow> bytes \<Rightarrow> bytes" where
  "tagged t bs = (t OR of_nat (length bs)) # bs"

definition ctx_tag :: "u8 \<Rightarrow> u8" where
  "ctx_tag tag = push_bit 4 (tag AND 0x0F) OR 0x08"

definition wire_open :: "u8 \<Rightarrow> bytes" where
  "wire_open tag = [push_bit 4 (tag AND 0x0F) OR 0x0E]"

definition wire_close :: "u8 \<Rightarrow> bytes" where
  "wire_close tag = [push_bit 4 (tag AND 0x0F) OR 0x0F]"

definition wire_string :: "bytes \<Rightarrow> bytes" where
  "wire_string s =
     (let slen = length s + 1 in
      (if slen \<le> 4 then [0x70 OR of_nat slen]
       else if slen \<le> 253 then [0x75, of_nat slen]
       else [0x75, 0xFE, of_nat (slen div 256), of_nat slen]) @ 0x00 # s)"

fun wire_value :: "BacnetValue \<Rightarrow> bytes" where
  "wire_value Null = [0x00]"
| "wire_value (Boolean b) = [if b then 0x11 else 0x10]"
| "wire_value (UnsignedInt v) = tagged 0x20 (be_min v)"
| "wire_value (SignedInt v) = tagged 0x30 (be_signed v)"
| "wire_value (Real v) = tagged 0x40 (be32 v)"
| "wire_value (CharString s) = wire_string s"
| "wire_value (Enumerated v) = tagged 0x90 (be_min v)"
| "wire_value (ObjectIdentifier obj) = tagged 0xC0 (be32 (to_raw obj))"

lemma encode_app_unsigned_emit [emit_simps]:
  "encode_app_unsigned v buf pos = emit (tagged 0x20 (be_min v)) buf pos"
  by (auto simp: encode_app_unsigned_def need_def put_eq emit_def tagged_def be_min_def be32_def)

lemma encode_app_enumerated_emit [emit_simps]:
  "encode_app_enumerated v buf pos = emit (tagged 0x90 (be_min v)) buf pos"
  by (auto simp: encode_app_enumerated_def need_def put_eq emit_def tagged_def be_min_def be32_def)

lemma encode_context_unsigned_emit [emit_simps]:
  "encode_context_unsigned tag v buf pos = emit (tagged (ctx_tag tag) (be_min v)) buf pos"
  by (auto simp: encode_context_unsigned_def need_def put_eq emit_def tagged_def be_min_def be32_def ctx_tag_def
      Let_def or.assoc)

lemma encode_app_object_id_emit [emit_simps]:
  "encode_app_object_id obj buf pos = emit (tagged 0xC0 (be32 (to_raw obj))) buf pos"
  by (auto simp: encode_app_object_id_def need_def put_eq emit_def tagged_def be32_def Let_def)

lemma encode_context_object_id_emit [emit_simps]:
  "encode_context_object_id tag obj buf pos = emit (tagged (ctx_tag tag) (be32 (to_raw obj))) buf pos"
  by (auto simp: encode_context_object_id_def need_def put_eq emit_def tagged_def be32_def ctx_tag_def Let_def or.assoc)

lemma encode_opening_tag_emit [emit_simps]:
  "encode_opening_tag tag buf pos = emit (wire_open tag) buf pos"
  by (auto simp: encode_opening_tag_def need_def put_eq emit_def wire_open_def)

lemma encode_closing_tag_emit [emit_simps]:
  "encode_closing_tag tag buf pos = emit (wire_close tag) buf pos"
  by (auto simp: encode_closing_tag_def need_def put_eq emit_def wire_close_def)

text \<open>A header byte, then a subslice copy: the shape of the remaining encoders.\<close>

lemma put_copy:
  "0 < length h \<Longrightarrow> pos + length h + length src \<le> length buf \<Longrightarrow>
   and_then (put buf pos h) (\<lambda>b. and_then (copy_at b (pos + length h) (pos + length h + length src) src)
     (\<lambda>b. k b)) = k (overwrite buf pos (h @ src))"
  by (simp add: put_eq copy_at_eq overwrite_overwrite)

lemma Suc4: "Suc (Suc (Suc (Suc n))) = n + 4"
  by simp

lemma put_put_copy:
  "h \<noteq> [] \<Longrightarrow> pos + length h + 1 + length s \<le> length buf \<Longrightarrow>
   and_then (put buf pos h) (\<lambda>b. and_then (put b (pos + length h) [c]) (\<lambda>b.
     and_then (copy_at b (pos + length h + 1) (pos + length h + 1 + length s) s) (\<lambda>b. k b)))
   = k (overwrite buf pos (h @ c # s))"
  using overwrite_overwrite [of pos h "[c]" buf] overwrite_overwrite [of pos "h @ [c]" s buf]
  by (simp add: put_eq copy_at_eq)

lemma encode_app_value_emit [emit_simps]:
  "encode_app_value v buf pos = emit (wire_value v) buf pos"
proof (cases v)
  case (SignedInt i)
  have l: "length (be_signed i) = snd (signed_len i)" "subslice (be32 i) (fst (signed_len i))
      (fst (signed_len i) + snd (signed_len i)) = (Ok (be_signed i) :: (EncodeError, bytes) result)"
    by (auto simp: be_signed_length be_signed_def signed_len_def subslice_def)
  show ?thesis
    using put_copy [of "[0x30 OR of_nat (snd (signed_len i))]" pos "be_signed i" buf] l
    by (auto simp: SignedInt need_def emit_def tagged_def case_prod_unfold Let_def)
next
  case (Real r)
  show ?thesis
    using put_copy [of "[0x44]" pos "be32 r" buf]
    by (auto simp: Real need_def emit_def tagged_def add.commute)
next
  case (CharString s)
  let ?n = "length s + 1"
  define h :: bytes where "h = (if ?n \<le> 4 then [0x70 OR of_nat ?n]
       else if ?n \<le> 253 then [0x75, of_nat ?n] else [0x75, 0xFE, of_nat (?n div 256), of_nat ?n])"
  have "encode_app_value v buf pos =
      and_then (need buf pos (length h + ?n)) (\<lambda>_. and_then (put buf pos h) (\<lambda>b.
        and_then (put b (pos + length h) [0]) (\<lambda>b.
        and_then (copy_at b (pos + length h + 1) (pos + length h + 1 + length s) s) (\<lambda>b.
          Ok (b, pos + length h + 1 + length s)))))"
    by (simp add: CharString h_def Let_def and_then_assoc Suc4)
  also have "\<dots> = emit (h @ 0 # s) buf pos"
    using put_put_copy [of h pos s buf 0] by (auto simp: need_def emit_def h_def)
  finally show ?thesis
    by (simp add: CharString wire_string_def h_def Let_def)
qed (auto simp: emit_simps need_def put_eq emit_def)

end
