(* ===== verification/Apdu_Read.thy ===== *)
theory Apdu_Read
  imports Apdu_Wire
begin

text \<open>
  The tag decoders read back what the tag encoders write, at any position of any input that
  fits into the address space; the codec interface is instantiated for application values,
  context-tagged unsigned integers and context-tagged object identifiers.
\<close>

named_theorems read_simps "decoders at encoded bytes"

lemma dneed_Ok: "length data < 2 ^ w \<Longrightarrow> pos + n \<le> length data \<Longrightarrow> dneed w data pos n = Ok ()"
  by (simp add: dneed_def)

section \<open>Tags\<close>

lemma decode_tag_at:
  assumes "length data < 2 ^ w" and "at data pos (h # bs)"
    and "drop_bit 4 h AND 0x0F \<noteq> 0x0F" and "h AND 0x07 \<noteq> 5"
  shows "decode_tag w data pos =
    Ok \<lparr>number = drop_bit 4 h AND 0x0F, context_tag = (h AND 0x08 \<noteq> 0),
        lvt = ucast (h AND 0x07), header_len = 1\<rparr>"
proof -
  have "pos < length data" "data ! pos = h"
    using assms(2) by (simp_all add: at_Cons)
  with assms show ?thesis
    by (simp add: decode_tag_def dneed_Ok idx_def Let_def)
qed

lemma ctx_header:
  fixes t c :: u8
  assumes "t < 15" and "c < 8"
  shows "drop_bit 4 (ctx_tag t OR c) AND 0x0F = t" "(ctx_tag t OR c) AND 0x08 \<noteq> 0"
    "(ctx_tag t OR c) AND 0x07 = c"
proof -
  have "unat c < 8" using assms(2) by (simp add: word_less_nat_alt)
  moreover have "c = of_nat (unat c)" by simp
  ultimately obtain n where "c = of_nat n" "n < 8" by blast
  then have "c = 0 \<or> c = 1 \<or> c = 2 \<or> c = 3 \<or> c = 4 \<or> c = 5 \<or> c = 6 \<or> c = 7"
    by (auto simp: less_Suc_eq numeral_eq_Suc)
  then have c: "8 OR c < 16" "(8 OR c) AND 8 = 8" "(8 OR c) AND 7 = c" by auto
  have t: "t < 16" using assms(1) by (simp add: word_less_nat_alt)
  note h = header_fields [OF t c(1), folded or.assoc, folded ctx_tag_def]
  show "drop_bit 4 (ctx_tag t OR c) AND 0x0F = t" "(ctx_tag t OR c) AND 0x08 \<noteq> 0"
    "(ctx_tag t OR c) AND 0x07 = c"
    using h c by simp_all
qed

lemma small_length: "length bs \<le> 4 \<Longrightarrow> of_nat (length bs) \<in> {0, 1, 2, 3, 4 :: 'a::semiring_1}"
proof -
  assume "length bs \<le> 4"
  then have "length bs = 0 \<or> length bs = 1 \<or> length bs = 2 \<or> length bs = 3 \<or> length bs = 4" by arith
  then show ?thesis by (elim disjE) simp_all
qed

lemma ucast_small_length:
  "length bs \<le> 4 \<Longrightarrow> ucast (of_nat (length bs) :: u8) = (of_nat (length bs) :: u32)"
proof -
  assume "length bs \<le> 4"
  then have "length bs = 0 \<or> length bs = 1 \<or> length bs = 2 \<or> length bs = 3 \<or> length bs = 4" by arith
  then show ?thesis by (elim disjE) simp_all
qed

lemma decode_ctx_tagged:
  assumes "length data < 2 ^ w" and "at data pos (tagged (ctx_tag t) bs)" and "t < 15" and "length bs \<le> 4"
  shows "decode_tag w data pos =
    Ok \<lparr>number = t, context_tag = True, lvt = of_nat (length bs), header_len = 1\<rparr>"
proof -
  have c: "of_nat (length bs) < (8 :: u8)" "of_nat (length bs) \<noteq> (5 :: u8)"
    using small_length [OF assms(4), where 'a = u8] by auto
  note h = ctx_header [OF assms(3) c(1)]
  have "t \<noteq> 15" using assms(3) by auto
  with decode_tag_at [OF assms(1) assms(2) [unfolded tagged_def]] h c assms(4) show ?thesis
    by (simp add: ucast_small_length)
qed

lemma decode_ctx_bracket:
  assumes "length data < 2 ^ w" and "t < 15"
  shows "at data pos (wire_open t) \<Longrightarrow>
      decode_tag w data pos = Ok \<lparr>number = t, context_tag = True, lvt = 6, header_len = 1\<rparr>"
    and "at data pos (wire_close t) \<Longrightarrow>
      decode_tag w data pos = Ok \<lparr>number = t, context_tag = True, lvt = 7, header_len = 1\<rparr>"
proof -
  have o: "wire_open t = [ctx_tag t OR 6]" "wire_close t = [ctx_tag t OR 7]"
    by (simp_all add: wire_open_def wire_close_def ctx_tag_def or.assoc)
  have t: "t \<noteq> 15" using assms(2) by auto
  note h = ctx_header [OF assms(2), of 6, simplified] ctx_header [OF assms(2), of 7, simplified]
  show "at data pos (wire_open t) \<Longrightarrow>
      decode_tag w data pos = Ok \<lparr>number = t, context_tag = True, lvt = 6, header_len = 1\<rparr>"
    using decode_tag_at [OF assms(1), of pos "ctx_tag t OR 6" "[]"] h t by (simp add: o)
  show "at data pos (wire_close t) \<Longrightarrow>
      decode_tag w data pos = Ok \<lparr>number = t, context_tag = True, lvt = 7, header_len = 1\<rparr>"
    using decode_tag_at [OF assms(1), of pos "ctx_tag t OR 7" "[]"] h t by (simp add: o)
qed

lemma expect_at [read_simps]:
  assumes "length data < 2 ^ w" and "t < 15"
  shows "at data pos (wire_open t) \<Longrightarrow> expect_opening_tag w data pos t = Ok (pos + 1)"
    and "at data pos (wire_close t) \<Longrightarrow> expect_closing_tag w data pos t = Ok (pos + 1)"
  using decode_ctx_bracket [OF assms, of pos] at_length [of data pos "wire_open t"]
    at_length [of data pos "wire_close t"] assms(1)
  by (simp_all add: expect_opening_tag_def expect_closing_tag_def wire_open_def wire_close_def)

section \<open>Integers\<close>

lemma shift_loop_at:
  "length data < 2 ^ w \<Longrightarrow> at data (pos + i) bs \<Longrightarrow>
   shift_loop w data pos i (i + length bs) v = Ok (foldl shift_in v bs)"
proof (induction bs arbitrary: i v)
  case Nil
  then show ?case by (simp add: shift_loop.simps)
next
  case (Cons b bs)
  then have "pos + i < length data" "data ! (pos + i) = b" "at data (pos + Suc i) bs"
    by (simp_all add: at_Cons)
  with Cons.IH [of "Suc i"] Cons.prems show ?case
    by (simp add: shift_loop.simps [of _ _ _ i] idx_def shift_in_def)
qed

lemma decode_unsigned_at:
  assumes "length data < 2 ^ w" and "at data pos bs" and "unat len = length bs"
  shows "decode_unsigned w data pos len = Ok (foldl shift_in 0 bs)"
  using shift_loop_at [OF assms(1), of pos 0 bs 0] assms at_length [OF assms(2)]
  by (simp add: decode_unsigned_def dneed_Ok)

lemma decode_signed_at:
  assumes "length data < 2 ^ w" and "at data pos bs" and "unat len = length bs" and "bs \<noteq> []"
  shows "decode_signed w data pos len = Ok (foldl shift_in (sign_fill (hd bs)) bs)"
proof -
  obtain b cs where "bs = b # cs" using assms(4) by (cases bs) auto
  with shift_loop_at [OF assms(1), of pos 0 bs "sign_fill b"] assms at_length [OF assms(2)]
  show ?thesis
    by (simp add: decode_signed_def dneed_Ok at_Cons idx_def sign_fill_def Let_def)
qed

lemma unat_small_length [simp]: "length bs \<le> 4 \<Longrightarrow> unat (of_nat (length bs) :: u32) = length bs"
  by (simp add: unat_of_nat)

lemma tagged_at:
  "at data pos (tagged t bs) \<Longrightarrow> at data (Suc pos) bs \<and> pos + length bs < length data"
  using at_length [of data pos "tagged t bs"] by (simp add: tagged_def at_Cons)

lemma decode_context_unsigned_at [read_simps]:
  assumes "length data < 2 ^ w" and "at data pos (tagged (ctx_tag t) (be_min v))" and "t < 15"
  shows "decode_context_unsigned w data pos t = Ok (Some v, pos + length (tagged (ctx_tag t) (be_min v)))"
  using tagged_at [OF assms(2)] decode_ctx_tagged [OF assms be_min_length(2)] assms(1)
    decode_unsigned_at [OF assms(1), of "Suc pos" "be_min v" "of_nat (length (be_min v))"]
  by (simp add: decode_context_unsigned_def be_min_length fold_be_min tagged_def)

lemma fold_be32 [simp]: "foldl shift_in 0 (be32 v) = v"
  by (rule shift_in_all)

lemma decode_context_object_id_at [read_simps]:
  assumes "length data < 2 ^ w" and "at data pos (tagged (ctx_tag t) (be32 (to_raw obj)))"
    and "t < 15" and "encodable_id obj"
  shows "decode_context_object_id w data pos t =
    Ok (Some obj, pos + length (tagged (ctx_tag t) (be32 (to_raw obj))))"
  using tagged_at [OF assms(2)] decode_ctx_tagged [OF assms(1-3)] assms(1,4)
    decode_unsigned_at [OF assms(1), of "Suc pos" "be32 (to_raw obj)" 4]
  by (simp add: decode_context_object_id_def tagged_def)

text \<open>An optional field is absent: the next tag has another number, or the data ends.\<close>

lemma decode_context_unsigned_end [read_simps]:
  "length data \<le> pos \<Longrightarrow> decode_context_unsigned w data pos t = Ok (None, pos)"
  by (simp add: decode_context_unsigned_def)

lemma decode_context_unsigned_other:
  assumes "length data < 2 ^ w" and "at data pos (wire_open u) \<or> at data pos (wire_close u)
      \<or> at data pos (tagged (ctx_tag u) bs)"
    and "u < 15" and "u \<noteq> t" and "length bs \<le> 4"
  shows "decode_context_unsigned w data pos t = Ok (None, pos)"
  using decode_ctx_bracket [OF assms(1,3), of pos] decode_ctx_tagged [OF assms(1), of pos u bs] assms
  by (auto simp: decode_context_unsigned_def)

section \<open>Application values\<close>

definition good_value :: "BacnetValue \<Rightarrow> bool" where
  "good_value v = (case v of CharString s \<Rightarrow> utf8_valid s \<and> length s \<le> 64
     | ObjectIdentifier obj \<Rightarrow> encodable_id obj | _ \<Rightarrow> True)"

lemma to_string64_id: "length s \<le> 64 \<Longrightarrow> to_string64 s = s"
  by (simp add: to_string64_def push_str_def)

lemma app_tagged:
  assumes "length data < 2 ^ w" and "at data pos (tagged t bs)" and "bs \<noteq> []" "length bs \<le> 4"
    and "t \<in> {0x20, 0x30, 0x40, 0x90, 0xC0}"
  shows "decode_tag w data pos =
    Ok \<lparr>number = drop_bit 4 t, context_tag = False, lvt = of_nat (length bs), header_len = 1\<rparr>"
proof -
  have l: "length bs = 1 \<or> length bs = 2 \<or> length bs = 3 \<or> length bs = 4"
    using assms(3,4) by (cases bs) (auto simp: le_Suc_eq numeral_eq_Suc)
  from decode_tag_at [OF assms(1) assms(2) [unfolded tagged_def]] l assms(5) show ?thesis
    by (elim disjE insertE emptyE) simp_all
qed

lemma string_header:
  assumes "length data < 2 ^ w" and "at data pos (wire_string s)" and "length s \<le> 64"
  shows "\<exists>hl. decode_tag w data pos =
      Ok \<lparr>number = 7, context_tag = False, lvt = of_nat (length s + 1), header_len = hl\<rparr>
    \<and> at data (pos + hl) (0 # s) \<and> length (wire_string s) = hl + 1 + length s"
proof (cases "length s \<le> 3")
  case True
  then have l: "length s = 0 \<or> length s = 1 \<or> length s = 2 \<or> length s = 3" by arith
  have e: "wire_string s = (0x70 OR of_nat (length s + 1)) # 0 # s"
    using True by (simp add: wire_string_def)
  from decode_tag_at [OF assms(1) assms(2) [unfolded e]] l assms(2)
  show ?thesis
    by (intro exI [of _ 1]) (elim disjE, auto simp: e at_Cons wire_string_def)
next
  case False
  have u: "unat (of_nat (length s + 1) :: u8) = length s + 1"
    using assms(3) by (simp add: unat_of_nat del: of_nat_add of_nat_Suc)
  have e: "wire_string s = 0x75 # of_nat (length s + 1) # 0 # s"
    using False assms(3) by (simp add: wire_string_def)
  have lt: "of_nat (length s + 1) < (254 :: u8)"
    using u assms(3) by (simp add: word_less_nat_alt del: of_nat_add of_nat_Suc)
  have c: "ucast (of_nat (length s + 1) :: u8) = (of_nat (length s + 1) :: u32)"
    using u assms(3) by (simp add: word_unat_eq_iff unat_of_nat unsigned_ucast_eq take_bit_nat_eq_self_iff del: of_nat_add of_nat_Suc)
  have a: "Suc pos < length data" "data ! pos = 0x75" "data ! Suc pos = of_nat (length s + 1)"
    "at data (pos + 2) (0 # s)"
    using assms(2) by (auto simp: e at_Cons)
  have "decode_tag w data pos =
      Ok \<lparr>number = 7, context_tag = False, lvt = of_nat (length s + 1), header_len = 2\<rparr>"
    using a assms(1) lt c by (simp add: decode_tag_def dneed_Ok idx_def Let_def del: of_nat_add of_nat_Suc)
  with a(4) show ?thesis by (intro exI [of _ 2]) (simp add: e)
qed

lemma decode_app_value_at [read_simps]:
  assumes "length data < 2 ^ w" and "good_value v" and "at data pos (wire_value v)"
  shows "decode_app_value w data pos = Ok (v, pos + length (wire_value v))"
proof (cases v)
  case Null
  with assms decode_tag_at [OF assms(1), of pos 0 "[]"] show ?thesis
    by (simp add: decode_app_value_def at_Cons Let_def)
next
  case (Boolean b)
  with assms decode_tag_at [OF assms(1), of pos "if b then 0x11 else 0x10" "[]"] show ?thesis
    by (cases b) (simp_all add: decode_app_value_def at_Cons Let_def)
next
  case (UnsignedInt i)
  with assms have a: "at data pos (tagged 0x20 (be_min i))" by simp
  from app_tagged [OF assms(1) a] tagged_at [OF a] assms(1)
    decode_unsigned_at [OF assms(1), of "Suc pos" "be_min i" "of_nat (length (be_min i))"]
  show ?thesis
    by (simp add: UnsignedInt decode_app_value_def be_min_length fold_be_min Let_def tagged_def)
next
  case (SignedInt i)
  with assms have a: "at data pos (tagged 0x30 (be_signed i))" by simp
  have l: "length (be_signed i) \<le> 4" "be_signed i \<noteq> []"
    by (auto simp: be_signed_length signed_len_def simp flip: length_greater_0_conv)
  from app_tagged [OF assms(1) a] tagged_at [OF a] assms(1) l
    decode_signed_at [OF assms(1), of "Suc pos" "be_signed i" "of_nat (length (be_signed i))"]
  show ?thesis
    by (simp add: SignedInt decode_app_value_def fold_be_signed Let_def tagged_def)
next
  case (Real r)
  with assms have a: "at data pos (tagged 0x40 (be32 r))" by simp
  from app_tagged [OF assms(1) a] tagged_at [OF a] assms(1)
  show ?thesis
    by (simp add: Real decode_app_value_def Let_def tagged_def dneed_Ok be32_def at_Cons idx_def
        Suc4 add.commute)
next
  case (CharString s)
  with assms have s: "at data pos (wire_string s)" "length s \<le> 64" "utf8_valid s"
    by (simp_all add: good_value_def)
  from string_header [OF assms(1) s(1,2)] obtain hl where
    t: "decode_tag w data pos =
      Ok \<lparr>number = 7, context_tag = False, lvt = of_nat (length s + 1), header_len = hl\<rparr>"
    and a: "at data (pos + hl) (0 # s)" and l: "length (wire_string s) = hl + 1 + length s" by blast
  have u: "unat (of_nat (length s + 1) :: u32) = length s + 1"
    and v: "unat (of_nat (length s + 1) - 1 :: u32) = length s"
    and g: "\<not> of_nat (length s + 1) < (1 :: u32)"
    using s(2) by (simp_all add: unat_of_nat word_less_nat_alt unat_word_ariths)
  have len: "pos + hl + length s < length data" using at_length [OF a] by simp
  have sl: "subslice data (Suc (pos + hl)) (Suc (pos + hl + length s)) = (Ok s :: (DecodeError, bytes) result)"
    using a by (intro at_slice) (simp_all add: at_Cons)
  show ?thesis
    using t u v g len sl a s assms(1)
    by (simp add: CharString decode_app_value_def Let_def dneed_Ok at_Cons idx_def to_string64_id l
        add.assoc)
next
  case (Enumerated i)
  with assms have a: "at data pos (tagged 0x90 (be_min i))" by simp
  from app_tagged [OF assms(1) a] tagged_at [OF a] assms(1)
    decode_unsigned_at [OF assms(1), of "Suc pos" "be_min i" "of_nat (length (be_min i))"]
  show ?thesis
    by (simp add: Enumerated decode_app_value_def be_min_length fold_be_min Let_def tagged_def)
next
  case (ObjectIdentifier obj)
  with assms have a: "at data pos (tagged 0xC0 (be32 (to_raw obj)))" and e: "encodable_id obj"
    by (simp_all add: good_value_def)
  from app_tagged [OF assms(1) a] tagged_at [OF a] assms(1) e
    decode_unsigned_at [OF assms(1), of "Suc pos" "be32 (to_raw obj)" 4]
  show ?thesis
    by (simp add: ObjectIdentifier decode_app_value_def Let_def tagged_def)
qed

section \<open>The codec interface\<close>

interpretation app_value: codec encode_app_value wire_value good_value "decode_app_value w" w
  for w
  by unfold_locales (simp_all add: emit_simps read_simps)

interpretation ctx_unsigned: codec "encode_context_unsigned t" "\<lambda>v. tagged (ctx_tag t) (be_min v)"
    "\<lambda>_. t < 15" "\<lambda>data pos. require (decode_context_unsigned w data pos t)" w
  for t w
  by unfold_locales (simp_all add: emit_simps read_simps require_def)

interpretation ctx_object_id: codec "encode_context_object_id t"
    "\<lambda>obj. tagged (ctx_tag t) (be32 (to_raw obj))" "\<lambda>obj. t < 15 \<and> encodable_id obj"
    "\<lambda>data pos. require (decode_context_object_id w data pos t)" w
  for t w
  by unfold_locales (simp_all add: emit_simps read_simps require_def)

end
