(* ===== verification/Apdu.thy ===== *)
theory Apdu
  imports Apdu_Read
begin

text \<open>
  The APDU services of \<open>bridge-core/src/apdu.rs\<close>: request and response structures, one
  encoder per service, and \<open>decode_apdu\<close> with its service decoders.

  Structures that share a field name in the code carry a prefix here (\<open>rp_\<close>, \<open>ack_\<close>, \<open>wp_\<close>,
  \<open>cov_\<close>, \<open>sub_\<close>). An encoder returns the buffer with the length. The list of values of a COV
  notification is read by a loop that need not end on a 32-bit target, so it is a
  \<^theory_text>\<open>partial_function\<close> and the decoders return an option: \<open>None\<close> is "never returns".
\<close>

section \<open>Constants and structures\<close>

definition PDU_UNCONFIRMED_REQUEST :: u8 where "PDU_UNCONFIRMED_REQUEST = 0x10"
definition PDU_CONFIRMED_REQUEST :: u8 where "PDU_CONFIRMED_REQUEST = 0x00"
definition PDU_SIMPLE_ACK :: u8 where "PDU_SIMPLE_ACK = 0x20"
definition PDU_COMPLEX_ACK :: u8 where "PDU_COMPLEX_ACK = 0x30"
definition PDU_ERROR :: u8 where "PDU_ERROR = 0x50"
definition SERVICE_WHO_IS :: u8 where "SERVICE_WHO_IS = 0x08"
definition SERVICE_I_AM :: u8 where "SERVICE_I_AM = 0x00"
definition SERVICE_UCOV_NOTIFICATION :: u8 where "SERVICE_UCOV_NOTIFICATION = 0x02"
definition SERVICE_SUBSCRIBE_COV :: u8 where "SERVICE_SUBSCRIBE_COV = 0x05"
definition SERVICE_READ_PROPERTY :: u8 where "SERVICE_READ_PROPERTY = 0x0C"
definition SERVICE_WRITE_PROPERTY :: u8 where "SERVICE_WRITE_PROPERTY = 0x0F"

lemmas apdu_consts = PDU_UNCONFIRMED_REQUEST_def PDU_CONFIRMED_REQUEST_def PDU_SIMPLE_ACK_def
  PDU_COMPLEX_ACK_def PDU_ERROR_def SERVICE_WHO_IS_def SERVICE_I_AM_def
  SERVICE_UCOV_NOTIFICATION_def SERVICE_SUBSCRIBE_COV_def SERVICE_READ_PROPERTY_def
  SERVICE_WRITE_PROPERTY_def

record WhoIsRequest =
  low_limit :: "u32 option"
  high_limit :: "u32 option"

record IAmData =
  device_id :: ObjectId
  max_apdu :: u32
  segmentation :: u8
  vendor_id :: u16

record ReadPropertyRequest =
  rp_object_id :: ObjectId
  rp_property_id :: PropertyId
  rp_array_index :: "u32 option"

record ReadPropertyAck =
  ack_object_id :: ObjectId
  ack_property_id :: PropertyId
  ack_array_index :: "u32 option"
  ack_value :: BacnetValue

record WritePropertyRequest =
  wp_object_id :: ObjectId
  wp_property_id :: PropertyId
  wp_array_index :: "u32 option"
  wp_value :: BacnetValue
  wp_priority :: "u8 option"

record SubscribeCovRequest =
  sub_process_id :: u32
  sub_monitored_object :: ObjectId
  sub_issue_confirmed :: bool
  sub_lifetime :: "u32 option"

record CovNotification =
  cov_process_id :: u32
  cov_initiating_device :: ObjectId
  cov_monitored_object :: ObjectId
  cov_time_remaining :: u32
  cov_values :: "(PropertyId \<times> BacnetValue) list"

datatype DecodedApdu =
    WhoIs WhoIsRequest
  | IAm IAmData
  | ReadProperty ReadPropertyRequest u8
  | ReadPropertyAck ReadPropertyAck u8
  | WriteProperty WritePropertyRequest u8
  | SubscribeCov SubscribeCovRequest u8
  | UnconfirmedCovNotification CovNotification
  | SimpleAck u8 u8
  | Error u8 u8 u16 u16
  | Unknown u8 u8

section \<open>Encoders\<close>

type_synonym apdu_writer = "bytes \<Rightarrow> (EncodeError, bytes \<times> nat) result"

definition encode_optional :: "u8 \<Rightarrow> u32 option \<Rightarrow> writer" where
  "encode_optional tag v buf pos =
     (case v of None \<Rightarrow> Ok (buf, pos) | Some x \<Rightarrow> encode_context_unsigned tag x buf pos)"

definition encode_who_is :: "u32 option \<Rightarrow> u32 option \<Rightarrow> apdu_writer" where
  "encode_who_is low high buf =
     and_then (need buf 0 2) (\<lambda>_.
     and_then (put buf 0 [PDU_UNCONFIRMED_REQUEST, SERVICE_WHO_IS]) (\<lambda>buf.
     case (low, high) of
       (Some lo, Some hi) \<Rightarrow>
         and_then (encode_context_unsigned 0 lo buf 2) (\<lambda>(buf, pos).
         and_then (encode_context_unsigned 1 hi buf pos) (\<lambda>(buf, pos). Ok (buf, pos)))
     | _ \<Rightarrow> Ok (buf, 2)))"

definition encode_i_am :: "IAmData \<Rightarrow> apdu_writer" where
  "encode_i_am iam buf =
     and_then (need buf 0 2) (\<lambda>_.
     and_then (put buf 0 [PDU_UNCONFIRMED_REQUEST, SERVICE_I_AM]) (\<lambda>buf.
     and_then (encode_app_object_id (device_id iam) buf 2) (\<lambda>(buf, pos).
     and_then (encode_app_unsigned (max_apdu iam) buf pos) (\<lambda>(buf, pos).
     and_then (encode_app_enumerated (ucast (segmentation iam)) buf pos) (\<lambda>(buf, pos).
     and_then (encode_app_unsigned (ucast (vendor_id iam)) buf pos) (\<lambda>(buf, pos).
       Ok (buf, pos)))))))"

definition encode_read_property :: "ReadPropertyRequest \<Rightarrow> u8 \<Rightarrow> apdu_writer" where
  "encode_read_property req invoke_id buf =
     and_then (need buf 0 4) (\<lambda>_.
     and_then (put buf 0 [PDU_CONFIRMED_REQUEST, 0x05, invoke_id, SERVICE_READ_PROPERTY]) (\<lambda>buf.
     and_then (encode_context_object_id 0 (rp_object_id req) buf 4) (\<lambda>(buf, pos).
     and_then (encode_context_unsigned 1 (property_code (rp_property_id req)) buf pos) (\<lambda>(buf, pos).
     and_then (encode_optional 2 (rp_array_index req) buf pos) (\<lambda>(buf, pos).
       Ok (buf, pos))))))"

definition encode_read_property_ack :: "ReadPropertyAck \<Rightarrow> u8 \<Rightarrow> apdu_writer" where
  "encode_read_property_ack ack invoke_id buf =
     and_then (need buf 0 3) (\<lambda>_.
     and_then (put buf 0 [PDU_COMPLEX_ACK, invoke_id, SERVICE_READ_PROPERTY]) (\<lambda>buf.
     and_then (encode_context_object_id 0 (ack_object_id ack) buf 3) (\<lambda>(buf, pos).
     and_then (encode_context_unsigned 1 (property_code (ack_property_id ack)) buf pos) (\<lambda>(buf, pos).
     and_then (encode_optional 2 (ack_array_index ack) buf pos) (\<lambda>(buf, pos).
     and_then (encode_opening_tag 3 buf pos) (\<lambda>(buf, pos).
     and_then (encode_app_value (ack_value ack) buf pos) (\<lambda>(buf, pos).
     and_then (encode_closing_tag 3 buf pos) (\<lambda>(buf, pos).
       Ok (buf, pos)))))))))"

definition encode_write_property :: "WritePropertyRequest \<Rightarrow> u8 \<Rightarrow> apdu_writer" where
  "encode_write_property req invoke_id buf =
     and_then (need buf 0 4) (\<lambda>_.
     and_then (put buf 0 [PDU_CONFIRMED_REQUEST, 0x05, invoke_id, SERVICE_WRITE_PROPERTY]) (\<lambda>buf.
     and_then (encode_context_object_id 0 (wp_object_id req) buf 4) (\<lambda>(buf, pos).
     and_then (encode_context_unsigned 1 (property_code (wp_property_id req)) buf pos) (\<lambda>(buf, pos).
     and_then (encode_optional 2 (wp_array_index req) buf pos) (\<lambda>(buf, pos).
     and_then (encode_opening_tag 3 buf pos) (\<lambda>(buf, pos).
     and_then (encode_app_value (wp_value req) buf pos) (\<lambda>(buf, pos).
     and_then (encode_closing_tag 3 buf pos) (\<lambda>(buf, pos).
     and_then (encode_optional 4 (map_option ucast (wp_priority req)) buf pos) (\<lambda>(buf, pos).
       Ok (buf, pos))))))))))"

definition encode_simple_ack :: "u8 \<Rightarrow> u8 \<Rightarrow> apdu_writer" where
  "encode_simple_ack invoke_id service buf =
     and_then (need buf 0 3) (\<lambda>_.
     and_then (put buf 0 [PDU_SIMPLE_ACK, invoke_id, service]) (\<lambda>buf. Ok (buf, 3)))"

definition encode_error :: "u8 \<Rightarrow> u8 \<Rightarrow> u16 \<Rightarrow> u16 \<Rightarrow> apdu_writer" where
  "encode_error invoke_id service error_class error_code buf =
     and_then (need buf 0 3) (\<lambda>_.
     and_then (put buf 0 [PDU_ERROR, invoke_id, service]) (\<lambda>buf.
     and_then (encode_app_enumerated (ucast error_class) buf 3) (\<lambda>(buf, pos).
     and_then (encode_app_enumerated (ucast error_code) buf pos) (\<lambda>(buf, pos). Ok (buf, pos)))))"

definition encode_subscribe_cov :: "SubscribeCovRequest \<Rightarrow> u8 \<Rightarrow> apdu_writer" where
  "encode_subscribe_cov req invoke_id buf =
     and_then (need buf 0 4) (\<lambda>_.
     and_then (put buf 0 [PDU_CONFIRMED_REQUEST, 0x05, invoke_id, SERVICE_SUBSCRIBE_COV]) (\<lambda>buf.
     and_then (encode_context_unsigned 0 (sub_process_id req) buf 4) (\<lambda>(buf, pos).
     and_then (encode_context_object_id 1 (sub_monitored_object req) buf pos) (\<lambda>(buf, pos).
     and_then (encode_context_unsigned 2 (if sub_issue_confirmed req then 1 else 0) buf pos) (\<lambda>(buf, pos).
     and_then (encode_optional 3 (sub_lifetime req) buf pos) (\<lambda>(buf, pos).
       Ok (buf, pos)))))))"

fun encode_cov_values :: "(PropertyId \<times> BacnetValue) list \<Rightarrow> writer" where
  "encode_cov_values [] buf pos = Ok (buf, pos)"
| "encode_cov_values ((prop, val) # rest) buf pos =
     and_then (encode_context_unsigned 0 (property_code prop) buf pos) (\<lambda>(buf, pos).
     and_then (encode_opening_tag 2 buf pos) (\<lambda>(buf, pos).
     and_then (encode_app_value val buf pos) (\<lambda>(buf, pos).
     and_then (encode_closing_tag 2 buf pos) (\<lambda>(buf, pos).
       encode_cov_values rest buf pos))))"

definition encode_ucov_notification :: "CovNotification \<Rightarrow> apdu_writer" where
  "encode_ucov_notification notif buf =
     and_then (need buf 0 2) (\<lambda>_.
     and_then (put buf 0 [PDU_UNCONFIRMED_REQUEST, SERVICE_UCOV_NOTIFICATION]) (\<lambda>buf.
     and_then (encode_context_unsigned 0 (cov_process_id notif) buf 2) (\<lambda>(buf, pos).
     and_then (encode_context_object_id 1 (cov_initiating_device notif) buf pos) (\<lambda>(buf, pos).
     and_then (encode_context_object_id 2 (cov_monitored_object notif) buf pos) (\<lambda>(buf, pos).
     and_then (encode_context_unsigned 3 (cov_time_remaining notif) buf pos) (\<lambda>(buf, pos).
     and_then (encode_opening_tag 4 buf pos) (\<lambda>(buf, pos).
     and_then (encode_cov_values (cov_values notif) buf pos) (\<lambda>(buf, pos).
     and_then (encode_closing_tag 4 buf pos) (\<lambda>(buf, pos).
       Ok (buf, pos))))))))))"

section \<open>Decoders\<close>

type_synonym apdu_result = "(DecodeError, DecodedApdu) result"

definition decode_who_is :: "nat \<Rightarrow> bytes \<Rightarrow> apdu_result" where
  "decode_who_is w data =
     (if data = [] then Ok (WhoIs \<lparr>low_limit = None, high_limit = None\<rparr>)
      else
        and_then (decode_context_unsigned w data 0 0) (\<lambda>(low, pos).
        and_then (decode_context_unsigned w data pos 1) (\<lambda>(high, pos).
          Ok (WhoIs \<lparr>low_limit = low, high_limit = high\<rparr>))))"

definition decode_i_am :: "nat \<Rightarrow> bytes \<Rightarrow> apdu_result" where
  "decode_i_am w data =
     and_then (decode_app_value w data 0) (\<lambda>(v, pos).
     and_then (case v of ObjectIdentifier oid \<Rightarrow> Ok oid | _ \<Rightarrow> Err InvalidData) (\<lambda>dev.
     and_then (decode_app_value w data pos) (\<lambda>(v, pos).
     and_then (case v of UnsignedInt n \<Rightarrow> Ok n | _ \<Rightarrow> Err InvalidData) (\<lambda>maxa.
     and_then (decode_app_value w data pos) (\<lambda>(v, pos).
     and_then (case v of Enumerated n \<Rightarrow> Ok (ucast n) | _ \<Rightarrow> Err InvalidData) (\<lambda>seg.
     and_then (decode_app_value w data pos) (\<lambda>(v, pos).
     and_then (case v of UnsignedInt n \<Rightarrow> Ok (ucast n) | _ \<Rightarrow> Err InvalidData) (\<lambda>vendor.
       Ok (IAm \<lparr>device_id = dev, max_apdu = maxa, segmentation = seg, vendor_id = vendor\<rparr>)))))))))"

definition decode_read_property :: "nat \<Rightarrow> bytes \<Rightarrow> u8 \<Rightarrow> apdu_result" where
  "decode_read_property w data invoke_id =
     and_then (require (decode_context_object_id w data 0 0)) (\<lambda>(oid, pos).
     and_then (require (decode_context_unsigned w data pos 1)) (\<lambda>(prop_code, pos).
     and_then (decode_context_unsigned w data pos 2) (\<lambda>(index, pos).
       Ok (ReadProperty \<lparr>rp_object_id = oid, rp_property_id = property_from_code prop_code,
                         rp_array_index = index\<rparr> invoke_id))))"

definition decode_read_property_ack :: "nat \<Rightarrow> bytes \<Rightarrow> u8 \<Rightarrow> apdu_result" where
  "decode_read_property_ack w data invoke_id =
     and_then (require (decode_context_object_id w data 0 0)) (\<lambda>(oid, pos).
     and_then (require (decode_context_unsigned w data pos 1)) (\<lambda>(prop_code, pos).
     and_then (decode_context_unsigned w data pos 2) (\<lambda>(index, pos).
     and_then (expect_opening_tag w data pos 3) (\<lambda>pos.
     and_then (decode_app_value w data pos) (\<lambda>(val, pos).
     and_then (expect_closing_tag w data pos 3) (\<lambda>pos.
       Ok (ReadPropertyAck \<lparr>ack_object_id = oid, ack_property_id = property_from_code prop_code,
                            ack_array_index = index, ack_value = val\<rparr> invoke_id)))))))"

definition decode_write_property :: "nat \<Rightarrow> bytes \<Rightarrow> u8 \<Rightarrow> apdu_result" where
  "decode_write_property w data invoke_id =
     and_then (require (decode_context_object_id w data 0 0)) (\<lambda>(oid, pos).
     and_then (require (decode_context_unsigned w data pos 1)) (\<lambda>(prop_code, pos).
     and_then (decode_context_unsigned w data pos 2) (\<lambda>(index, pos).
     and_then (expect_opening_tag w data pos 3) (\<lambda>pos.
     and_then (decode_app_value w data pos) (\<lambda>(val, pos).
     and_then (expect_closing_tag w data pos 3) (\<lambda>pos.
     and_then (decode_context_unsigned w data pos 4) (\<lambda>(prio, pos).
       Ok (WriteProperty \<lparr>wp_object_id = oid, wp_property_id = property_from_code prop_code,
                          wp_array_index = index, wp_value = val,
                          wp_priority = map_option ucast prio\<rparr> invoke_id))))))))"

definition decode_subscribe_cov :: "nat \<Rightarrow> bytes \<Rightarrow> u8 \<Rightarrow> apdu_result" where
  "decode_subscribe_cov w data invoke_id =
     and_then (require (decode_context_unsigned w data 0 0)) (\<lambda>(pid, pos).
     and_then (require (decode_context_object_id w data pos 1)) (\<lambda>(oid, pos).
     and_then (decode_context_unsigned w data pos 2) (\<lambda>(conf, pos).
     and_then (decode_context_unsigned w data pos 3) (\<lambda>(life, pos).
       Ok (SubscribeCov \<lparr>sub_process_id = pid, sub_monitored_object = oid,
             sub_issue_confirmed = (case conf of None \<Rightarrow> False | Some v \<Rightarrow> v \<noteq> 0),
             sub_lifetime = life\<rparr> invoke_id)))))"

text \<open>One round of the loop over the list of values.\<close>

definition decode_cov_entry ::
  "nat \<Rightarrow> bytes \<Rightarrow> nat \<Rightarrow> (DecodeError, (PropertyId \<times> BacnetValue) \<times> nat) result" where
  "decode_cov_entry w data pos =
     and_then (require (decode_context_unsigned w data pos 0)) (\<lambda>(prop_code, pos).
     and_then (decode_context_unsigned w data pos 1) (\<lambda>(_, pos).
     and_then (expect_opening_tag w data pos 2) (\<lambda>pos.
     and_then (decode_app_value w data pos) (\<lambda>(val, pos).
     and_then (expect_closing_tag w data pos 2) (\<lambda>pos.
       Ok ((property_from_code prop_code, val), pos))))))"

partial_function (option) decode_cov_values ::
  "nat \<Rightarrow> bytes \<Rightarrow> nat \<Rightarrow> (PropertyId \<times> BacnetValue) list
     \<Rightarrow> (DecodeError, (PropertyId \<times> BacnetValue) list \<times> nat) result option" where
  "decode_cov_values w data pos vals =
     (if is_closing_tag data pos 4 then Some (Ok (vals, pos))
      else (case decode_cov_entry w data pos of
              Err e \<Rightarrow> Some (Err e)
            | Panic \<Rightarrow> Some Panic
            | Ok (entry, pos') \<Rightarrow> decode_cov_values w data pos' (vec_push_ignore 8 vals entry)))"

definition decode_ucov_notification :: "nat \<Rightarrow> bytes \<Rightarrow> apdu_result option" where
  "decode_ucov_notification w data =
     (case
        and_then (require (decode_context_unsigned w data 0 0)) (\<lambda>(pid, pos).
        and_then (require (decode_context_object_id w data pos 1)) (\<lambda>(dev, pos).
        and_then (require (decode_context_object_id w data pos 2)) (\<lambda>(obj, pos).
        and_then (require (decode_context_unsigned w data pos 3)) (\<lambda>(time, pos).
        and_then (if pos < length data then expect_opening_tag w data pos 4 else Ok pos) (\<lambda>pos'.
          Ok (pid, dev, obj, time, pos < length data, pos'))))))
      of
        Err e \<Rightarrow> Some (Err e)
      | Panic \<Rightarrow> Some Panic
      | Ok (pid, dev, obj, time, has_list, pos) \<Rightarrow>
          map_option
            (\<lambda>r. and_then r (\<lambda>(vals, pos).
                 and_then (if has_list then expect_closing_tag w data pos 4 else Ok pos) (\<lambda>pos.
                 Ok (UnconfirmedCovNotification
                      \<lparr>cov_process_id = pid, cov_initiating_device = dev,
                       cov_monitored_object = obj, cov_time_remaining = time,
                       cov_values = vals\<rparr>))))
            (if has_list then decode_cov_values w data pos [] else Some (Ok ([], pos))))"

text \<open>One error field: \<open>decode_tag\<close>, \<open>decode_unsigned\<close>, or 0 at the end of the data.\<close>

definition decode_error_field :: "nat \<Rightarrow> bytes \<Rightarrow> nat \<Rightarrow> (DecodeError, u16 \<times> nat) result" where
  "decode_error_field w data pos =
     (if pos < length data then
        and_then (decode_tag w data pos) (\<lambda>tag.
        and_then (decode_unsigned w data (uadd w pos (header_len tag)) (lvt tag)) (\<lambda>v.
          Ok (ucast v, uadd w (uadd w pos (header_len tag)) (unat (lvt tag)))))
      else Ok (0, pos))"

definition decode_apdu :: "nat \<Rightarrow> bytes \<Rightarrow> apdu_result option" where
  "decode_apdu w data =
     (if data = [] then Some (Err UnexpectedEnd)
      else
        let pdu_type = data ! 0 AND 0xF0 in
        if pdu_type = 0x10 then
          (if length data < 2 then Some (Err UnexpectedEnd)
           else
             let service = data ! 1; body = drop 2 data in
             if service = SERVICE_WHO_IS then Some (decode_who_is w body)
             else if service = SERVICE_I_AM then Some (decode_i_am w body)
             else if service = SERVICE_UCOV_NOTIFICATION then decode_ucov_notification w body
             else Some (Ok (Unknown pdu_type service)))
        else if pdu_type = 0x00 then
          (if length data < 4 then Some (Err UnexpectedEnd)
           else
             let invoke_id = data ! 2; service = data ! 3; body = drop 4 data in
             if service = SERVICE_READ_PROPERTY then Some (decode_read_property w body invoke_id)
             else if service = SERVICE_WRITE_PROPERTY then Some (decode_write_property w body invoke_id)
             else if service = SERVICE_SUBSCRIBE_COV then Some (decode_subscribe_cov w body invoke_id)
             else Some (Ok (Unknown pdu_type service)))
        else if pdu_type = 0x30 then
          (if length data < 3 then Some (Err UnexpectedEnd)
           else
             let invoke_id = data ! 1; service = data ! 2 in
             if service = SERVICE_READ_PROPERTY
             then Some (decode_read_property_ack w (drop 3 data) invoke_id)
             else Some (Ok (Unknown pdu_type service)))
        else if pdu_type = 0x20 then
          (if length data < 3 then Some (Err UnexpectedEnd)
           else Some (Ok (SimpleAck (data ! 1) (data ! 2))))
        else if pdu_type = 0x50 then
          (if length data < 3 then Some (Err UnexpectedEnd)
           else Some (
             and_then (decode_error_field w data 3) (\<lambda>(error_class, pos).
             and_then (decode_error_field w data pos) (\<lambda>(error_code, pos).
               Ok (Error (data ! 1) (data ! 2) error_class error_code)))))
        else Some (Ok (Unknown pdu_type (if 1 < length data then data ! 1 else 0))))"

end
