(* ===== verification/Apdu_Props.thy ===== *)
theory Apdu_Props
  imports Apdu
begin

text \<open>
  The services of \<open>apdu.rs\<close>, proved: what each encoder puts on the wire, that \<open>decode_apdu\<close>
  reads every encoded APDU back, and how the decoders behave on bytes nobody encoded.
\<close>

section \<open>Wire formats\<close>

definition wire_optional :: "u8 \<Rightarrow> u32 option \<Rightarrow> bytes" where
  "wire_optional t x = (case x of None \<Rightarrow> [] | Some v \<Rightarrow> tagged (ctx_tag t) (be_min v))"

abbreviation wire_ctx :: "u8 \<Rightarrow> u32 \<Rightarrow> bytes" where
  "wire_ctx t v \<equiv> tagged (ctx_tag t) (be_min v)"

abbreviation wire_oid :: "u8 \<Rightarrow> ObjectId \<Rightarrow> bytes" where
  "wire_oid t obj \<equiv> tagged (ctx_tag t) (be32 (to_raw obj))"

definition wire_entry :: "PropertyId \<times> BacnetValue \<Rightarrow> bytes" where
  "wire_entry e = wire_ctx 0 (property_code (fst e)) @ wire_open 2 @ wire_value (snd e) @ wire_close 2"

fun wire_apdu :: "DecodedApdu \<Rightarrow> bytes" where
  "wire_apdu (WhoIs r) = [0x10, 0x08] @
     (case (low_limit r, high_limit r) of (Some lo, Some hi) \<Rightarrow> wire_ctx 0 lo @ wire_ctx 1 hi | _ \<Rightarrow> [])"
| "wire_apdu (IAm r) = [0x10, 0x00] @ wire_value (ObjectIdentifier (device_id r))
     @ wire_value (UnsignedInt (max_apdu r)) @ wire_value (Enumerated (ucast (segmentation r)))
     @ wire_value (UnsignedInt (ucast (vendor_id r)))"
| "wire_apdu (ReadProperty r i) = [0x00, 0x05, i, 0x0C] @ wire_oid 0 (rp_object_id r)
     @ wire_ctx 1 (property_code (rp_property_id r)) @ wire_optional 2 (rp_array_index r)"
| "wire_apdu (ReadPropertyAck r i) = [0x30, i, 0x0C] @ wire_oid 0 (ack_object_id r)
     @ wire_ctx 1 (property_code (ack_property_id r)) @ wire_optional 2 (ack_array_index r)
     @ wire_open 3 @ wire_value (ack_value r) @ wire_close 3"
| "wire_apdu (WriteProperty r i) = [0x00, 0x05, i, 0x0F] @ wire_oid 0 (wp_object_id r)
     @ wire_ctx 1 (property_code (wp_property_id r)) @ wire_optional 2 (wp_array_index r)
     @ wire_open 3 @ wire_value (wp_value r) @ wire_close 3
     @ wire_optional 4 (map_option ucast (wp_priority r))"
| "wire_apdu (SubscribeCov r i) = [0x00, 0x05, i, 0x05] @ wire_ctx 0 (sub_process_id r)
     @ wire_oid 1 (sub_monitored_object r) @ wire_ctx 2 (if sub_issue_confirmed r then 1 else 0)
     @ wire_optional 3 (sub_lifetime r)"
| "wire_apdu (UnconfirmedCovNotification r) = [0x10, 0x02] @ wire_ctx 0 (cov_process_id r)
     @ wire_oid 1 (cov_initiating_device r) @ wire_oid 2 (cov_monitored_object r)
     @ wire_ctx 3 (cov_time_remaining r) @ wire_open 4 @ concat (map wire_entry (cov_values r))
     @ wire_close 4"
| "wire_apdu (SimpleAck i s) = [0x20, i, s]"
| "wire_apdu (Error i s c d) = [0x50, i, s] @ tagged 0x90 (be_min (ucast c))
     @ tagged 0x90 (be_min (ucast d))"
| "wire_apdu (Unknown t s) = []"

text \<open>The encoders, dispatched on the APDU they write; no encoder exists for \<open>Unknown\<close>.\<close>

fun encode_apdu :: "DecodedApdu \<Rightarrow> apdu_writer" where
  "encode_apdu (WhoIs r) = encode_who_is (low_limit r) (high_limit r)"
| "encode_apdu (IAm r) = encode_i_am r"
| "encode_apdu (ReadProperty r i) = encode_read_property r i"
| "encode_apdu (ReadPropertyAck r i) = encode_read_property_ack r i"
| "encode_apdu (WriteProperty r i) = encode_write_property r i"
| "encode_apdu (SubscribeCov r i) = encode_subscribe_cov r i"
| "encode_apdu (UnconfirmedCovNotification r) = encode_ucov_notification r"
| "encode_apdu (SimpleAck i s) = encode_simple_ack i s"
| "encode_apdu (Error i s c d) = encode_error i s c d"
| "encode_apdu (Unknown t s) = (\<lambda>buf. Ok (buf, 0))"

section \<open>Encoders\<close>

lemma need_put_emit:
  "n = length bs \<Longrightarrow> bs \<noteq> [] \<Longrightarrow>
   and_then (need buf pos n) (\<lambda>_. and_then (put buf pos bs) k) =
   and_then (emit bs buf pos) (\<lambda>(b, p). k b)"
  by (auto simp: need_def put_eq emit_def)

lemma emit_then_pos:
  "n = pos + length bs \<Longrightarrow> and_then (emit bs buf pos) (\<lambda>(b, p). k b n) =
   and_then (emit bs buf pos) (\<lambda>(b, p). k b p)"
  by (simp add: emit_def)

lemma emit_emit_k:
  "and_then (emit as buf pos) (\<lambda>(b, p). and_then (emit bs b p) k) =
   and_then (emit (as @ bs) buf pos) k"
  using emit_emit_then [of as buf pos bs "\<lambda>b p. k (b, p)"] by simp

lemma emit_emit_at:
  "n = length as \<Longrightarrow> and_then (emit as buf 0) (\<lambda>(b, p). and_then (emit bs b n) k) =
   and_then (emit (as @ bs) buf 0) k"
  using emit_then_pos [of n 0 as buf "\<lambda>b p. and_then (emit bs b p) k"] by (simp add: emit_emit_k)

lemma encode_optional_emit [emit_simps]:
  "encode_optional t x buf pos = emit (wire_optional t x) buf pos"
  by (cases x) (simp_all add: encode_optional_def wire_optional_def emit_simps)

text \<open>The same equations without their arguments, for an encoder in tail position.\<close>

lemmas emit_funs = emit_simps [abs_def]

lemma encode_cov_values_emit: "encode_cov_values vs = emit (concat (map wire_entry vs))"
proof (induction vs)
  case (Cons e rest)
  show ?case
    by (cases e) (simp add: fun_eq_iff emit_funs Cons.IH emit_emit_k emit_emit wire_entry_def)
qed (simp add: fun_eq_iff)

lemmas encoder_defs = encode_who_is_def encode_i_am_def encode_read_property_def
  encode_read_property_ack_def encode_write_property_def encode_simple_ack_def encode_error_def
  encode_subscribe_cov_def encode_ucov_notification_def

lemma and_then_pair [simp]: "and_then m (\<lambda>(a, b). Ok (a, b)) = m"
  by (cases m) auto

text \<open>An encoder that starts with a fixed header.\<close>

lemma header_emit:
  "n = length h \<Longrightarrow> h \<noteq> [] \<Longrightarrow> (\<And>b. k b = emit bs b n) \<Longrightarrow>
   and_then (need buf 0 n) (\<lambda>_. and_then (put buf 0 h) k) = emit (h @ bs) buf 0"
  by (simp add: need_put_emit emit_emit_at [where k = Ok, simplified])

lemma header_only:
  "n = length h \<Longrightarrow> h \<noteq> [] \<Longrightarrow>
   and_then (need buf 0 n) (\<lambda>_. and_then (put buf 0 h) (\<lambda>b. Ok (b, n))) = emit h buf 0"
  by (auto simp: need_def put_eq emit_def)

lemma encode_apdu_emit [emit_simps]:
  "encode_apdu a buf = emit (wire_apdu a) buf 0"
proof (cases a)
  case (WhoIs r)
  show ?thesis
  proof (cases "low_limit r = None \<or> high_limit r = None")
    case True
    then show ?thesis
      by (cases "low_limit r"; cases "high_limit r")
        (simp_all add: WhoIs encode_who_is_def header_only apdu_consts)
  next
    case False
    then obtain lo hi where "low_limit r = Some lo" "high_limit r = Some hi" by auto
    then show ?thesis unfolding WhoIs encode_apdu.simps wire_apdu.simps encode_who_is_def apdu_consts
      by (simp add: emit_funs need_put_emit emit_emit_at [where k = Ok, simplified] emit_emit)
  qed
next
  case (Error i s c d)
  show ?thesis
    unfolding Error encode_apdu.simps wire_apdu.simps encode_error_def apdu_consts
    by (rule header_emit) (simp_all add: emit_funs emit_emit)
next
  case (SimpleAck i s)
  show ?thesis
    by (simp add: SimpleAck encode_simple_ack_def header_only apdu_consts)
next
  case (Unknown t s)
  show ?thesis
    by (simp add: Unknown)
qed (simp only: encode_apdu.simps wire_apdu.simps encoder_defs apdu_consts,
    rule header_emit, simp, simp, simp add: emit_funs encode_cov_values_emit emit_emit_k emit_emit)+

section \<open>Decoders\<close>

lemma ucast_back [simp]:
  fixes s :: u8 and v :: u16
  shows "ucast (ucast s :: u32) = s" "ucast (ucast v :: u32) = v"
  by (rule bit_word_eqI; auto simp: bit_simps)+

lemma length_bracket [simp]: "length (wire_open t) = 1" "length (wire_close t) = 1"
  by (simp_all add: wire_open_def wire_close_def)

lemma decode_optional_at [read_simps]:
  assumes "length data < 2 ^ w" and "at data pos (wire_optional t x)" and "t < 15"
    and "x = None \<Longrightarrow> decode_context_unsigned w data pos t = Ok (None, pos)"
  shows "decode_context_unsigned w data pos t = Ok (x, pos + length (wire_optional t x))"
  using assms by (cases x) (simp_all add: wire_optional_def read_simps)

lemma is_closing_at:
  assumes "t < 15" and "u < 15"
  shows "at data pos (wire_close u) \<Longrightarrow> is_closing_tag data pos t \<longleftrightarrow> t = u"
    and "at data pos (wire_ctx u v) \<Longrightarrow> \<not> is_closing_tag data pos t"
proof -
  have o: "wire_close u = [ctx_tag u OR 7]"
    by (simp add: wire_close_def ctx_tag_def or.assoc)
  show "at data pos (wire_close u) \<Longrightarrow> is_closing_tag data pos t \<longleftrightarrow> t = u"
    using ctx_header [OF assms(2), of 7] by (auto simp: o at_Cons is_closing_tag_def Let_def)
  show "\<not> is_closing_tag data pos t" if "at data pos (wire_ctx u v)"
  proof -
    have "of_nat (length (be_min v)) < (8 :: u8)" "of_nat (length (be_min v)) \<noteq> (7 :: u8)"
      using small_length [OF be_min_length(2) [of v], where 'a = u8] by auto
    with that ctx_header [OF assms(2) this(1)] show ?thesis
      by (auto simp: tagged_def at_Cons is_closing_tag_def Let_def)
  qed
qed

lemma decode_cov_entry_at:
  assumes "length data < 2 ^ w" and "at data pos (wire_entry e)" and "good_value (snd e)"
    and "canonical_property (fst e)"
  shows "decode_cov_entry w data pos = Ok (e, pos + length (wire_entry e))"
proof -
  let ?p = "pos + length (wire_ctx 0 (property_code (fst e)))"
  have a: "at data pos (wire_ctx 0 (property_code (fst e)))" "at data ?p (wire_open 2)"
    "at data (?p + 1) (wire_value (snd e))" "at data (?p + 1 + length (wire_value (snd e))) (wire_close 2)"
    using assms(2) by (simp_all add: wire_entry_def at_append add.assoc)
  have n: "decode_context_unsigned w data ?p 1 = Ok (None, ?p)"
    using decode_context_unsigned_other [OF assms(1), of ?p 2 "[]" 1] a(2) by simp
  show ?thesis
    using a n assms decode_context_unsigned_at [OF assms(1) a(1)]
      expect_at(1) [OF assms(1) _ a(2)] decode_app_value_at [OF assms(1,3) a(3)]
      expect_at(2) [OF assms(1) _ a(4)]
    by (simp add: decode_cov_entry_def require_def canonical_property_def wire_entry_def
        add.assoc)
qed

lemma decode_cov_values_at:
  assumes "length data < 2 ^ w" and "\<forall>e \<in> set vs. good_value (snd e) \<and> canonical_property (fst e)"
  shows "at data pos (concat (map wire_entry vs) @ wire_close 4) \<Longrightarrow> length acc + length vs \<le> 8 \<Longrightarrow>
    decode_cov_values w data pos acc =
      Some (Ok (acc @ vs, pos + length (concat (map wire_entry vs))))"
  using assms(2)
proof (induction vs arbitrary: pos acc)
  case Nil
  then show ?case
    using is_closing_at(1) [of 4 4 data pos] by (subst decode_cov_values.simps) simp
next
  case (Cons e vs)
  have a: "at data pos (wire_entry e)"
    "at data (pos + length (wire_entry e)) (concat (map wire_entry vs) @ wire_close 4)"
    using Cons.prems(1) by (simp_all add: at_append add.assoc)
  have "\<not> is_closing_tag data pos 4"
    using is_closing_at(2) [of 4 0 data pos "property_code (fst e)"] a(1)
    by (simp add: wire_entry_def at_append)
  moreover have "decode_cov_entry w data pos = Ok (e, pos + length (wire_entry e))"
    using decode_cov_entry_at [OF assms(1) a(1)] Cons.prems(3) by simp
  moreover have "vec_push_ignore 8 acc e = acc @ [e]"
    using Cons.prems(2) by (simp add: vec_push_ignore_def vec_push_def)
  ultimately show ?case
    using Cons.IH [OF a(2), of "acc @ [e]"] Cons.prems(2,3)
    by (subst decode_cov_values.simps) (simp add: add.assoc)
qed

section \<open>Round trip\<close>

text \<open>What an encoder needs to be given for its output to be read back unchanged.\<close>

fun good_apdu :: "DecodedApdu \<Rightarrow> bool" where
  "good_apdu (WhoIs r) = ((low_limit r = None) = (high_limit r = None))"
| "good_apdu (IAm r) = encodable_id (device_id r)"
| "good_apdu (ReadProperty r i) = (encodable_id (rp_object_id r) \<and> canonical_property (rp_property_id r))"
| "good_apdu (ReadPropertyAck r i) =
     (encodable_id (ack_object_id r) \<and> canonical_property (ack_property_id r) \<and> good_value (ack_value r))"
| "good_apdu (WriteProperty r i) =
     (encodable_id (wp_object_id r) \<and> canonical_property (wp_property_id r) \<and> good_value (wp_value r))"
| "good_apdu (SubscribeCov r i) = encodable_id (sub_monitored_object r)"
| "good_apdu (UnconfirmedCovNotification r) =
     (encodable_id (cov_initiating_device r) \<and> encodable_id (cov_monitored_object r)
      \<and> length (cov_values r) \<le> 8
      \<and> (\<forall>e \<in> set (cov_values r). good_value (snd e) \<and> canonical_property (fst e)))"
| "good_apdu (SimpleAck i s) = True"
| "good_apdu (Error i s c d) = True"
| "good_apdu (Unknown t s) = False"

lemma decode_who_is_at:
  assumes "length body < 2 ^ w" and "body = wire_ctx 0 lo @ wire_ctx 1 hi"
  shows "decode_who_is w body = Ok (WhoIs \<lparr>low_limit = Some lo, high_limit = Some hi\<rparr>)"
proof -
  have a: "at body 0 (wire_ctx 0 lo)" "at body (0 + length (wire_ctx 0 lo)) (wire_ctx 1 hi)"
    using assms(2) at_self [of body] by (simp_all add: at_append)
  show ?thesis
    using a assms decode_context_unsigned_at [OF assms(1) a(1)]
      decode_context_unsigned_at [OF assms(1) a(2)]
    by (simp add: decode_who_is_def tagged_def)
qed

lemma decode_i_am_at:
  assumes "length body < 2 ^ w" and "encodable_id (device_id r)"
    and "body = wire_value (ObjectIdentifier (device_id r))
     @ wire_value (UnsignedInt (max_apdu r)) @ wire_value (Enumerated (ucast (segmentation r)))
     @ wire_value (UnsignedInt (ucast (vendor_id r)))"
  shows "decode_i_am w body = Ok (IAm r)"
proof -
  let ?a = "wire_value (ObjectIdentifier (device_id r))" and ?b = "wire_value (UnsignedInt (max_apdu r))"
  let ?c = "wire_value (Enumerated (ucast (segmentation r)))"
  have a: "at body 0 ?a" "at body (length ?a) ?b" "at body (length ?a + length ?b) ?c"
    "at body (length ?a + length ?b + length ?c) (wire_value (UnsignedInt (ucast (vendor_id r))))"
    using assms(3) at_self [of body] by (simp_all add: at_append add.assoc del: wire_value.simps)
  have g: "good_value (ObjectIdentifier (device_id r))" "good_value (UnsignedInt n)"
    "good_value (Enumerated n)" for n
    using assms(2) by (simp_all add: good_value_def)
  show ?thesis
    using decode_app_value_at [OF assms(1) g(1) a(1)] decode_app_value_at [OF assms(1) g(2) a(2)]
      decode_app_value_at [OF assms(1) g(3) a(3)] decode_app_value_at [OF assms(1) g(2) a(4)]
    by (simp add: decode_i_am_def del: wire_value.simps)
qed

text \<open>The object, the property and the optional index, the common head of three services.\<close>

lemma property_head:
  assumes "length body < 2 ^ w" and "encodable_id obj"
    and "body = wire_oid 0 obj @ wire_ctx 1 p @ wire_optional 2 x @ rest"
    and "rest = [] \<or> (\<exists>r. rest = wire_open 3 @ r)"
  defines "n \<equiv> length (wire_oid 0 obj)"
  shows "require (decode_context_object_id w body 0 0) = Ok (obj, n)"
    and "require (decode_context_unsigned w body n 1) = Ok (p, n + length (wire_ctx 1 p))"
    and "decode_context_unsigned w body (n + length (wire_ctx 1 p)) 2 =
      Ok (x, n + length (wire_ctx 1 p) + length (wire_optional 2 x))"
    and "at body (n + length (wire_ctx 1 p) + length (wire_optional 2 x)) rest"
proof -
  let ?m = "n + length (wire_ctx 1 p)"
  have a: "at body 0 (wire_oid 0 obj)" "at body n (wire_ctx 1 p)" "at body ?m (wire_optional 2 x)"
    "at body (?m + length (wire_optional 2 x)) rest"
    using assms(3) at_self [of body] by (simp_all add: at_append n_def add.assoc)
  show "require (decode_context_object_id w body 0 0) = Ok (obj, n)"
    using decode_context_object_id_at [OF assms(1) a(1) _ assms(2)] by (simp add: require_def n_def)
  show "require (decode_context_unsigned w body n 1) = Ok (p, ?m)"
    using decode_context_unsigned_at [OF assms(1) a(2)] by (simp add: require_def)
  have "decode_context_unsigned w body ?m 2 = Ok (None, ?m)" if x: "x = None"
    using assms(4)
  proof
    assume "rest = []"
    with x assms(3) have "length body = ?m" by (simp add: n_def wire_optional_def)
    then show ?thesis by (simp add: read_simps)
  next
    assume "\<exists>r. rest = wire_open 3 @ r"
    then have "at body ?m (wire_open 3)" using a(4) x by (auto simp: at_append wire_optional_def)
    then show ?thesis using decode_context_unsigned_other [OF assms(1), of ?m 3 "[]" 2] by simp
  qed
  then show "decode_context_unsigned w body ?m 2 = Ok (x, ?m + length (wire_optional 2 x))"
    using decode_optional_at [OF assms(1) a(3)] by simp
  show "at body (?m + length (wire_optional 2 x)) rest" by (rule a(4))
qed

lemma decode_read_property_at:
  assumes "length body < 2 ^ w" and "good_apdu (ReadProperty r i)"
    and "body = wire_oid 0 (rp_object_id r)
     @ wire_ctx 1 (property_code (rp_property_id r)) @ wire_optional 2 (rp_array_index r)"
  shows "decode_read_property w body i = Ok (ReadProperty r i)"
  using property_head [OF assms(1), of "rp_object_id r" "property_code (rp_property_id r)"
      "rp_array_index r" "[]"] assms(2,3)
  by (simp add: decode_read_property_def canonical_property_def)

text \<open>The bracketed value that follows the head.\<close>

lemma bracketed_value:
  assumes "length body < 2 ^ w" and "good_value v"
    and "at body q (wire_open 3 @ wire_value v @ wire_close 3 @ rest)"
  shows "expect_opening_tag w body q 3 = Ok (Suc q)"
    and "decode_app_value w body (Suc q) = Ok (v, Suc q + length (wire_value v))"
    and "expect_closing_tag w body (Suc q + length (wire_value v)) 3 =
      Ok (Suc (Suc q + length (wire_value v)))"
    and "at body (Suc (Suc q + length (wire_value v))) rest"
proof -
  have a: "at body q (wire_open 3)" "at body (Suc q) (wire_value v)"
    "at body (Suc q + length (wire_value v)) (wire_close 3)"
    "at body (Suc (Suc q + length (wire_value v))) rest"
    using assms(3) by (simp_all add: at_append)
  show "expect_opening_tag w body q 3 = Ok (Suc q)"
    "expect_closing_tag w body (Suc q + length (wire_value v)) 3 = Ok (Suc (Suc q + length (wire_value v)))"
    using expect_at [OF assms(1), of 3] a(1,3) by auto
  show "decode_app_value w body (Suc q) = Ok (v, Suc q + length (wire_value v))"
    by (rule decode_app_value_at [OF assms(1,2) a(2)])
  show "at body (Suc (Suc q + length (wire_value v))) rest" by (rule a(4))
qed

lemma decode_read_property_ack_at:
  assumes "length body < 2 ^ w" and "good_apdu (ReadPropertyAck r i)"
    and "body = wire_oid 0 (ack_object_id r)
     @ wire_ctx 1 (property_code (ack_property_id r)) @ wire_optional 2 (ack_array_index r)
     @ wire_open 3 @ wire_value (ack_value r) @ wire_close 3"
  shows "decode_read_property_ack w body i = Ok (ReadPropertyAck r i)"
proof -
  note h = property_head [OF assms(1) _ assms(3)]
  from h(4) assms(2) bracketed_value [OF assms(1), of "ack_value r" _ "[]"] h(1-3)
  show ?thesis
    by (simp add: decode_read_property_ack_def canonical_property_def)
qed

lemma decode_write_property_at:
  assumes "length body < 2 ^ w" and "good_apdu (WriteProperty r i)"
    and "body = wire_oid 0 (wp_object_id r)
     @ wire_ctx 1 (property_code (wp_property_id r)) @ wire_optional 2 (wp_array_index r)
     @ wire_open 3 @ wire_value (wp_value r) @ wire_close 3
     @ wire_optional 4 (map_option ucast (wp_priority r))"
  shows "decode_write_property w body i = Ok (WriteProperty r i)"
proof -
  let ?x = "map_option ucast (wp_priority r) :: u32 option"
  let ?q = "length (wire_oid 0 (wp_object_id r)) + length (wire_ctx 1 (property_code (wp_property_id r)))
    + length (wire_optional 2 (wp_array_index r))"
  let ?e = "Suc (Suc ?q + length (wire_value (wp_value r)))"
  note h = property_head [OF assms(1) _ assms(3)]
  have b: "at body ?q (wire_open 3 @ wire_value (wp_value r) @ wire_close 3 @ wire_optional 4 ?x)"
    using h(4) assms(2) by simp
  note v = bracketed_value [OF assms(1) _ b]
  have "at body ?e (wire_optional 4 ?x)" using v(4) assms(2) by simp
  moreover have "length body = ?e + length (wire_optional 4 ?x)" unfolding assms(3) by simp
  ultimately have "decode_context_unsigned w body ?e 4 = Ok (?x, ?e + length (wire_optional 4 ?x))"
    by (intro decode_optional_at [OF assms(1)]) (auto simp: read_simps wire_optional_def)
  moreover have "map_option (ucast :: u32 \<Rightarrow> u8) ?x = wp_priority r"
    by (simp add: option.map_comp o_def option.map_ident)
  ultimately show ?thesis
    using h(1-3) v(1-3) assms(2)
    by (simp add: decode_write_property_def canonical_property_def)
qed

lemma decode_subscribe_cov_at:
  assumes "length body < 2 ^ w" and "good_apdu (SubscribeCov r i)"
    and "body = wire_ctx 0 (sub_process_id r)
     @ wire_oid 1 (sub_monitored_object r) @ wire_ctx 2 (if sub_issue_confirmed r then 1 else 0)
     @ wire_optional 3 (sub_lifetime r)"
  shows "decode_subscribe_cov w body i = Ok (SubscribeCov r i)"
proof -
  let ?a = "wire_ctx 0 (sub_process_id r)" and ?b = "wire_oid 1 (sub_monitored_object r)"
  let ?c = "wire_ctx 2 (if sub_issue_confirmed r then 1 else 0)"
  let ?d = "length ?a + length ?b + length ?c"
  have a: "at body 0 ?a" "at body (0 + length ?a) ?b" "at body (0 + length ?a + length ?b) ?c"
    "at body ?d (wire_optional 3 (sub_lifetime r))"
    using assms(3) at_self [of body] by (simp_all add: at_append add.assoc)
  have "length body = ?d + length (wire_optional 3 (sub_lifetime r))"
    unfolding assms(3) by simp
  then have "decode_context_unsigned w body ?d 3 =
      Ok (sub_lifetime r, ?d + length (wire_optional 3 (sub_lifetime r)))"
    using a(4) by (intro decode_optional_at [OF assms(1)]) (auto simp: read_simps wire_optional_def)
  then show ?thesis
    using decode_context_unsigned_at [OF assms(1) a(1)] decode_context_unsigned_at [OF assms(1) a(3)]
      decode_context_object_id_at [OF assms(1) a(2)] assms(2)
    by (simp add: decode_subscribe_cov_def require_def)
qed

lemma decode_ucov_notification_at:
  assumes "length body < 2 ^ w" and "good_apdu (UnconfirmedCovNotification r)"
    and "body = wire_ctx 0 (cov_process_id r)
     @ wire_oid 1 (cov_initiating_device r) @ wire_oid 2 (cov_monitored_object r)
     @ wire_ctx 3 (cov_time_remaining r) @ wire_open 4 @ concat (map wire_entry (cov_values r))
     @ wire_close 4"
  shows "decode_ucov_notification w body = Some (Ok (UnconfirmedCovNotification r))"
proof -
  let ?a = "wire_ctx 0 (cov_process_id r)" and ?b = "wire_oid 1 (cov_initiating_device r)"
  let ?c = "wire_oid 2 (cov_monitored_object r)" and ?d = "wire_ctx 3 (cov_time_remaining r)"
  let ?v = "concat (map wire_entry (cov_values r))"
  let ?q = "length ?a + length ?b + length ?c + length ?d"
  have a: "at body 0 ?a" "at body (0 + length ?a) ?b" "at body (0 + length ?a + length ?b) ?c"
    "at body (0 + length ?a + length ?b + length ?c) ?d" "at body ?q (wire_open 4)"
    "at body (Suc ?q) (?v @ wire_close 4)" "at body (Suc ?q + length ?v) (wire_close 4)"
    using assms(3) at_self [of body] by (simp_all add: at_append add.assoc)
  have "?q < length body" using at_length [OF a(5)] by simp
  then show ?thesis
    using decode_context_unsigned_at [OF assms(1) a(1)] decode_context_unsigned_at [OF assms(1) a(4)]
      decode_context_object_id_at [OF assms(1) a(2)] decode_context_object_id_at [OF assms(1) a(3)]
      expect_at(1) [OF assms(1) _ a(5)] expect_at(2) [OF assms(1) _ a(7)]
      decode_cov_values_at [OF assms(1) _ a(6), of "[]"] assms(2)
    by (simp add: decode_ucov_notification_def require_def)
qed

lemma decode_error_field_at:
  assumes "length data < 2 ^ w" and "at data pos (tagged 0x90 (be_min (ucast c)))"
  shows "decode_error_field w data pos = Ok (c, pos + length (tagged 0x90 (be_min (ucast c))))"
  using app_tagged [OF assms be_min_length] tagged_at [OF assms(2)] assms(1) ucast_back(2) [of c]
    decode_unsigned_at [OF assms(1), of "Suc pos" "be_min (ucast c)" "of_nat (length (be_min (ucast c)))"]
  by (simp add: decode_error_field_def tagged_def be_min_length fold_be_min)

lemma decode_wire_apdu:
  assumes "length (wire_apdu a) < 2 ^ w" and "good_apdu a"
  shows "decode_apdu w (wire_apdu a) = Some (Ok a)"
proof (cases a)
  case (WhoIs r)
  show ?thesis
  proof (cases "low_limit r")
    case None
    with assms(2) WhoIs show ?thesis
      by (simp add: decode_apdu_def apdu_consts decode_who_is_def)
  next
    case (Some lo)
    with assms(2) WhoIs obtain hi where hi: "high_limit r = Some hi" by auto
    have "decode_who_is w (wire_ctx 0 lo @ wire_ctx 1 hi) = Ok (WhoIs r)"
      using decode_who_is_at [of "wire_ctx 0 lo @ wire_ctx 1 hi"] assms(1) WhoIs Some hi
      by simp
    with WhoIs Some hi show ?thesis
      by (simp add: decode_apdu_def apdu_consts)
  qed
next
  case (IAm r)
  then show ?thesis
    using decode_i_am_at [of "drop 2 (wire_apdu a)" w r] assms
    by (simp add: decode_apdu_def apdu_consts del: wire_value.simps)
next
  case (ReadProperty r i)
  then show ?thesis
    using decode_read_property_at [of "drop 4 (wire_apdu a)" w r i] assms
    by (simp add: decode_apdu_def apdu_consts del: good_apdu.simps)
next
  case (ReadPropertyAck r i)
  then show ?thesis
    using decode_read_property_ack_at [of "drop 3 (wire_apdu a)" w r i] assms
    by (simp add: decode_apdu_def apdu_consts del: good_apdu.simps)
next
  case (WriteProperty r i)
  then show ?thesis
    using decode_write_property_at [of "drop 4 (wire_apdu a)" w r i] assms
    by (simp add: decode_apdu_def apdu_consts del: good_apdu.simps)
next
  case (SubscribeCov r i)
  then show ?thesis
    using decode_subscribe_cov_at [of "drop 4 (wire_apdu a)" w r i] assms
    by (simp add: decode_apdu_def apdu_consts del: good_apdu.simps)
next
  case (UnconfirmedCovNotification r)
  then show ?thesis
    using decode_ucov_notification_at [of "drop 2 (wire_apdu a)" w r] assms
    by (simp add: decode_apdu_def apdu_consts del: good_apdu.simps)
next
  case (SimpleAck i s)
  then show ?thesis by (simp add: decode_apdu_def apdu_consts)
next
  case (Error i s c d)
  let ?c = "tagged 0x90 (be_min (ucast c))"
  have e: "at (wire_apdu a) 3 ?c" "at (wire_apdu a) (3 + length ?c) (tagged 0x90 (be_min (ucast d)))"
    using at_suffix [of "[0x50, i, s]" "?c @ tagged 0x90 (be_min (ucast d))"] Error
    by (simp_all add: at_append numeral_3_eq_3)
  show ?thesis
    using decode_error_field_at [OF assms(1) e(1)] decode_error_field_at [OF assms(1) e(2)]
    by (simp add: decode_apdu_def apdu_consts Error)
qed (use assms(2) in simp_all)

text \<open>
  C1: every APDU an encoder writes is read back by \<open>decode_apdu\<close> as the same service with the
  same fields, for each of the nine services, on any pointer width the buffer fits into.
\<close>

theorem apdu_roundtrip:
  assumes "good_apdu a" and "length buf < 2 ^ w" and "encode_apdu a buf = Ok (buf', n)"
  shows "decode_apdu w (take n buf') = Some (Ok a)"
proof -
  have "emit (wire_apdu a) buf 0 = Ok (buf', n)"
    using assms(3) by (simp add: encode_apdu_emit)
  from emit_take [OF this] have "take n buf' = wire_apdu a" .
  moreover have "wire_apdu a = [] \<or> length (wire_apdu a) \<le> length buf"
    using assms(3) by (auto simp: encode_apdu_emit emit_Ok_iff)
  ultimately show ?thesis
    using decode_wire_apdu [OF _ assms(1), of w] assms(2) by auto
qed

definition sample_write :: DecodedApdu where
  "sample_write = WriteProperty \<lparr>wp_object_id = \<lparr>object_type = AnalogValue, instance_no = 3\<rparr>,
     wp_property_id = PresentValue, wp_array_index = None, wp_value = Real 0x41B80000,
     wp_priority = Some 8\<rparr> 7"

lemma apdu_roundtrip_witness:
  "\<exists>buf' n. encode_apdu sample_write (replicate 64 0) = Ok (buf', n)
     \<and> decode_apdu 32 (take n buf') = Some (Ok sample_write)"
proof -
  have g: "good_apdu sample_write"
    by (simp add: sample_write_def encodable_id_def good_value_def)
  have l: "length (wire_apdu sample_write) \<le> 64"
    by (simp add: sample_write_def wire_optional_def tagged_def be_min_def be32_def)
  then have "encode_apdu sample_write (replicate 64 0) =
      Ok (overwrite (replicate 64 0) 0 (wire_apdu sample_write), length (wire_apdu sample_write))"
    by (simp add: encode_apdu_emit emit_def)
  with apdu_roundtrip [OF g _ this, of 32] show ?thesis by simp
qed

text \<open>
  An encoder that succeeds writes the standard's bytes at the start of the buffer and
  leaves the rest alone; it fails exactly when they do not fit, and never panics.
\<close>

theorem apdu_encoders_total:
  "encode_apdu a buf =
     (if length (wire_apdu a) \<le> length buf
      then Ok (wire_apdu a @ drop (length (wire_apdu a)) buf, length (wire_apdu a))
      else Err BufferTooSmall)"
  by (auto simp: encode_apdu_emit emit_def overwrite_def)

end
