(* ===== verification/Apdu_Total.thy ===== *)
theory Apdu_Total
  imports Apdu_Props
begin

text \<open>
  The APDU decoders on arbitrary bytes. With a pointer that is wide enough (\<open>room\<close>: no sum of
  a position and a 32-bit length wraps, true on the 64-bit host) every decoder only moves
  forward, so \<open>decode_apdu\<close> returns on every input. On the 32-bit target it does not.
\<close>

section \<open>Progress when no position wraps\<close>

definition room :: "nat \<Rightarrow> bytes \<Rightarrow> bool" where
  "room w data \<longleftrightarrow> length data + 2 ^ 34 \<le> 2 ^ w"

lemma uadd_room:
  "room w data \<Longrightarrow> pos \<le> length data + 2 ^ 32 + 8 \<Longrightarrow> n \<le> 2 ^ 32 \<Longrightarrow> uadd w pos n = pos + n"
  by (simp add: room_def)

lemma dneed_room:
  "room w data \<Longrightarrow> pos \<le> length data + 2 ^ 32 + 8 \<Longrightarrow> n \<le> 2 ^ 32 \<Longrightarrow>
   dneed w data pos n = (if pos + n \<le> length data then Ok () else Err UnexpectedEnd)"
  using uadd_room [of w data pos n] by (simp add: dneed_def)

lemma unat_u32_le: "unat (v :: u32) \<le> 2 ^ 32"
  using unsigned_less [of v, where 'a = nat] by simp

lemma decode_tag_room:
  assumes "room w data" and "pos \<le> length data + 2 ^ 32 + 8"
  shows "safe (decode_tag w data pos)"
    and "decode_tag w data pos = Ok t \<Longrightarrow> 1 \<le> header_len t \<and> header_len t \<le> 8 \<and> pos + header_len t \<le> length data"
  using assms(2)
  by (auto simp: decode_tag_def dneed_room [OF assms(1)] uadd_room [OF assms(1)] result_simps idx_def
      Let_def safe_def split: if_splits)

lemma shift_loop_room:
  assumes "room w data"
  shows "pos + len \<le> length data \<Longrightarrow> len \<le> 2 ^ 32 \<Longrightarrow> safe (shift_loop w data pos i len v)"
proof (induction "len - i" arbitrary: i v)
  case 0
  then show ?case by (simp add: shift_loop.simps)
next
  case (Suc n)
  then have "i < len" "uadd w pos i = pos + i"
    using uadd_room [OF assms, of pos i] by auto
  moreover have "safe (shift_loop w data pos (Suc i) len u)" for u
    by (rule Suc.hyps(1)) (use Suc in auto)
  ultimately show ?case
    using Suc.prems by (simp add: shift_loop.simps [of _ _ _ i] idx_def)
qed

lemma decode_unsigned_room:
  assumes "room w data" and "pos \<le> length data"
  shows "safe (decode_unsigned w data pos len)"
    and "decode_unsigned w data pos len = Ok v \<Longrightarrow> pos + unat len \<le> length data"
  using assms(2) dneed_room [OF assms(1), of pos "unat len"] unat_u32_le [of len]
    shift_loop_room [OF assms(1), of pos "unat len" 0 0]
  by (auto simp: decode_unsigned_def Let_def split: if_splits)

lemma decode_context_unsigned_room:
  assumes "room w data" and "pos \<le> length data"
  shows "safe (decode_context_unsigned w data pos t)"
    and "decode_context_unsigned w data pos t = Ok (v, q) \<Longrightarrow> pos \<le> q \<and> q \<le> length data"
proof -
  note d = decode_tag_room [OF assms(1), of pos]
  have u: "decode_tag w data pos = Ok g \<Longrightarrow> uadd w pos (header_len g) = pos + header_len g" for g
    using d(2) [of g] assms uadd_room [OF assms(1), of pos "header_len g"] by auto
  have s: "decode_tag w data pos = Ok g \<Longrightarrow> safe (decode_unsigned w data (pos + header_len g) l)" for g l
    using d(2) [of g] assms decode_unsigned_room(1) [OF assms(1)] by auto
  have l: "decode_tag w data pos = Ok g \<Longrightarrow> decode_unsigned w data (pos + header_len g) l = Ok v \<Longrightarrow>
      pos + header_len g + unat l \<le> length data
      \<and> uadd w (pos + header_len g) (unat l) = pos + header_len g + unat l" for g l v
    using d(2) [of g] assms decode_unsigned_room(2) [OF assms(1), of "pos + header_len g" l v]
      uadd_room [OF assms(1), of "pos + header_len g" "unat l"] unat_u32_le [of l] by auto
  show "safe (decode_context_unsigned w data pos t)"
    using d(1) assms(2) u s
    by (auto simp: decode_context_unsigned_def Let_def intro!: safe_and_then)
  show "decode_context_unsigned w data pos t = Ok (v, q) \<Longrightarrow> pos \<le> q \<and> q \<le> length data"
    using assms(2) u l
    by (auto simp: decode_context_unsigned_def Let_def result_simps split: if_splits)
qed

lemma from_raw_safe: "safe (and_then (ok_or e x) (\<lambda>v. Ok (f v)))"
  by (cases x) auto

lemma decode_context_object_id_room:
  assumes "room w data" and "pos \<le> length data"
  shows "safe (decode_context_object_id w data pos t)"
    and "decode_context_object_id w data pos t = Ok (v, q) \<Longrightarrow> pos \<le> q \<and> q \<le> length data"
proof -
  note d = decode_tag_room [OF assms(1), of pos]
  have u: "decode_tag w data pos = Ok g \<Longrightarrow> uadd w pos (header_len g) = pos + header_len g" for g
    using d(2) [of g] assms uadd_room [OF assms(1), of pos "header_len g"] by auto
  have s: "decode_tag w data pos = Ok g \<Longrightarrow> safe (decode_unsigned w data (pos + header_len g) l)" for g l
    using d(2) [of g] assms decode_unsigned_room(1) [OF assms(1)] by auto
  have l: "decode_tag w data pos = Ok g \<Longrightarrow> decode_unsigned w data (pos + header_len g) 4 = Ok v \<Longrightarrow>
      pos + header_len g + 4 \<le> length data
      \<and> uadd w (pos + header_len g) 4 = pos + header_len g + 4" for g v
    using d(2) [of g] assms decode_unsigned_room(2) [OF assms(1), of "pos + header_len g" 4 v]
      uadd_room [OF assms(1), of "pos + header_len g" 4] by auto
  show "safe (decode_context_object_id w data pos t)"
    using d(1) assms(2) u s
    by (auto simp: decode_context_object_id_def Let_def intro!: safe_and_then from_raw_safe)
  show "decode_context_object_id w data pos t = Ok (v, q) \<Longrightarrow> pos \<le> q \<and> q \<le> length data"
    using assms(2) u l
    by (auto simp: decode_context_object_id_def Let_def result_simps split: if_splits)
qed

lemma expect_room:
  assumes "room w data" and "pos \<le> length data + 2 ^ 32 + 8"
  shows "safe (expect_opening_tag w data pos t)" "safe (expect_closing_tag w data pos t)"
    and "expect_opening_tag w data pos t = Ok q \<Longrightarrow> pos < q \<and> q \<le> length data"
    and "expect_closing_tag w data pos t = Ok q \<Longrightarrow> pos < q \<and> q \<le> length data"
proof -
  note d = decode_tag_room [OF assms]
  have u: "decode_tag w data pos = Ok g \<Longrightarrow> uadd w pos (header_len g) = pos + header_len g" for g
    using d(2) [of g] assms uadd_room [OF assms(1), of pos "header_len g"] by auto
  show "safe (expect_opening_tag w data pos t)" "safe (expect_closing_tag w data pos t)"
    using d(1) by (auto simp: expect_opening_tag_def expect_closing_tag_def intro!: safe_and_then)
  show "expect_opening_tag w data pos t = Ok q \<Longrightarrow> pos < q \<and> q \<le> length data"
    "expect_closing_tag w data pos t = Ok q \<Longrightarrow> pos < q \<and> q \<le> length data"
    using d(2) u by (force simp: expect_opening_tag_def expect_closing_tag_def result_simps
        split: if_splits)+
qed

lemma decode_app_value_room:
  assumes "room w data" and "pos \<le> length data" and "decode_app_value w data pos = Ok (v, q)"
  shows "pos < q \<and> q \<le> length data + 2 ^ 32 + 8"
proof -
  from assms(3) obtain g where g: "decode_tag w data pos = Ok g"
    by (auto simp: decode_app_value_def result_simps)
  have h: "1 \<le> header_len g" "header_len g \<le> 8" "pos + header_len g \<le> length data"
    using decode_tag_room(2) [OF assms(1) _ g] assms(2) by auto
  then have u: "uadd w pos (header_len g) = pos + header_len g"
    "uadd w (pos + header_len g) (unat (lvt g)) = pos + header_len g + unat (lvt g)"
    using uadd_room [OF assms(1)] assms(2) unat_u32_le [of "lvt g"] by auto
  have "q = pos + header_len g \<or> q = pos + header_len g + unat (lvt g)"
    using assms(3) unfolding decode_app_value_def g and_then.simps Let_def u
    by (auto simp: result_simps split: if_splits)
  with h unat_u32_le [of "lvt g"] show ?thesis by auto
qed

lemma require_Ok: "require r = Ok (v, p) \<longleftrightarrow> r = Ok (Some v, p)"
  by (cases r) (auto simp: require_def result_simps split: prod.splits)

lemma decode_cov_entry_room:
  assumes "room w data" and "pos \<le> length data" and "decode_cov_entry w data pos = Ok (e, q)"
  shows "pos < q \<and> q \<le> length data"
proof -
  from assms(3) obtain p1 p2 p3 p4 c x v where
    d: "decode_context_unsigned w data pos 0 = Ok (Some c, p1)"
    "decode_context_unsigned w data p1 1 = Ok (x, p2)"
    "expect_opening_tag w data p2 2 = Ok p3"
    "decode_app_value w data p3 = Ok (v, p4)"
    "expect_closing_tag w data p4 2 = Ok q"
    by (auto simp: decode_cov_entry_def result_simps require_Ok split: prod.splits)
  have "pos \<le> p1" "p1 \<le> length data"
    using decode_context_unsigned_room(2) [OF assms(1,2) d(1)] by auto
  moreover from this have "p1 \<le> p2" "p2 \<le> length data"
    using decode_context_unsigned_room(2) [OF assms(1) _ d(2)] by auto
  moreover from this have "p2 < p3" "p3 \<le> length data"
    using expect_room(3) [OF assms(1) _ d(3)] by auto
  moreover from this have "p3 < p4" "p4 \<le> length data + 2 ^ 32 + 8"
    using decode_app_value_room [OF assms(1) _ d(4)] by auto
  moreover from this have "p4 < q" "q \<le> length data"
    using expect_room(4) [OF assms(1) _ d(5)] by auto
  ultimately show ?thesis by linarith
qed

lemma decode_cov_values_returns:
  assumes "room w data"
  shows "pos \<le> length data \<Longrightarrow> decode_cov_values w data pos acc \<noteq> None"
proof (induction "length data - pos" arbitrary: pos acc rule: less_induct)
  case less
  show ?case
  proof (cases "decode_cov_entry w data pos")
    case (Ok eq)
    then obtain e q where eq: "decode_cov_entry w data pos = Ok (e, q)" by (cases eq) auto
    then have q: "pos < q" "q \<le> length data"
      using decode_cov_entry_room [OF assms less.prems] by auto
    then have "decode_cov_values w data q (vec_push_ignore 8 acc e) \<noteq> None"
      by (intro less.hyps) auto
    then show ?thesis
      using eq by (subst decode_cov_values.simps) simp
  next
    case (Err e)
    then show ?thesis by (subst decode_cov_values.simps) simp
  next
    case Panic
    then show ?thesis by (subst decode_cov_values.simps) simp
  qed
qed

lemma decode_ucov_returns:
  assumes "room w data"
  shows "decode_ucov_notification w data \<noteq> None"
proof -
  have "decode_cov_values w data q [] \<noteq> None" if "expect_opening_tag w data p 4 = Ok q" "p < length data"
    for p q
    using decode_cov_values_returns [OF assms] expect_room(3) [OF assms, of p 4 q] that by auto
  then show ?thesis
    unfolding decode_ucov_notification_def
    by (fastforce simp: result_simps split: result.splits prod.splits if_splits)
qed

lemma decode_apdu_some:
  assumes "length data + 2 ^ 34 \<le> 2 ^ w"
  shows "\<exists>r. decode_apdu w data = Some r"
proof -
  have "room w (drop 2 data)" using assms by (simp add: room_def)
  then have "\<exists>r. decode_ucov_notification w (drop 2 data) = Some r"
    using decode_ucov_returns by blast
  then show ?thesis
    by (auto simp: decode_apdu_def Let_def)
qed

text \<open>C7: with positions that do not wrap, \<open>decode_apdu\<close> returns on every input.\<close>

theorem decode_apdu_returns:
  assumes "length data + 2 ^ 34 \<le> 2 ^ w"
  shows "\<exists>r. decode_apdu w data = Some r"
  using assms by (rule decode_apdu_some)

lemma decode_apdu_returns_witness: "\<exists>r. decode_apdu 64 [0x10, 0x02, 0x09] = Some r"
  using decode_apdu_returns [of "[0x10, 0x02, 0x09]" 64] by simp

section \<open>A 32-bit pointer wraps\<close>

text \<open>
  A COV notification whose second entry carries an unknown application tag with the extended
  length \<open>0xFFFFFFF6\<close>. On the 32-bit target the position after that value wraps back by one
  byte before the entry, onto the closing tag of the entry before, so the same entry is read
  for ever.
\<close>

definition cov_loop_body :: bytes where
  "cov_loop_body =
     [0x09, 0x01, 0x1C, 0x02, 0x00, 0x00, 0x01, 0x2C, 0x00, 0x00, 0x00, 0x01, 0x39, 0x00, 0x4E,
      0x09, 0x55, 0x2E, 0x00, 0x2F,
      0x09, 0x55, 0x2E, 0x55, 0xFF, 0xFF, 0xFF, 0xFF, 0xF6]"

lemmas decode_eval = decode_cov_entry_def require_def decode_context_unsigned_def decode_tag_def
  dneed_def idx_def uadd_def Let_def decode_unsigned_def shift_loop.simps expect_opening_tag_def
  expect_closing_tag_def decode_app_value_def property_from_code_def of_be32_def

lemma cov_loop_entry:
  "decode_cov_entry 32 cov_loop_body 20 = Ok ((PresentValue, Null), 20)"
  "decode_cov_entry 32 cov_loop_body 15 = Ok ((PresentValue, Null), 20)"
  by (simp_all add: cov_loop_body_def decode_eval)

lemma cov_loop_not_closing:
  "\<not> is_closing_tag cov_loop_body 20 4" "\<not> is_closing_tag cov_loop_body 15 4"
  by (simp_all add: cov_loop_body_def is_closing_tag_def)

lemma cov_loop_diverges:
  "decode_cov_values w data pos acc = Some r \<Longrightarrow> \<not> (w = 32 \<and> data = cov_loop_body \<and> pos = 20)"
proof (erule decode_cov_values.raw_induct
    [where P = "\<lambda>w data pos acc r. \<not> (w = 32 \<and> data = cov_loop_body \<and> pos = 20)", rotated])
  fix f w data pos acc r
  assume ih: "\<And>w data pos acc r. f w data pos acc = Some r \<Longrightarrow>
      \<not> (w = 32 \<and> data = cov_loop_body \<and> pos = 20)"
    and step: "(if is_closing_tag data pos 4 then Some (Ok (acc, pos))
      else case decode_cov_entry w data pos of
             Ok (entry, pos') \<Rightarrow> f w data pos' (vec_push_ignore 8 acc entry)
           | Err e \<Rightarrow> Some (Err e) | Panic \<Rightarrow> Some Panic) = Some r"
  show "\<not> (w = 32 \<and> data = cov_loop_body \<and> pos = 20)"
  proof
    assume a: "w = 32 \<and> data = cov_loop_body \<and> pos = 20"
    have "f 32 cov_loop_body 20 (vec_push_ignore 8 acc (PresentValue, Null)) = Some r"
      using step a cov_loop_entry cov_loop_not_closing by simp
    with ih show False by blast
  qed
qed

text \<open>C25: on the 32-bit target \<open>decode_apdu\<close> does not return on this notification.\<close>

theorem decode_apdu_32_diverges: "decode_apdu 32 ([0x10, 0x02] @ cov_loop_body) = None"
proof -
  have n: "decode_cov_values 32 cov_loop_body 20 acc = None" for acc
    using cov_loop_diverges [of 32 cov_loop_body 20 acc] by (cases "decode_cov_values 32 cov_loop_body 20 acc") auto
  have "decode_cov_values 32 cov_loop_body 15 [] = None"
    using cov_loop_entry cov_loop_not_closing n by (subst decode_cov_values.simps) simp
  moreover have "decode_context_unsigned 32 cov_loop_body 0 0 = Ok (Some 1, 2)"
    "decode_context_object_id 32 cov_loop_body 2 1 = Ok (Some \<lparr>object_type = Device, instance_no = 1\<rparr>, 7)"
    "decode_context_object_id 32 cov_loop_body 7 2 = Ok (Some \<lparr>object_type = AnalogInput, instance_no = 1\<rparr>, 12)"
    "decode_context_unsigned 32 cov_loop_body 12 3 = Ok (Some 0, 14)"
    "expect_opening_tag 32 cov_loop_body 14 4 = Ok 15" "length cov_loop_body = 29"
    by (simp_all add: cov_loop_body_def decode_eval decode_context_object_id_def from_raw_def
        object_type_from_code_def)
  ultimately have "decode_ucov_notification 32 cov_loop_body = None"
    by (simp add: decode_ucov_notification_def require_def)
  then show ?thesis
    by (simp add: decode_apdu_def apdu_consts)
qed

text \<open>
  A zero-length signed integer at the end of the data is indexed out of range, at any
  pointer width.
\<close>

theorem decode_apdu_signed_panics:
  "decode_apdu 64 [0x30, 0x01, 0x0C, 0x0C, 0x00, 0x00, 0x00, 0x01, 0x19, 0x55, 0x3E, 0x30] = Some Panic"
  by (simp add: decode_apdu_def apdu_consts decode_read_property_ack_def decode_eval
      decode_context_object_id_def from_raw_def object_type_from_code_def decode_signed_def)

section \<open>Requests never panic\<close>

text \<open>A step that does not panic and leaves the position inside the data.\<close>

definition bounded :: "nat \<Rightarrow> (DecodeError, 'a \<times> nat) result \<Rightarrow> bool" where
  "bounded n m \<longleftrightarrow> safe m \<and> (\<forall>v q. m = Ok (v, q) \<longrightarrow> q \<le> n)"

lemma bounded_then:
  "bounded n m \<Longrightarrow> (\<And>v q. q \<le> n \<Longrightarrow> safe (k v q)) \<Longrightarrow> safe (and_then m (\<lambda>(v, q). k v q))"
  by (cases m) (auto simp: bounded_def safe_def)

lemma bounded_require: "bounded n m \<Longrightarrow> bounded n (require m)"
proof (cases m)
  case (Ok x)
  obtain v q where "x = (v, q)" by (cases x)
  then show "bounded n m \<Longrightarrow> bounded n (require m)"
    by (cases v) (auto simp: Ok bounded_def require_def)
qed (auto simp: bounded_def require_def)

lemma bounded_room:
  assumes "room w data" and "pos \<le> length data"
  shows "bounded (length data) (decode_context_unsigned w data pos t)"
    and "bounded (length data) (decode_context_object_id w data pos t)"
  using decode_context_unsigned_room [OF assms] decode_context_object_id_room [OF assms]
  by (auto simp: bounded_def)



end
