(* ===== verification/Npdu.thy ===== *)
theory Npdu
  imports Codec
begin

text \<open>
  The network layer, \<open>bridge-core/src/npdu.rs\<close>: the NPDU header, \<open>encode_npdu\<close> and
  \<open>decode_npdu\<close>. An \<open>[u8; 7]\<close> address is a byte list of length 7 (\<open>mac_array\<close>); the decoder
  returns the header with the slice that holds the APDU.
\<close>

section \<open>Header\<close>

definition NPDU_VERSION :: u8 where "NPDU_VERSION = 0x01"
definition CTRL_NET_LAYER_MSG :: u8 where "CTRL_NET_LAYER_MSG = 0x80"
definition CTRL_DEST_PRESENT :: u8 where "CTRL_DEST_PRESENT = 0x20"
definition CTRL_SRC_PRESENT :: u8 where "CTRL_SRC_PRESENT = 0x08"
definition CTRL_EXPECTING_REPLY :: u8 where "CTRL_EXPECTING_REPLY = 0x04"
definition CTRL_PRIORITY_MASK :: u8 where "CTRL_PRIORITY_MASK = 0x03"
definition MAX_MAC_LEN :: nat where "MAX_MAC_LEN = 7"

lemmas npdu_consts = NPDU_VERSION_def CTRL_NET_LAYER_MSG_def CTRL_DEST_PRESENT_def
  CTRL_SRC_PRESENT_def CTRL_EXPECTING_REPLY_def CTRL_PRIORITY_MASK_def MAX_MAC_LEN_def

record NpduHeader =
  version :: u8
  is_network_layer_msg :: bool
  dest_present :: bool
  dest_net :: u16
  dest_mac :: bytes
  dest_mac_len :: u8
  src_present :: bool
  src_net :: u16
  src_mac :: bytes
  src_mac_len :: u8
  hop_count :: u8
  expecting_reply :: bool
  priority :: u8

definition npdu_local :: "bool \<Rightarrow> NpduHeader" where
  "npdu_local reply =
     \<lparr>version = NPDU_VERSION, is_network_layer_msg = False, dest_present = False, dest_net = 0,
      dest_mac = replicate MAX_MAC_LEN 0, dest_mac_len = 0, src_present = False, src_net = 0,
      src_mac = replicate MAX_MAC_LEN 0, src_mac_len = 0, hop_count = 0,
      expecting_reply = reply, priority = 0\<rparr>"

section \<open>Encoding\<close>

definition npdu_ctrl :: "NpduHeader \<Rightarrow> u8" where
  "npdu_ctrl h =
     (if is_network_layer_msg h then CTRL_NET_LAYER_MSG else 0)
     OR (if dest_present h then CTRL_DEST_PRESENT else 0)
     OR (if src_present h then CTRL_SRC_PRESENT else 0)
     OR (if expecting_reply h then CTRL_EXPECTING_REPLY else 0)
     OR (priority h AND CTRL_PRIORITY_MASK)"

definition npdu_needed :: "NpduHeader \<Rightarrow> bytes \<Rightarrow> nat" where
  "npdu_needed h apdu =
     2 + (if dest_present h then 2 + 1 + unat (dest_mac_len h) else 0)
     + (if src_present h then 2 + 1 + unat (src_mac_len h) else 0)
     + (if dest_present h then 1 else 0) + length apdu"

text \<open>One address specifier: the network, the length, and that many bytes of the array.\<close>

definition encode_address :: "u16 \<Rightarrow> bytes \<Rightarrow> u8 \<Rightarrow> writer" where
  "encode_address net mac mac_len buf pos =
     (let n = unat mac_len in
      and_then (put buf pos [ucast (drop_bit 8 net), ucast net, of_nat n]) (\<lambda>buf.
      let pos = pos + 3 in
      and_then (subslice mac 0 n) (\<lambda>src.
      and_then (copy_at buf pos (pos + n) src) (\<lambda>buf. Ok (buf, pos + n)))))"

definition encode_npdu :: "NpduHeader \<Rightarrow> bytes \<Rightarrow> bytes \<Rightarrow> (EncodeError, bytes \<times> nat) result" where
  "encode_npdu h apdu buf =
     (if dest_present h \<and> unat (dest_mac_len h) > MAX_MAC_LEN then Err InvalidValue
      else if src_present h \<and> unat (src_mac_len h) > MAX_MAC_LEN then Err InvalidValue
      else if length buf < npdu_needed h apdu then Err BufferTooSmall
      else
        and_then (put buf 0 [NPDU_VERSION, npdu_ctrl h]) (\<lambda>buf.
        and_then (if dest_present h
                  then encode_address (dest_net h) (dest_mac h) (dest_mac_len h) buf 2
                  else Ok (buf, 2)) (\<lambda>(buf, pos).
        and_then (if src_present h
                  then encode_address (src_net h) (src_mac h) (src_mac_len h) buf pos
                  else Ok (buf, pos)) (\<lambda>(buf, pos).
        and_then (if dest_present h
                  then and_then (put buf pos [hop_count h]) (\<lambda>buf. Ok (buf, pos + 1))
                  else Ok (buf, pos)) (\<lambda>(buf, pos).
        and_then (copy_at buf pos (pos + length apdu) apdu) (\<lambda>buf.
          Ok (buf, pos + length apdu)))))))"

section \<open>Decoding\<close>

text \<open>
  One address specifier: the network, the address array (the bytes read, then the zeros the
  array was initialised with), the length, and the position after it.
\<close>

definition decode_address :: "bytes \<Rightarrow> nat \<Rightarrow> (DecodeError, u16 \<times> bytes \<times> u8 \<times> nat) result" where
  "decode_address data pos =
     (if length data < pos + 3 then Err UnexpectedEnd
      else
        and_then (idx data pos) (\<lambda>b1.
        and_then (idx data (pos + 1)) (\<lambda>b0.
        and_then (idx data (pos + 2)) (\<lambda>len.
        let n = unat len; pos = pos + 3 in
        if n > MAX_MAC_LEN then Err InvalidData
        else if length data < pos + n then Err UnexpectedEnd
        else
          and_then (subslice data pos (pos + n)) (\<lambda>src.
          and_then (copy_at (replicate MAX_MAC_LEN 0) 0 n src) (\<lambda>mac.
            Ok (of_be16 b1 b0, mac, of_nat n, pos + n)))))))"

definition decode_npdu :: "bytes \<Rightarrow> (DecodeError, NpduHeader \<times> bytes) result" where
  "decode_npdu data =
     (if length data < 2 then Err UnexpectedEnd
      else if data ! 0 \<noteq> NPDU_VERSION then Err InvalidVersion
      else
        let ctrl = data ! 1;
            header = \<lparr>version = data ! 0,
              is_network_layer_msg = (ctrl AND CTRL_NET_LAYER_MSG \<noteq> 0),
              dest_present = (ctrl AND CTRL_DEST_PRESENT \<noteq> 0), dest_net = 0,
              dest_mac = replicate MAX_MAC_LEN 0, dest_mac_len = 0,
              src_present = (ctrl AND CTRL_SRC_PRESENT \<noteq> 0), src_net = 0,
              src_mac = replicate MAX_MAC_LEN 0, src_mac_len = 0, hop_count = 0,
              expecting_reply = (ctrl AND CTRL_EXPECTING_REPLY \<noteq> 0),
              priority = ctrl AND CTRL_PRIORITY_MASK\<rparr> in
        and_then
          (if dest_present header then
             and_then (decode_address data 2) (\<lambda>(net, mac, len, pos).
               Ok (header\<lparr>dest_net := net, dest_mac := mac, dest_mac_len := len\<rparr>, pos))
           else Ok (header, 2)) (\<lambda>(header, pos).
        and_then
          (if src_present header then
             and_then (decode_address data pos) (\<lambda>(net, mac, len, pos).
               Ok (header\<lparr>src_net := net, src_mac := mac, src_mac_len := len\<rparr>, pos))
           else Ok (header, pos)) (\<lambda>(header, pos).
        and_then
          (if dest_present header then
             (if length data < pos + 1 then Err UnexpectedEnd
              else and_then (idx data pos) (\<lambda>b. Ok (header\<lparr>hop_count := b\<rparr>, pos + 1)))
           else Ok (header, pos)) (\<lambda>(header, pos).
        and_then (subslice data pos (length data)) (\<lambda>apdu. Ok (header, apdu))))))"

section \<open>Wire format\<close>

definition wire_address :: "u16 \<Rightarrow> bytes \<Rightarrow> u8 \<Rightarrow> bytes" where
  "wire_address net mac mac_len =
     ucast (drop_bit 8 net) # ucast net # mac_len # take (unat mac_len) mac"

definition wire_npdu :: "NpduHeader \<Rightarrow> bytes \<Rightarrow> bytes" where
  "wire_npdu h apdu = [NPDU_VERSION, npdu_ctrl h]
     @ (if dest_present h then wire_address (dest_net h) (dest_mac h) (dest_mac_len h) else [])
     @ (if src_present h then wire_address (src_net h) (src_mac h) (src_mac_len h) else [])
     @ (if dest_present h then [hop_count h] else []) @ apdu"

text \<open>The headers of the Rust type: seven-byte arrays.\<close>

definition mac_arrays :: "NpduHeader \<Rightarrow> bool" where
  "mac_arrays h \<longleftrightarrow> length (dest_mac h) = MAX_MAC_LEN \<and> length (src_mac h) = MAX_MAC_LEN"

text \<open>
  The headers a decoder can produce: version 1, a priority of two bits, an address array that
  is zero past its length, and nothing set in an absent address.
\<close>

definition mac_ok :: "bytes \<Rightarrow> u8 \<Rightarrow> bool" where
  "mac_ok mac n \<longleftrightarrow> length mac = MAX_MAC_LEN \<and> unat n \<le> MAX_MAC_LEN
     \<and> drop (unat n) mac = replicate (MAX_MAC_LEN - unat n) 0"

definition canonical_npdu :: "NpduHeader \<Rightarrow> bool" where
  "canonical_npdu h \<longleftrightarrow> version h = NPDU_VERSION \<and> priority h AND CTRL_PRIORITY_MASK = priority h
     \<and> mac_ok (dest_mac h) (dest_mac_len h) \<and> mac_ok (src_mac h) (src_mac_len h)
     \<and> (\<not> dest_present h \<longrightarrow> dest_net h = 0 \<and> dest_mac_len h = 0 \<and> hop_count h = 0)
     \<and> (\<not> src_present h \<longrightarrow> src_net h = 0 \<and> src_mac_len h = 0)"

lemma encode_address_emit:
  "length mac = MAX_MAC_LEN \<Longrightarrow> unat n \<le> MAX_MAC_LEN \<Longrightarrow>
   pos + 3 + unat n \<le> length buf \<Longrightarrow>
   encode_address net mac n buf pos = emit (wire_address net mac n) buf pos"
  using overwrite_overwrite [of pos "[ucast (drop_bit 8 net), ucast net, n]" "take (unat n) mac" buf]
  by (simp add: encode_address_def Let_def subslice_def put_eq copy_at_eq emit_def wire_address_def
      min_def numeral_3_eq_3)

lemma wire_npdu_length:
  "mac_arrays h \<Longrightarrow> \<not> (dest_present h \<and> unat (dest_mac_len h) > MAX_MAC_LEN) \<Longrightarrow>
   \<not> (src_present h \<and> unat (src_mac_len h) > MAX_MAC_LEN) \<Longrightarrow>
   length (wire_npdu h apdu) = npdu_needed h apdu"
  by (auto simp: wire_npdu_def npdu_needed_def wire_address_def mac_arrays_def min_def)

section \<open>Encoder\<close>

lemma encode_npdu_emit:
  assumes "mac_arrays h" and "\<not> (dest_present h \<and> unat (dest_mac_len h) > MAX_MAC_LEN)"
    and "\<not> (src_present h \<and> unat (src_mac_len h) > MAX_MAC_LEN)"
  shows "encode_npdu h apdu buf = emit (wire_npdu h apdu) buf 0"
proof (cases "length buf < npdu_needed h apdu")
  case True
  have "wire_npdu h apdu \<noteq> []" by (simp add: wire_npdu_def)
  with True assms wire_npdu_length [OF assms] show ?thesis
    by (auto simp: encode_npdu_def emit_def)
next
  case False
  define v where "v = [NPDU_VERSION, npdu_ctrl h]"
  define d where "d = (if dest_present h then wire_address (dest_net h) (dest_mac h) (dest_mac_len h) else [])"
  define s where "s = (if src_present h then wire_address (src_net h) (src_mac h) (src_mac_len h) else [])"
  define c where "c = (if dest_present h then [hop_count h] else [])"
  define fd where "fd = (\<lambda>b p. if dest_present h
    then encode_address (dest_net h) (dest_mac h) (dest_mac_len h) b p else Ok (b, p))"
  define fs where "fs = (\<lambda>b p. if src_present h
    then encode_address (src_net h) (src_mac h) (src_mac_len h) b p else Ok (b, p))"
  define fc where "fc = (\<lambda>b p. if dest_present h
    then and_then (put b p [hop_count h]) (\<lambda>b. Ok (b, p + 1)) else (Ok (b, p) :: (EncodeError, bytes \<times> nat) result))"
  define fa where "fa = (\<lambda>b p. and_then (copy_at b p (p + length apdu) apdu)
    (\<lambda>b. Ok (b, p + length apdu) :: (EncodeError, bytes \<times> nat) result))"
  have w: "wire_npdu h apdu = v @ d @ s @ c @ apdu"
    by (simp add: wire_npdu_def v_def d_def s_def c_def)
  have l: "length v + length d + length s + length c + length apdu \<le> length buf"
    using False wire_npdu_length [OF assms, of apdu] by (simp add: w)
  have "fd b (length v) = emit d b (length v)" if "length b = length buf" for b
    using that l assms encode_address_emit [of "dest_mac h" "dest_mac_len h" "length v" b "dest_net h"]
    by (auto simp: fd_def d_def mac_arrays_def wire_address_def)
  note d = emit_step [where f = fd and as = v and pos = 0 and buf = buf, simplified, OF this]
  have "fs b (length (v @ d)) = emit s b (length (v @ d))" if "length b = length buf" for b
    using that l assms encode_address_emit [of "src_mac h" "src_mac_len h" "length (v @ d)" b "src_net h"]
    by (auto simp: fs_def s_def mac_arrays_def wire_address_def)
  note s = emit_step [where f = fs and as = "v @ d" and pos = 0 and buf = buf, simplified, OF this [simplified]]
  have "fc b (length (v @ d @ s)) = emit c b (length (v @ d @ s))" if "length b = length buf" for b
    using that l by (auto simp: fc_def c_def put_eq emit_def)
  note c = emit_step [where f = fc and as = "v @ d @ s" and pos = 0 and buf = buf, simplified, OF this [simplified]]
  have "fa b (length (v @ d @ s @ c)) = emit apdu b (length (v @ d @ s @ c))" if "length b = length buf" for b
    using that l by (auto simp: fa_def copy_at_eq emit_def)
  note a = emit_step [where f = fa and as = "v @ d @ s @ c" and pos = 0 and buf = buf and k = Ok, simplified,
      OF this [simplified]]
  have "encode_npdu h apdu buf = and_then (emit v buf 0) (\<lambda>(b, p). and_then (fd b p) (\<lambda>(b, p).
      and_then (fs b p) (\<lambda>(b, p). and_then (fc b p) (\<lambda>(b, p). fa b p))))"
    using False assms l
    by (auto simp: encode_npdu_def emit_def put_eq fd_def fs_def fc_def fa_def v_def
        numeral_2_eq_2)
  also have "\<dots> = emit (wire_npdu h apdu) buf 0"
    using l by (simp only: w d s c a)
  finally show ?thesis .
qed

section \<open>Decoder\<close>

lemma length_wire_address:
  "length mac = MAX_MAC_LEN \<Longrightarrow> unat n \<le> MAX_MAC_LEN \<Longrightarrow> length (wire_address net mac n) = 3 + unat n"
  by (simp add: wire_address_def)

lemma decode_address_at:
  assumes "at data pos (wire_address net mac n)" and "mac_ok mac n"
  shows "decode_address data pos = Ok (net, mac, n, pos + length (wire_address net mac n))"
proof -
  have l: "length mac = MAX_MAC_LEN" "unat n \<le> MAX_MAC_LEN"
    and z: "take (unat n) mac @ replicate (MAX_MAC_LEN - unat n) 0 = mac"
    using assms(2) by (auto simp: mac_ok_def) (metis append_take_drop_id)
  have b: "at data (pos + 3) (take (unat n) mac)" "pos + 3 + unat n \<le> length data"
    using assms(1) at_length [OF assms(1)] l
    by (auto simp: wire_address_def at_Cons numeral_3_eq_3)
  have s: "subslice data (pos + 3) (pos + 3 + unat n) = (Ok (take (unat n) mac) :: (DecodeError, bytes) result)"
    by (rule at_slice [OF b(1)]) (use l in simp)
  have c: "copy_at (replicate MAX_MAC_LEN 0) 0 (unat n) (take (unat n) mac)
      = (Ok mac :: (DecodeError, bytes) result)"
    using l z by (simp add: copy_at_def min_def drop_replicate)
  show ?thesis
    using assms(1) b s c l
    by (simp add: decode_address_def wire_address_def at_Cons idx_def Let_def numeral_3_eq_3)
qed

lemma ctrl_bits:
  "npdu_ctrl h AND CTRL_NET_LAYER_MSG \<noteq> 0 \<longleftrightarrow> is_network_layer_msg h"
  "npdu_ctrl h AND CTRL_DEST_PRESENT \<noteq> 0 \<longleftrightarrow> dest_present h"
  "npdu_ctrl h AND CTRL_SRC_PRESENT \<noteq> 0 \<longleftrightarrow> src_present h"
  "npdu_ctrl h AND CTRL_EXPECTING_REPLY \<noteq> 0 \<longleftrightarrow> expecting_reply h"
  "npdu_ctrl h AND CTRL_PRIORITY_MASK = priority h AND CTRL_PRIORITY_MASK"
proof -
  have m: "m AND (p AND 3) = (m AND 3) AND p" for m p :: u8
    by (simp add: ac_simps)
  show "npdu_ctrl h AND CTRL_NET_LAYER_MSG \<noteq> 0 \<longleftrightarrow> is_network_layer_msg h"
    "npdu_ctrl h AND CTRL_DEST_PRESENT \<noteq> 0 \<longleftrightarrow> dest_present h"
    "npdu_ctrl h AND CTRL_SRC_PRESENT \<noteq> 0 \<longleftrightarrow> src_present h"
    "npdu_ctrl h AND CTRL_EXPECTING_REPLY \<noteq> 0 \<longleftrightarrow> expecting_reply h"
    "npdu_ctrl h AND CTRL_PRIORITY_MASK = priority h AND CTRL_PRIORITY_MASK"
    by (auto simp: npdu_ctrl_def npdu_consts bit.conj_disj_distrib2 bit.conj_disj_distrib and.assoc m)
qed

lemma drop_at_end: "at data pos bs \<Longrightarrow> pos + length bs = length data \<Longrightarrow>
   subslice data pos (length data) = Ok bs"
  by (rule at_slice) simp_all

lemma decode_wire_npdu:
  assumes "canonical_npdu h"
  shows "decode_npdu (wire_npdu h apdu) = Ok (h, apdu)"
proof -
  let ?w = "wire_npdu h apdu"
  let ?d = "if dest_present h then wire_address (dest_net h) (dest_mac h) (dest_mac_len h) else []"
  let ?s = "if src_present h then wire_address (src_net h) (src_mac h) (src_mac_len h) else []"
  let ?c = "if dest_present h then [hop_count h] else []"
  have w: "?w = [NPDU_VERSION, npdu_ctrl h] @ ?d @ ?s @ ?c @ apdu"
    by (simp add: wire_npdu_def)
  have a: "at ?w 2 ?d" "at ?w (2 + length ?d) ?s" "at ?w (2 + length ?d + length ?s) ?c"
    "at ?w (2 + length ?d + length ?s + length ?c) apdu"
    using at_suffix [of "[NPDU_VERSION, npdu_ctrl h]" "?d @ ?s @ ?c @ apdu"]
    by (simp_all only: w at_append) (simp_all add: add.assoc numeral_2_eq_2)
  have l: "2 + length ?d + length ?s + length ?c + length apdu = length ?w"
    by (simp add: w)
  have m: "mac_ok (dest_mac h) (dest_mac_len h)" "mac_ok (src_mac h) (src_mac_len h)"
    using assms by (simp_all add: canonical_npdu_def)
  have d: "dest_present h \<Longrightarrow> decode_address ?w 2 =
      Ok (dest_net h, dest_mac h, dest_mac_len h, 2 + length ?d)"
    using decode_address_at [OF _ m(1), of ?w 2 "dest_net h"] a(1) by simp
  have s: "src_present h \<Longrightarrow> decode_address ?w (2 + length ?d) =
      Ok (src_net h, src_mac h, src_mac_len h, 2 + length ?d + length ?s)"
    using decode_address_at [OF _ m(2), of ?w "2 + length ?d" "src_net h"] a(2) by simp
  have c: "dest_present h \<Longrightarrow> idx ?w (2 + length ?d + length ?s) = (Ok (hop_count h) :: (DecodeError, u8) result)"
    "dest_present h \<Longrightarrow> 2 + length ?d + length ?s + 1 \<le> length ?w"
    using a(3) l by (simp_all add: at_idx)
  have e: "subslice ?w (2 + length ?d + length ?s + length ?c) (length ?w) = (Ok apdu :: (DecodeError, bytes) result)"
    using drop_at_end [OF a(4) l] .
  have h: "?w ! 0 = NPDU_VERSION" "?w ! 1 = npdu_ctrl h" "\<not> length ?w < 2"
    by (simp_all add: w)
  show ?thesis
    using h d s c e ctrl_bits [of h] assms
    by (cases "dest_present h"; cases "src_present h")
      (auto simp: decode_npdu_def Let_def canonical_npdu_def mac_ok_def)
qed

lemma decode_address_post:
  "post (\<lambda>(net, mac, n, q). mac_ok mac n \<and> pos \<le> q \<and> q \<le> length data) (decode_address data pos)"
  by (auto simp: decode_address_def Let_def idx_def subslice_def copy_at_def mac_ok_def drop_replicate)

definition npdu_stage :: "bytes \<Rightarrow> NpduHeader \<Rightarrow> NpduHeader \<times> nat \<Rightarrow> bool" where
  "npdu_stage data h0 = (\<lambda>(h, pos). canonical_npdu h \<and> dest_present h = dest_present h0
     \<and> src_present h = src_present h0 \<and> pos \<le> length data)"

lemma decode_npdu_post:
  "post (\<lambda>(h, apdu). canonical_npdu h \<and> (\<exists>p. apdu = drop p data)) (decode_npdu data)"
proof -
  let ?ctrl = "data ! 1"
  define h0 where "h0 = \<lparr>version = data ! 0,
      is_network_layer_msg = (?ctrl AND CTRL_NET_LAYER_MSG \<noteq> 0),
      dest_present = (?ctrl AND CTRL_DEST_PRESENT \<noteq> 0), dest_net = 0,
      dest_mac = replicate MAX_MAC_LEN 0, dest_mac_len = 0,
      src_present = (?ctrl AND CTRL_SRC_PRESENT \<noteq> 0), src_net = 0,
      src_mac = replicate MAX_MAC_LEN 0, src_mac_len = 0, hop_count = 0,
      expecting_reply = (?ctrl AND CTRL_EXPECTING_REPLY \<noteq> 0), priority = ?ctrl AND CTRL_PRIORITY_MASK\<rparr>"
  have c0: "data ! 0 = NPDU_VERSION \<Longrightarrow> canonical_npdu h0"
    by (simp add: h0_def canonical_npdu_def mac_ok_def and.assoc)
  show ?thesis
    unfolding decode_npdu_def Let_def h0_def [symmetric]
  proof (intro post_if post_simps)
    assume l: "\<not> length data < 2" and v: "\<not> data ! 0 \<noteq> NPDU_VERSION"
    show "post (\<lambda>(h, apdu). canonical_npdu h \<and> (\<exists>p. apdu = drop p data))
      (and_then (if dest_present h0 then and_then (decode_address data 2)
          (\<lambda>(net, mac, len, pos). Ok (h0\<lparr>dest_net := net, dest_mac := mac, dest_mac_len := len\<rparr>, pos))
        else Ok (h0, 2)) (\<lambda>(header, pos).
      and_then (if src_present header then and_then (decode_address data pos)
          (\<lambda>(net, mac, len, pos). Ok (header\<lparr>src_net := net, src_mac := mac, src_mac_len := len\<rparr>, pos))
        else Ok (header, pos)) (\<lambda>(header, pos).
      and_then (if dest_present header then if length data < pos + 1 then Err UnexpectedEnd
          else and_then (idx data pos) (\<lambda>b. Ok (header\<lparr>hop_count := b\<rparr>, pos + 1))
        else Ok (header, pos)) (\<lambda>(header, pos).
      and_then (subslice data pos (length data)) (\<lambda>apdu. Ok (header, apdu))))))"
    proof (rule post_then [where Q = "npdu_stage data h0"])
      show "post (npdu_stage data h0) (if dest_present h0 then and_then (decode_address data 2)
          (\<lambda>(net, mac, len, pos). Ok (h0\<lparr>dest_net := net, dest_mac := mac, dest_mac_len := len\<rparr>, pos))
        else Ok (h0, 2))"
        using c0 v l by (auto simp: npdu_stage_def canonical_npdu_def intro!: post_then [OF decode_address_post])
    qed (auto simp: npdu_stage_def canonical_npdu_def idx_def subslice_def
        intro!: post_then [OF decode_address_post] post_then [where Q = "npdu_stage data h0"] post_if)
  qed
qed

text \<open>
  \<open>decode_npdu\<close> never panics, and a header it returns is canonical, with the APDU the rest
  of the packet.
\<close>

theorem decode_npdu_total:
  "decode_npdu data \<noteq> Panic
   \<and> (\<forall>h apdu. decode_npdu data = Ok (h, apdu) \<longrightarrow> canonical_npdu h \<and> (\<exists>pre. data = pre @ apdu))"
proof (intro conjI allI impI)
  fix h apdu assume "decode_npdu data = Ok (h, apdu)"
  with decode_npdu_post [of data] obtain p where "canonical_npdu h" "apdu = drop p data" by auto
  then show "canonical_npdu h" "\<exists>pre. data = pre @ apdu"
    using append_take_drop_id [of p data, symmetric] by blast+
qed (use decode_npdu_post [of data] in \<open>simp add: post_def\<close>)

definition sample_npdu :: NpduHeader where
  "sample_npdu = (npdu_local True)\<lparr>dest_present := True, dest_net := 0xFFFF, hop_count := 255,
     src_present := True, src_net := 1, src_mac := [5, 0, 0, 0, 0, 0, 0], src_mac_len := 1\<rparr>"

lemma sample_npdu_canonical: "canonical_npdu sample_npdu"
  by (simp add: sample_npdu_def canonical_npdu_def npdu_local_def npdu_consts mac_ok_def
      numeral_eq_Suc)

lemma decode_npdu_total_witness:
  "canonical_npdu sample_npdu \<and> decode_npdu [0x02, 0x00] \<noteq> Panic"
  using decode_npdu_total [of "wire_npdu sample_npdu [0x10, 0x08]"]
    decode_wire_npdu [OF sample_npdu_canonical] decode_npdu_total [of "[0x02, 0x00]"] by blast

lemma canonical_mac_arrays: "canonical_npdu h \<Longrightarrow> mac_arrays h"
  by (simp add: canonical_npdu_def mac_arrays_def mac_ok_def)

text \<open>
  C12: every canonical header and every payload survive \<open>encode_npdu\<close> then \<open>decode_npdu\<close>.
\<close>

theorem npdu_roundtrip:
  assumes "canonical_npdu h" and "encode_npdu h apdu buf = Ok (buf', n)"
  shows "decode_npdu (take n buf') = Ok (h, apdu)"
proof -
  have "encode_npdu h apdu buf = emit (wire_npdu h apdu) buf 0"
    by (rule encode_npdu_emit)
      (use assms(1) in \<open>auto simp: canonical_npdu_def mac_ok_def mac_arrays_def\<close>)
  with assms(2) emit_take [of "wire_npdu h apdu" buf buf' n] have "take n buf' = wire_npdu h apdu"
    by argo
  with decode_wire_npdu [OF assms(1)] show ?thesis by simp
qed

lemma npdu_roundtrip_witness:
  "\<exists>buf' n. encode_npdu sample_npdu [0x10, 0x08] (replicate 32 0) = Ok (buf', n)
     \<and> decode_npdu (take n buf') = Ok (sample_npdu, [0x10, 0x08])"
proof -
  have "encode_npdu sample_npdu [0x10, 0x08] (replicate 32 0) =
      emit (wire_npdu sample_npdu [0x10, 0x08]) (replicate 32 0) 0"
    by (rule encode_npdu_emit)
      (simp_all add: sample_npdu_def npdu_local_def npdu_consts mac_arrays_def)
  moreover have "length (wire_npdu sample_npdu [0x10, 0x08]) \<le> 32"
    by (simp add: wire_npdu_def sample_npdu_def npdu_local_def wire_address_def)
  ultimately have e: "\<exists>buf' n. encode_npdu sample_npdu [0x10, 0x08] (replicate 32 0) = Ok (buf', n)"
    by (simp add: emit_def)
  then obtain buf' n where "encode_npdu sample_npdu [0x10, 0x08] (replicate 32 0) = Ok (buf', n)" by blast
  with npdu_roundtrip [OF sample_npdu_canonical this] show ?thesis by blast
qed

end
