(* ===== verification/Bvlc.thy ===== *)
theory Bvlc
  imports Codec
begin

text \<open>
  The BACnet/IP link layer, \<open>bridge-core/src/bvlc.rs\<close>: \<open>encode_bvlc\<close> and \<open>decode_bvlc\<close>.
\<close>

definition BVLC_TYPE :: u8 where "BVLC_TYPE = 0x81"
definition BACNET_IP_PORT :: u16 where "BACNET_IP_PORT = 0xBAC0"
definition BVLC_ORIGINAL_UNICAST :: u8 where "BVLC_ORIGINAL_UNICAST = 0x0A"
definition BVLC_ORIGINAL_BROADCAST :: u8 where "BVLC_ORIGINAL_BROADCAST = 0x0B"
definition BVLC_FORWARDED_NPDU :: u8 where "BVLC_FORWARDED_NPDU = 0x04"
definition BVLC_HEADER_SIZE :: nat where "BVLC_HEADER_SIZE = 4"
definition FORWARDED_EXTRA :: nat where "FORWARDED_EXTRA = 6"

lemmas bvlc_consts = BVLC_TYPE_def BVLC_ORIGINAL_UNICAST_def BVLC_ORIGINAL_BROADCAST_def
  BVLC_FORWARDED_NPDU_def BVLC_HEADER_SIZE_def FORWARDED_EXTRA_def

record BvlcHeader =
  bvlc_function :: u8
  bvlc_length :: u16

definition encode_bvlc :: "u8 \<Rightarrow> bytes \<Rightarrow> bytes \<Rightarrow> (EncodeError, bytes \<times> nat) result" where
  "encode_bvlc func npdu buf =
     (let total = BVLC_HEADER_SIZE + length npdu in
      if total > 65535 then Err InvalidValue
      else if length buf < total then Err BufferTooSmall
      else
        and_then (put buf 0 [BVLC_TYPE, func, of_nat (total div 256), of_nat total]) (\<lambda>buf.
        and_then (copy_at buf BVLC_HEADER_SIZE total npdu) (\<lambda>buf. Ok (buf, total))))"

definition decode_bvlc :: "bytes \<Rightarrow> (DecodeError, BvlcHeader \<times> bytes) result" where
  "decode_bvlc data =
     (if length data < BVLC_HEADER_SIZE then Err UnexpectedEnd
      else if data ! 0 \<noteq> BVLC_TYPE then Err InvalidVersion
      else
        let func = data ! 1; len = of_be16 (data ! 2) (data ! 3) in
        if unat len > length data then Err LengthOutOfBounds
        else
          let header = \<lparr>bvlc_function = func, bvlc_length = len\<rparr> in
          and_then
            (if func = BVLC_FORWARDED_NPDU then
               (if unat len < BVLC_HEADER_SIZE + FORWARDED_EXTRA then Err UnexpectedEnd
                else Ok (BVLC_HEADER_SIZE + FORWARDED_EXTRA))
             else Ok BVLC_HEADER_SIZE) (\<lambda>npdu_start.
          and_then (subslice data npdu_start (unat len)) (\<lambda>npdu. Ok (header, npdu))))"

definition wire_bvlc :: "u8 \<Rightarrow> bytes \<Rightarrow> bytes" where
  "wire_bvlc func npdu = BVLC_TYPE # func # be16 (of_nat (BVLC_HEADER_SIZE + length npdu)) @ npdu"

lemma be16_of_nat: "n < 65536 \<Longrightarrow> be16 (of_nat n) = [of_nat (n div 256), of_nat n]"
proof -
  assume n: "n < 65536"
  have "ucast (drop_bit 8 (of_nat n :: u16)) = (of_nat (n div 256) :: u8)"
    using n by (simp add: word_unat_eq_iff unat_of_nat unsigned_ucast_eq unsigned_drop_bit_eq
        take_bit_eq_mod drop_bit_eq_div unat_div)
  moreover have "ucast (of_nat n :: u16) = (of_nat n :: u8)"
    using n by (simp add: word_unat_eq_iff unat_of_nat unsigned_ucast_eq take_bit_eq_mod)
  ultimately show ?thesis by (simp add: be16_def)
qed

lemma encode_bvlc_emit:
  assumes "BVLC_HEADER_SIZE + length npdu \<le> 65535"
  shows "encode_bvlc func npdu buf = emit (wire_bvlc func npdu) buf 0"
proof -
  define n where "n = 4 + length npdu"
  define h where "h = [BVLC_TYPE, func, of_nat (n div 256), of_nat n]"
  have n: "n \<le> 65535" "BVLC_HEADER_SIZE + length npdu = n" "length h = 4" "h \<noteq> []"
    using assms by (simp_all add: n_def h_def BVLC_HEADER_SIZE_def)
  have w: "wire_bvlc func npdu = h @ npdu"
    using n be16_of_nat [of n] by (simp add: wire_bvlc_def h_def)
  have o: "n \<le> length buf \<Longrightarrow> overwrite (overwrite buf 0 h) 4 npdu = overwrite buf 0 (h @ npdu)"
    using overwrite_overwrite [of 0 h npdu buf, unfolded n(3) add_0] by (simp add: n_def)
  have c: "copy_at b 4 n npdu =
      (if n \<le> length b then Ok (overwrite b 4 npdu) else (Panic :: (EncodeError, bytes) result))" for b
    using copy_at_eq [of n 4 npdu b] by (simp add: n_def)
  have l: "length (h @ npdu) = n" "4 \<le> n"
    using n(3) by (simp_all add: n_def)
  show ?thesis
    unfolding encode_bvlc_def Let_def n(2) w h_def [symmetric] emit_def put_eq
    using n l c o by (simp add: BVLC_HEADER_SIZE_def)
qed

text \<open>What \<open>encode_bvlc\<close> writes, \<open>decode_bvlc\<close> reads back, also when more bytes follow; the
  function code of a forwarded NPDU is the exception, since it has an address to skip.\<close>

theorem bvlc_roundtrip:
  assumes "encode_bvlc func npdu buf = Ok (buf', n)" and "func \<noteq> BVLC_FORWARDED_NPDU"
  shows "decode_bvlc (take n buf' @ rest) =
    Ok (\<lparr>bvlc_function = func, bvlc_length = of_nat (4 + length npdu)\<rparr>, npdu)"
proof -
  have l: "4 + length npdu \<le> 65535"
    using assms(1) by (auto simp: encode_bvlc_def BVLC_HEADER_SIZE_def Let_def split: if_splits)
  then have "emit (wire_bvlc func npdu) buf 0 = Ok (buf', n)"
    using assms(1) encode_bvlc_emit [of npdu func buf] by (simp add: BVLC_HEADER_SIZE_def)
  then have w: "take n buf' = wire_bvlc func npdu" by (rule emit_take)
  have u: "unat (of_nat (4 + length npdu) :: u16) = 4 + length npdu"
    using l by (simp add: unat_of_nat del: of_nat_add)
  have "subslice (wire_bvlc func npdu @ rest) 4 (4 + length npdu) = (Ok npdu :: (DecodeError, bytes) result)"
    by (simp add: subslice_def wire_bvlc_def be16_def)
  then show ?thesis
    using u l assms(2)
    by (simp add: w decode_bvlc_def Let_def bvlc_consts wire_bvlc_def be16_def del: of_nat_add)
qed

lemma bvlc_roundtrip_witness:
  "decode_bvlc ([0x81, 0x0A, 0, 6, 0xAA, 0xBB] @ [9]) =
    Ok (\<lparr>bvlc_function = 0x0A, bvlc_length = 6\<rparr>, [0xAA, 0xBB])"
proof -
  have "encode_bvlc 0x0A [0xAA, 0xBB] (replicate 8 0) = Ok ([0x81, 0x0A, 0, 6, 0xAA, 0xBB, 0, 0], 6)"
    by (simp add: encode_bvlc_def bvlc_consts Let_def put_eq overwrite_def copy_at_def
        numeral_2_eq_2)
  from bvlc_roundtrip [OF this, of "[9]"] show ?thesis by (simp add: bvlc_consts)
qed

text \<open>\<open>decode_bvlc\<close> panics exactly on a packet whose length field is smaller than its own header.\<close>

theorem decode_bvlc_safe:
  "decode_bvlc data = Panic \<longleftrightarrow>
     4 \<le> length data \<and> data ! 0 = BVLC_TYPE \<and> data ! 1 \<noteq> BVLC_FORWARDED_NPDU
     \<and> unat (of_be16 (data ! 2) (data ! 3)) < 4"
  by (auto simp: decode_bvlc_def Let_def bvlc_consts subslice_def split: if_splits)

end
