(* ===== verification/Ipc.thy ===== *)
theory Ipc
  imports Prelude
begin

text \<open>
  \<open>bridge-core/src/ipc.rs\<close>: the PDU the two cores exchange and the ring buffer it goes
  through. \<open>queue\<close> is the interface of a bounded FIFO queue; the ring buffer implements it,
  also when its 32-bit counters wrap.

  \<open>data: [BacnetPdu; N]\<close> is the list \<open>slots\<close> of length \<open>N\<close>, a power of two (the compile-time
  check \<open>_CHECK\<close>).
\<close>

section \<open>PDUs\<close>

definition PDU_MAX_DATA :: nat where "PDU_MAX_DATA = 501"

record BacnetPdu =
  pdu_source_net :: u16
  pdu_source_mac :: bytes
  pdu_source_mac_len :: u8
  pdu_dest_net :: u16
  pdu_dest_mac :: bytes
  pdu_dest_mac_len :: u8
  pdu_type :: u8
  data_len :: u16
  pdu_data :: bytes

definition pdu_new :: BacnetPdu where
  "pdu_new = \<lparr>pdu_source_net = 0, pdu_source_mac = replicate 7 0, pdu_source_mac_len = 0,
     pdu_dest_net = 0, pdu_dest_mac = replicate 7 0, pdu_dest_mac_len = 0, pdu_type = 0,
     data_len = 0, pdu_data = replicate PDU_MAX_DATA 0\<rparr>"

text \<open>\<open>PartialEq::eq\<close>: the payload is compared up to the clamped length.\<close>

definition pdu_eq :: "BacnetPdu \<Rightarrow> BacnetPdu \<Rightarrow> bool" where
  "pdu_eq a b \<longleftrightarrow>
     (let len_a = min (unat (data_len a)) PDU_MAX_DATA;
          len_b = min (unat (data_len b)) PDU_MAX_DATA in
      pdu_source_net a = pdu_source_net b \<and> pdu_source_mac a = pdu_source_mac b
      \<and> pdu_source_mac_len a = pdu_source_mac_len b \<and> pdu_dest_net a = pdu_dest_net b
      \<and> pdu_dest_mac a = pdu_dest_mac b \<and> pdu_dest_mac_len a = pdu_dest_mac_len b
      \<and> pdu_type a = pdu_type b \<and> data_len a = data_len b
      \<and> take len_a (pdu_data a) = take len_b (pdu_data b))"

lemma pdu_eq_equiv: "pdu_eq a a" "pdu_eq a b \<Longrightarrow> pdu_eq b a" "pdu_eq a b \<Longrightarrow> pdu_eq b c \<Longrightarrow> pdu_eq a c"
  by (auto simp: pdu_eq_def Let_def)

section \<open>Ring buffer\<close>

record RingBuffer =
  head :: u32
  tail :: u32
  slots :: "BacnetPdu list"

definition ring_new :: "nat \<Rightarrow> RingBuffer" where
  "ring_new n = \<lparr>head = 0, tail = 0, slots = replicate n pdu_new\<rparr>"

definition ring_is_empty :: "RingBuffer \<Rightarrow> bool" where
  "ring_is_empty r \<longleftrightarrow> head r = tail r"

definition ring_is_full :: "RingBuffer \<Rightarrow> bool" where
  "ring_is_full r \<longleftrightarrow> head r - tail r \<ge> of_nat (length (slots r))"

definition ring_push :: "BacnetPdu \<Rightarrow> RingBuffer \<Rightarrow> bool \<times> RingBuffer" where
  "ring_push pdu r =
     (let h = head r; t = tail r; n = length (slots r) in
      if h - t \<ge> of_nat n then (False, r)
      else (True, r\<lparr>slots := (slots r)[unat h mod n := pdu], head := h + 1\<rparr>))"

definition ring_pop :: "RingBuffer \<Rightarrow> BacnetPdu option \<times> RingBuffer" where
  "ring_pop r =
     (let h = head r; t = tail r in
      if h = t then (None, r)
      else (Some (slots r ! (unat t mod length (slots r))), r\<lparr>tail := t + 1\<rparr>))"

definition ring_len :: "RingBuffer \<Rightarrow> nat" where
  "ring_len r = unat (head r - tail r)"

text \<open>
  The states the operations reach: a power-of-two capacity that fits into the counters, and
  at most that many elements.
\<close>

definition ring_ok :: "RingBuffer \<Rightarrow> bool" where
  "ring_ok r \<longleftrightarrow> (\<exists>k \<le> 31. length (slots r) = 2 ^ k) \<and> ring_len r \<le> length (slots r)"

definition contents :: "RingBuffer \<Rightarrow> BacnetPdu list" where
  "contents r = map (\<lambda>i. slots r ! ((unat (tail r) + i) mod length (slots r))) [0..<ring_len r]"

section \<open>Counters that wrap\<close>

lemma pow2_dvd_word:
  "n = 2 ^ k \<Longrightarrow> k \<le> 32 \<Longrightarrow> unat (v + of_nat i :: u32) mod n = (unat v + i) mod n"
proof -
  assume n: "n = 2 ^ k" "k \<le> 32"
  from le_imp_power_dvd [OF n(2), of "2 :: nat"] have d: "n dvd 2 ^ 32" by (simp add: n(1))
  have "unat (v + of_nat i) = (unat v + i) mod 2 ^ 32"
    by (simp add: unat_word_ariths unat_of_nat mod_simps)
  then show ?thesis using d by (simp add: mod_mod_cancel)
qed

lemma ring_cap:
  assumes "ring_ok r"
  shows "0 < length (slots r)" "length (slots r) \<le> 2 ^ 31"
    "unat (of_nat (length (slots r)) :: u32) = length (slots r)"
proof -
  from assms obtain k where k: "k \<le> 31" "length (slots r) = 2 ^ k" by (auto simp: ring_ok_def)
  then show p: "0 < length (slots r)" by simp
  show l: "length (slots r) \<le> 2 ^ 31"
    unfolding k(2) by (rule power_increasing) (use k in auto)
  then have "length (slots r) < 2 ^ 32" by simp
  then show "unat (of_nat (length (slots r)) :: u32) = length (slots r)"
    by (simp add: unat_of_nat)
qed

lemma full_iff: "ring_ok r \<Longrightarrow> head r - tail r \<ge> of_nat (length (slots r)) \<longleftrightarrow> length (slots r) \<le> ring_len r"
  by (simp add: word_le_nat_alt ring_cap ring_len_def)

lemma empty_iff: "head r = tail r \<longleftrightarrow> ring_len r = 0"
  by (simp add: ring_len_def unat_eq_0)

text \<open>The slot of the next push, counted from the tail.\<close>

lemma push_slot:
  assumes "ring_ok r"
  shows "unat (head r) mod length (slots r) = (unat (tail r) + ring_len r) mod length (slots r)"
proof -
  from assms obtain k where k: "k \<le> 32" "length (slots r) = 2 ^ k" by (auto simp: ring_ok_def)
  have "head r = tail r + of_nat (ring_len r)"
    by (simp add: ring_len_def)
  with pow2_dvd_word [OF k(2,1), of "tail r" "ring_len r"] show ?thesis by simp
qed

lemma mod_window:
  fixes i j n t :: nat
  assumes "(t + i) mod n = (t + j) mod n" and "i < n" and "j < n"
  shows "i = j"
proof -
  have *: "a = b" if "a \<le> b" "b < n" "(t + b) mod n = (t + a) mod n" for a b
  proof -
    from that have "n dvd b - a"
      using mod_eq_dvd_iff_nat [of "t + a" "t + b" n] by simp
    with that show ?thesis by (auto dest!: dvd_imp_le)
  qed
  show ?thesis using * [of i j] * [of j i] assms by (cases "i \<le> j") auto
qed

section \<open>The abstract queue\<close>

text \<open>
  What a bounded FIFO queue promises its two users, over the list of the elements it holds.
  \<open>push\<close> fails exactly when the queue is full and \<open>pop\<close> exactly when it is empty.
\<close>

locale queue =
  fixes push :: "'e \<Rightarrow> 'q \<Rightarrow> bool \<times> 'q"
    and pop :: "'q \<Rightarrow> 'e option \<times> 'q"
    and elems :: "'q \<Rightarrow> 'e list"
    and cap :: "'q \<Rightarrow> nat"
    and ok :: "'q \<Rightarrow> bool"
  assumes push_full: "ok q \<Longrightarrow> cap q \<le> length (elems q) \<Longrightarrow> push x q = (False, q)"
    and push_room: "ok q \<Longrightarrow> length (elems q) < cap q \<Longrightarrow>
      fst (push x q) \<and> ok (snd (push x q)) \<and> cap (snd (push x q)) = cap q
      \<and> elems (snd (push x q)) = elems q @ [x]"
    and pop_empty: "ok q \<Longrightarrow> elems q = [] \<Longrightarrow> pop q = (None, q)"
    and pop_first: "ok q \<Longrightarrow> elems q = x # xs \<Longrightarrow>
      fst (pop q) = Some x \<and> ok (snd (pop q)) \<and> cap (snd (pop q)) = cap q
      \<and> elems (snd (pop q)) = xs"
    and bounded: "ok q \<Longrightarrow> length (elems q) \<le> cap q"
begin

text \<open>A run of operations: \<open>Some x\<close> pushes \<open>x\<close>, \<open>None\<close> pops. What was accepted and delivered.\<close>

fun run :: "'e option list \<Rightarrow> 'q \<Rightarrow> 'e list \<times> 'e list \<times> 'q" where
  "run [] q = ([], [], q)"
| "run (Some x # ops) q =
     (case push x q of (acc, q') \<Rightarrow>
      (case run ops q' of (ins, outs, q'') \<Rightarrow> (if acc then x # ins else ins, outs, q'')))"
| "run (None # ops) q =
     (case pop q of (r, q') \<Rightarrow>
      (case run ops q' of (ins, outs, q'') \<Rightarrow>
        (ins, (case r of None \<Rightarrow> outs | Some x \<Rightarrow> x # outs), q'')))"

lemma push_cases:
  assumes "ok q"
  obtains "push x q = (False, q)" "cap q \<le> length (elems q)"
  | q' where "push x q = (True, q')" "ok q'" "cap q' = cap q" "elems q' = elems q @ [x]"
  using push_full [OF assms] push_room [OF assms] by (metis linorder_not_less prod.collapse)

lemma pop_cases:
  assumes "ok q"
  obtains "pop q = (None, q)" "elems q = []"
  | x q' where "pop q = (Some x, q')" "ok q'" "cap q' = cap q" "elems q = x # elems q'"
  using pop_empty [OF assms] pop_first [OF assms] by (metis list.exhaust prod.collapse)

text \<open>First in, first out: nothing is lost, duplicated or reordered.\<close>

lemma run_fifo:
  "ok q \<Longrightarrow> run ops q = (ins, outs, q') \<Longrightarrow>
   ok q' \<and> cap q' = cap q \<and> elems q @ ins = outs @ elems q' \<and> length (elems q') \<le> cap q"
proof (induction ops q arbitrary: ins outs q' rule: run.induct)
  case (1 q)
  then show ?case using bounded by auto
next
  case (2 x ops q)
  obtain acc p where p: "push x q = (acc, p)" by (cases "push x q")
  obtain i u q2 where r: "run ops p = (i, u, q2)" by (cases "run ops p")
  have e: "ins = (if acc then x # i else i)" "outs = u" "q' = q2"
    using "2.prems"(2) p r by auto
  note ih = "2.IH" [OF p [symmetric] _ r]
  from \<open>ok q\<close> show ?case
    by (cases rule: push_cases [where x = x]) (use p e ih \<open>ok q\<close> in auto)
next
  case (3 ops q)
  obtain x p where p: "pop q = (x, p)" by (cases "pop q")
  obtain i u q2 where r: "run ops p = (i, u, q2)" by (cases "run ops p")
  have e: "ins = i" "outs = (case x of None \<Rightarrow> u | Some y \<Rightarrow> y # u)" "q' = q2"
    using "3.prems"(2) p r by auto
  note ih = "3.IH" [OF p [symmetric] _ r]
  from \<open>ok q\<close> show ?case
    by (cases rule: pop_cases) (use p e ih \<open>ok q\<close> in auto)
qed

end

section \<open>The ring buffer is a queue\<close>

lemma length_contents [simp]: "length (contents r) = ring_len r"
  by (simp add: contents_def)

lemma ring_push_room:
  assumes "ring_ok r" and "ring_len r < length (slots r)"
  shows "\<exists>r'. ring_push x r = (True, r') \<and> ring_ok r' \<and> length (slots r') = length (slots r)
    \<and> contents r' = contents r @ [x]"
proof -
  let ?n = "length (slots r)"
  define r' where "r' = r\<lparr>slots := (slots r)[unat (head r) mod ?n := x], head := head r + 1\<rparr>"
  have p: "ring_push x r = (True, r')"
    using full_iff [OF assms(1)] assms(2) by (simp add: ring_push_def Let_def r'_def)
  define d where "d = head r - tail r"
  have d: "ring_len r = unat d" "ring_len r' = unat (d + 1)"
    by (simp_all add: ring_len_def r'_def d_def algebra_simps)
  have "unat d < 2 ^ 31"
    using assms(2) ring_cap(2) [OF assms(1)] by (simp add: d)
  then have l: "ring_len r' = Suc (ring_len r)"
    by (simp add: d unat_word_ariths)
  have s: "unat (head r) mod ?n \<noteq> (unat (tail r) + i) mod ?n" if "i < ring_len r" for i
    using push_slot [OF assms(1)] mod_window [of "unat (tail r)" i ?n "ring_len r"] that assms(2)
    by auto
  have "contents r' = contents r @ [x]"
    unfolding contents_def l using s push_slot [OF assms(1)] ring_cap(1) [OF assms(1)]
    by (auto simp: r'_def)
  moreover have "ring_ok r'"
    using assms l by (auto simp: ring_ok_def r'_def)
  ultimately show ?thesis using p by (auto simp: r'_def)
qed

lemma ring_pop_first:
  assumes "ring_ok r" and "contents r = x # xs"
  shows "\<exists>r'. ring_pop r = (Some x, r') \<and> ring_ok r' \<and> length (slots r') = length (slots r)
    \<and> contents r' = xs"
proof -
  let ?n = "length (slots r)"
  define r' where "r' = r\<lparr>tail := tail r + 1\<rparr>"
  have len: "0 < ring_len r" using assms(2) length_contents [of r] by (metis length_Cons zero_less_Suc)
  then have ne: "head r \<noteq> tail r" by (simp add: empty_iff)
  have l: "ring_len r' = ring_len r - 1"
  proof -
    define d where "d = head r - tail r"
    have "ring_len r = unat d" "ring_len r' = unat (d - 1)" "d \<noteq> 0"
      using ne by (simp_all add: ring_len_def r'_def d_def algebra_simps)
    then show ?thesis by (simp add: unat_minus_one)
  qed
  from assms(1) obtain k where k: "k \<le> 32" "?n = 2 ^ k" by (auto simp: ring_ok_def)
  have c: "(unat (tail r + 1) + i) mod ?n = (unat (tail r) + Suc i) mod ?n" for i
    using pow2_dvd_word [OF k(2,1), of "tail r" 1] by (simp add: mod_simps) (metis mod_add_left_eq add_Suc)
  have u: "[0..<ring_len r] = 0 # map Suc [0..<ring_len r - 1]"
    using len by (simp add: map_Suc_upt upt_conv_Cons)
  then have "contents r = slots r ! (unat (tail r) mod ?n) # contents r'"
    using l c by (simp add: contents_def r'_def o_def)
  then show ?thesis
    using assms ne l by (auto simp: ring_pop_def Let_def r'_def ring_ok_def)
qed

interpretation ring: queue ring_push ring_pop contents "\<lambda>r. length (slots r)" ring_ok
proof
  fix r x xs
  assume ok: "ring_ok r"
  show "length (slots r) \<le> length (contents r) \<Longrightarrow> ring_push x r = (False, r)"
    using full_iff [OF ok] by (simp add: ring_push_def Let_def)
  show "length (contents r) < length (slots r) \<Longrightarrow>
      fst (ring_push x r) \<and> ring_ok (snd (ring_push x r))
      \<and> length (slots (snd (ring_push x r))) = length (slots r)
      \<and> contents (snd (ring_push x r)) = contents r @ [x]"
    using ring_push_room [OF ok, of x] by auto
  show "contents r = [] \<Longrightarrow> ring_pop r = (None, r)"
    using empty_iff [of r] length_contents [of r] by (auto simp: ring_pop_def Let_def)
  show "contents r = x # xs \<Longrightarrow>
      fst (ring_pop r) = Some x \<and> ring_ok (snd (ring_pop r))
      \<and> length (slots (snd (ring_pop r))) = length (slots r)
      \<and> contents (snd (ring_pop r)) = xs"
    using ring_pop_first [OF ok] by auto
  show "length (contents r) \<le> length (slots r)"
    using ok by (simp add: ring_ok_def)
qed

text \<open>
  Over any run of pushes and pops, from any reachable state of a ring buffer and across
  any wrap of its 32-bit counters, what was in the ring and what \<open>push\<close> accepted is what \<open>pop\<close>
  delivered and what the ring still holds, in the same order.
\<close>

theorem ring_fifo:
  assumes "ring_ok r" and "ring.run ops r = (ins, outs, r')"
  shows "ring_ok r' \<and> contents r @ ins = outs @ contents r' \<and> ring_len r' \<le> length (slots r)"
  using ring.run_fifo [OF assms] by simp

text \<open>The counters at the end of their range: the second push wraps the head.\<close>

definition wrapping_ring :: RingBuffer where
  "wrapping_ring = \<lparr>head = -1, tail = -1, slots = replicate 4 pdu_new\<rparr>"

lemma wrapping_ring_ok: "ring_ok wrapping_ring"
  by (auto simp: ring_ok_def wrapping_ring_def ring_len_def intro: exI [of _ 2])

lemma ring_fifo_witness:
  "\<exists>ins outs r'. ring.run [Some pdu_new, Some (pdu_new\<lparr>data_len := 3\<rparr>), None] wrapping_ring = (ins, outs, r')
     \<and> contents wrapping_ring @ ins = outs @ contents r'"
proof -
  obtain ins outs r' where r:
    "ring.run [Some pdu_new, Some (pdu_new\<lparr>data_len := 3\<rparr>), None] wrapping_ring = (ins, outs, r')"
    by (rule prod_cases3)
  with ring_fifo [OF wrapping_ring_ok r] show ?thesis by blast
qed

text \<open>
  \<open>push\<close> fails exactly when \<open>is_full\<close>, \<open>pop\<close> exactly when \<open>is_empty\<close>, and \<open>len\<close> counts
  the elements.
\<close>

theorem ring_observers:
  assumes "ring_ok r"
  shows "(fst (ring_push x r) = (\<not> ring_is_full r)) \<and> ((fst (ring_pop r) = None) = ring_is_empty r)
    \<and> ring_len r = length (contents r) \<and> (ring_is_empty r = (contents r = []))
    \<and> (ring_is_full r = (length (contents r) = length (slots r)))"
  using full_iff [OF assms] empty_iff [of r] length_contents [of r] assms
  by (auto simp: ring_push_def ring_pop_def ring_is_full_def ring_is_empty_def Let_def ring_ok_def
      simp del: length_contents)

lemma ring_observers_witness:
  "\<not> ring_is_full wrapping_ring \<and> ring_is_empty wrapping_ring"
  using ring_observers [OF wrapping_ring_ok] by (simp add: wrapping_ring_def contents_def ring_len_def)

end
