(* ===== verification/Ipc_Spsc.thy ===== *)
theory Ipc_Spsc
  imports Ipc
begin

text \<open>
  The two cores at once: \<open>push\<close> on one and \<open>pop\<close> on the other, as the source writes them, one
  volatile access per step, interleaved in every order. The fences of the code keep the
  accesses in program order, which is what an interleaving of the steps assumes.

  \<open>sent\<close> and \<open>got\<close> are what \<open>push\<close> has published and what \<open>pop\<close> has handed over so far.
\<close>

datatype producer =
    PIdle
  | PHead BacnetPdu u32              \<comment> \<open>\<open>h\<close> is read\<close>
  | PStore BacnetPdu u32             \<comment> \<open>\<open>t\<close> is read, there is room; next the slot is written\<close>
  | PPublish BacnetPdu u32           \<comment> \<open>the slot is written; next \<open>head\<close> is advanced\<close>

datatype consumer =
    CIdle
  | CHead u32                        \<comment> \<open>\<open>h\<close> is read\<close>
  | CLoad u32                        \<comment> \<open>\<open>t\<close> is read and differs from \<open>h\<close>; next the slot is read\<close>
  | CRelease u32 BacnetPdu           \<comment> \<open>the slot is copied; next \<open>tail\<close> is advanced\<close>

record spsc =
  ring :: RingBuffer
  prod :: producer
  cons :: consumer
  sent :: "BacnetPdu list"
  got :: "BacnetPdu list"

definition spsc_init :: "RingBuffer \<Rightarrow> spsc" where
  "spsc_init r = \<lparr>ring = r, prod = PIdle, cons = CIdle, sent = contents r, got = []\<rparr>"

inductive spsc_step :: "spsc \<Rightarrow> spsc \<Rightarrow> bool" where
  push_head: "prod s = PIdle \<Longrightarrow> spsc_step s (s\<lparr>prod := PHead x (head (ring s))\<rparr>)"
| push_full: "prod s = PHead x h \<Longrightarrow> h - tail (ring s) \<ge> of_nat (length (slots (ring s))) \<Longrightarrow>
    spsc_step s (s\<lparr>prod := PIdle\<rparr>)"
| push_room: "prod s = PHead x h \<Longrightarrow> \<not> h - tail (ring s) \<ge> of_nat (length (slots (ring s))) \<Longrightarrow>
    spsc_step s (s\<lparr>prod := PStore x h\<rparr>)"
| push_store: "prod s = PStore x h \<Longrightarrow>
    spsc_step s (s\<lparr>ring := (ring s)\<lparr>slots := (slots (ring s))[unat h mod length (slots (ring s)) := x]\<rparr>,
                   prod := PPublish x h\<rparr>)"
| push_publish: "prod s = PPublish x h \<Longrightarrow>
    spsc_step s (s\<lparr>ring := (ring s)\<lparr>head := h + 1\<rparr>, prod := PIdle, sent := sent s @ [x]\<rparr>)"
| pop_head: "cons s = CIdle \<Longrightarrow> spsc_step s (s\<lparr>cons := CHead (head (ring s))\<rparr>)"
| pop_empty: "cons s = CHead h \<Longrightarrow> h = tail (ring s) \<Longrightarrow> spsc_step s (s\<lparr>cons := CIdle\<rparr>)"
| pop_some: "cons s = CHead h \<Longrightarrow> h \<noteq> tail (ring s) \<Longrightarrow>
    spsc_step s (s\<lparr>cons := CLoad (tail (ring s))\<rparr>)"
| pop_load: "cons s = CLoad t \<Longrightarrow>
    spsc_step s (s\<lparr>cons := CRelease t (slots (ring s) ! (unat t mod length (slots (ring s))))\<rparr>)"
| pop_release: "cons s = CRelease t x \<Longrightarrow>
    spsc_step s (s\<lparr>ring := (ring s)\<lparr>tail := t + 1\<rparr>, cons := CIdle, got := got s @ [x]\<rparr>)"

inductive spsc_reachable :: "RingBuffer \<Rightarrow> spsc \<Rightarrow> bool" for r where
  reach_init: "spsc_reachable r (spsc_init r)"
| reach_step: "spsc_reachable r s \<Longrightarrow> spsc_step s s' \<Longrightarrow> spsc_reachable r s'"

inductive_cases spsc_stepE: "spsc_step s s'"

section \<open>The invariant\<close>

fun prod_ok :: "RingBuffer \<Rightarrow> producer \<Rightarrow> bool" where
  "prod_ok r PIdle = True"
| "prod_ok r (PHead x h) = (h = head r)"
| "prod_ok r (PStore x h) = (h = head r \<and> ring_len r < length (slots r))"
| "prod_ok r (PPublish x h) = (h = head r \<and> ring_len r < length (slots r)
     \<and> slots r ! (unat h mod length (slots r)) = x)"

text \<open>The head a consumer read may be old, but what it counted is still there.\<close>

fun cons_ok :: "RingBuffer \<Rightarrow> consumer \<Rightarrow> bool" where
  "cons_ok r CIdle = True"
| "cons_ok r (CHead h) = (unat (h - tail r) \<le> ring_len r)"
| "cons_ok r (CLoad t) = (t = tail r \<and> 0 < ring_len r)"
| "cons_ok r (CRelease t x) = (t = tail r \<and> 0 < ring_len r
     \<and> x = slots r ! (unat t mod length (slots r)))"

definition spsc_inv :: "spsc \<Rightarrow> bool" where
  "spsc_inv s \<longleftrightarrow> ring_ok (ring s) \<and> prod_ok (ring s) (prod s) \<and> cons_ok (ring s) (cons s)
     \<and> sent s = got s @ contents (ring s)"

section \<open>What each access does to the ring\<close>

lemma free_slot:
  assumes "ring_ok r" and "ring_len r < length (slots r)" and "i < ring_len r"
  shows "unat (head r) mod length (slots r) \<noteq> (unat (tail r) + i) mod length (slots r)"
  using push_slot [OF assms(1)] mod_window [of "unat (tail r)" i "length (slots r)" "ring_len r"] assms(2,3)
  by auto

lemma ring_store:
  fixes x :: BacnetPdu
  assumes "ring_ok r" and "ring_len r < length (slots r)"
  defines "r' \<equiv> r\<lparr>slots := (slots r)[unat (head r) mod length (slots r) := x]\<rparr>"
  shows "ring_ok r'" "contents r' = contents r" "ring_len r' = ring_len r"
    "length (slots r') = length (slots r)" "head r' = head r" "tail r' = tail r"
    "slots r' ! (unat (head r) mod length (slots r)) = x"
    "0 < ring_len r \<Longrightarrow> slots r' ! (unat (tail r) mod length (slots r)) =
       slots r ! (unat (tail r) mod length (slots r))"
proof -
  show l: "ring_len r' = ring_len r" by (simp add: r'_def ring_len_def)
  show "length (slots r') = length (slots r)" "head r' = head r" "tail r' = tail r"
    by (simp_all add: r'_def)
  with l assms(1) show "ring_ok r'" by (simp add: ring_ok_def)
  show "slots r' ! (unat (head r) mod length (slots r)) = x"
    using ring_cap(1) [OF assms(1)] by (simp add: r'_def)
  show "contents r' = contents r"
    unfolding contents_def l using free_slot [OF assms(1,2)] by (simp add: r'_def)
  show "0 < ring_len r \<Longrightarrow> slots r' ! (unat (tail r) mod length (slots r)) =
       slots r ! (unat (tail r) mod length (slots r))"
    using free_slot [OF assms(1,2), of 0] by (simp add: r'_def)
qed

lemma ring_publish:
  assumes "ring_ok r" and "ring_len r < length (slots r)"
    and "slots r ! (unat (head r) mod length (slots r)) = x"
  defines "r' \<equiv> r\<lparr>head := head r + 1\<rparr>"
  shows "ring_ok r'" "contents r' = contents r @ [x]" "ring_len r' = Suc (ring_len r)"
proof -
  have "ring_push x r = (True, r')"
    using full_iff [OF assms(1)] assms(2,3) list_update_id [of "slots r"]
    by (auto simp: ring_push_def Let_def r'_def)
  with ring_push_room [OF assms(1,2), of x] show "ring_ok r'" "contents r' = contents r @ [x]"
    by auto
  then show "ring_len r' = Suc (ring_len r)"
    using length_contents [of r'] length_contents [of r] by simp
qed

lemma ring_release:
  assumes "ring_ok r" and "0 < ring_len r"
  defines "r' \<equiv> r\<lparr>tail := tail r + 1\<rparr>"
  shows "ring_ok r'" "Suc (ring_len r') = ring_len r"
    "contents r = slots r ! (unat (tail r) mod length (slots r)) # contents r'"
proof -
  obtain x xs where c: "contents r = x # xs"
    using assms(2) length_contents [of r] by (cases "contents r") auto
  have "head r \<noteq> tail r" using assms(2) empty_iff [of r] by auto
  then have "ring_pop r = (Some (slots r ! (unat (tail r) mod length (slots r))), r')"
    by (simp add: ring_pop_def Let_def r'_def)
  with ring_pop_first [OF assms(1) c] c
  show k: "ring_ok r'" "contents r = slots r ! (unat (tail r) mod length (slots r)) # contents r'"
    by auto
  show "Suc (ring_len r') = ring_len r"
    using k(2) length_contents [of r'] length_contents [of r] by (metis length_Cons)
qed

section \<open>Every step keeps the invariant\<close>

lemma cons_ok_store:
  assumes "ring_ok r" and "ring_len r < length (slots r)" and "cons_ok r c"
  shows "cons_ok (r\<lparr>slots := (slots r)[unat (head r) mod length (slots r) := x]\<rparr>) c"
  using ring_store [OF assms(1,2), of x] assms(3) by (cases c) simp_all

lemma cons_ok_publish:
  assumes "ring_ok r" and "ring_len r < length (slots r)"
    and "slots r ! (unat (head r) mod length (slots r)) = x" and "cons_ok r c"
  shows "cons_ok (r\<lparr>head := head r + 1\<rparr>) c"
  using ring_publish(3) [OF assms(1-3)] assms(4) by (cases c) simp_all

lemma prod_ok_release:
  assumes "ring_ok r" and "0 < ring_len r" and "prod_ok r p"
  shows "prod_ok (r\<lparr>tail := tail r + 1\<rparr>) p"
  using ring_release(2) [OF assms(1,2)] assms(3) by (cases p) simp_all

lemma spsc_step_inv:
  assumes "spsc_step s s'" and "spsc_inv s"
  shows "spsc_inv s'"
  using assms
proof (cases rule: spsc_step.cases)
  case (push_room x h)
  then show ?thesis using assms(2) by (simp add: spsc_inv_def full_iff)
next
  case (push_store x h)
  then show ?thesis
    using assms(2) ring_store [of "ring s" x] cons_ok_store [of "ring s" "cons s" x]
    by (simp add: spsc_inv_def)
next
  case (push_publish x h)
  then show ?thesis
    using assms(2) ring_publish [of "ring s" x] cons_ok_publish [of "ring s" x "cons s"]
    by (auto simp: spsc_inv_def)
next
  case (pop_head)
  then show ?thesis using assms(2) by (simp add: spsc_inv_def ring_len_def)
next
  case (pop_some h)
  then show ?thesis using assms(2) unat_gt_0 [of "h - tail (ring s)"] by (simp add: spsc_inv_def)
next
  case (pop_release t x)
  then show ?thesis
    using assms(2) ring_release [of "ring s"] prod_ok_release [of "ring s" "prod s"]
    by (simp add: spsc_inv_def)
qed (simp_all add: spsc_inv_def)

lemma spsc_reachable_inv:
  assumes "spsc_reachable r s" and "ring_ok r"
  shows "spsc_inv s"
  using assms(1)
proof induction
  case reach_init
  with assms(2) show ?case by (simp add: spsc_init_def spsc_inv_def)
next
  case (reach_step s s')
  then show ?case by (blast intro: spsc_step_inv)
qed

text \<open>
  C2: in every interleaving of the producer's and the consumer's accesses, what the consumer
  got, followed by what the ring holds, is what the producer sent, in order; so nothing is
  lost, duplicated, reordered or torn.
\<close>

theorem spsc_fifo:
  assumes "ring_ok r" and "spsc_reachable r s"
  shows "sent s = got s @ contents (ring s) \<and> ring_len (ring s) \<le> length (slots (ring s))"
  using spsc_reachable_inv [OF assms(2,1)] by (simp add: spsc_inv_def ring_ok_def)

lemma ring_new_ok: "ring_ok (ring_new 32)"
  by (auto simp: ring_ok_def ring_new_def ring_len_def intro: exI [of _ 5])

lemma spsc_fifo_witness:
  "sent (spsc_init (ring_new 32)) = got (spsc_init (ring_new 32)) @ contents (ring (spsc_init (ring_new 32)))"
  using spsc_fifo [OF ring_new_ok reach_init] by blast

text \<open>
  C27: the producer never writes the slot the consumer is reading: whenever one is about to
  write its slot and the other about to read its slot, the two slots differ.
\<close>

theorem spsc_race_free:
  assumes "ring_ok r" and "spsc_reachable r s" and "prod s = PStore x h" and "cons s = CLoad t"
  shows "unat h mod length (slots (ring s)) \<noteq> unat t mod length (slots (ring s))"
  using spsc_reachable_inv [OF assms(2,1)] assms(3,4) free_slot [of "ring s" 0]
  by (auto simp: spsc_inv_def)

text \<open>Both cores in the middle of an operation: one element is in, a second is being pushed.\<close>

definition busy_ring :: RingBuffer where
  "busy_ring = \<lparr>head = 1, tail = 0, slots = (replicate 32 pdu_new)[0 := pdu_new]\<rparr>"

definition busy :: spsc where
  "busy = \<lparr>ring = busy_ring, prod = PStore pdu_new 1, cons = CLoad 0, sent = [pdu_new], got = []\<rparr>"

lemma busy_reachable: "spsc_reachable busy_ring busy"
proof -
  let ?s0 = "spsc_init busy_ring"
  let ?s1 = "?s0\<lparr>prod := PHead pdu_new (head (ring ?s0))\<rparr>"
  let ?s2 = "?s1\<lparr>prod := PStore pdu_new 1\<rparr>"
  let ?s3 = "?s2\<lparr>cons := CHead (head (ring ?s2))\<rparr>"
  have a: "spsc_reachable busy_ring ?s0" by (rule reach_init)
  have b: "spsc_step ?s0 ?s1" by (rule push_head) (simp add: spsc_init_def)
  have c: "spsc_step ?s1 ?s2" by (rule push_room) (simp_all add: spsc_init_def busy_ring_def word_le_nat_alt)
  have d: "spsc_step ?s2 ?s3" by (rule pop_head) (simp add: spsc_init_def)
  have e: "spsc_step ?s3 (?s3\<lparr>cons := CLoad (tail (ring ?s3))\<rparr>)"
    by (rule pop_some) (auto simp: spsc_init_def busy_ring_def)
  have f: "?s3\<lparr>cons := CLoad (tail (ring ?s3))\<rparr> = busy"
    by (simp add: busy_def spsc_init_def busy_ring_def contents_def ring_len_def)
  from a b c d e show ?thesis unfolding f by (blast intro: reach_step)
qed

lemma busy_ring_ok: "ring_ok busy_ring"
  by (auto simp: ring_ok_def busy_ring_def ring_len_def intro: exI [of _ 5])

lemma spsc_race_free_witness: "unat (1 :: u32) mod 32 \<noteq> unat (0 :: u32) mod 32"
  using spsc_race_free [OF busy_ring_ok busy_reachable, of pdu_new 1 0]
  by (simp add: busy_def busy_ring_def)

end
