(* ===== verification/F32.thy ===== *)
theory F32
  imports Rust_Str
begin

text \<open>
  Rust's \<open>f32\<close>: IEEE 754 binary32 with round-to-nearest-even, on bit patterns, executable.

  Every finite value is a whole number of units of \<open>2 ^ -149\<close>, so it is kept as an integer
  (\<open>f32_units\<close>) and an operation computes the exact rational result and rounds it once. The
  sign and payload of a NaN result are not specified by Rust; here they are those of the
  default quiet NaN. \<open>f32_parse\<close> is \<open>str::parse::<f32>\<close>.
\<close>

section \<open>Fields\<close>

definition f32_sign :: "f32 \<Rightarrow> bool" where
  "f32_sign x = bit x 31"

definition f32_exp :: "f32 \<Rightarrow> nat" where
  "f32_exp x = unat x div 2 ^ 23 mod 256"

definition f32_frac :: "f32 \<Rightarrow> nat" where
  "f32_frac x = unat x mod 2 ^ 23"

definition f32_is_nan :: "f32 \<Rightarrow> bool" where
  "f32_is_nan x \<longleftrightarrow> f32_exp x = 255 \<and> f32_frac x \<noteq> 0"

definition f32_is_inf :: "f32 \<Rightarrow> bool" where
  "f32_is_inf x \<longleftrightarrow> f32_exp x = 255 \<and> f32_frac x = 0"

definition f32_is_finite :: "f32 \<Rightarrow> bool" where
  "f32_is_finite x \<longleftrightarrow> f32_exp x \<noteq> 255"

text \<open>The magnitude of a finite value in units of \<open>2 ^ -149\<close>.\<close>

definition f32_mag :: "f32 \<Rightarrow> nat" where
  "f32_mag x = (if f32_exp x = 0 then f32_frac x
                else (2 ^ 23 + f32_frac x) * 2 ^ (f32_exp x - 1))"

definition f32_units :: "f32 \<Rightarrow> int" where
  "f32_units x = (if f32_sign x then - int (f32_mag x) else int (f32_mag x))"

definition f32_nan :: f32 where "f32_nan = 0x7FC00000"

definition with_sign :: "bool \<Rightarrow> nat \<Rightarrow> f32" where
  "with_sign s m = of_nat (m + (if s then 2 ^ 31 else 0))"

definition f32_inf :: "bool \<Rightarrow> f32" where
  "f32_inf s = with_sign s (255 * 2 ^ 23)"

definition f32_zero :: "bool \<Rightarrow> f32" where
  "f32_zero s = with_sign s 0"

definition f32_neg :: "f32 \<Rightarrow> f32" where
  "f32_neg x = x XOR 0x80000000"

section \<open>Rounding\<close>

text \<open>The nearest integer to \<open>n / d\<close>, ties to even.\<close>

definition div_rne :: "nat \<Rightarrow> nat \<Rightarrow> nat" where
  "div_rne n d =
     (let q = n div d; r = n mod d in
      if 2 * r < d \<or> (2 * r = d \<and> even q) then q else q + 1)"

fun log2_floor :: "nat \<Rightarrow> nat" where
  "log2_floor n = (if n < 2 then 0 else Suc (log2_floor (n div 2)))"

declare log2_floor.simps [simp del]

text \<open>
  The number \<open>k\<close> of bits by which a magnitude of \<open>n / d\<close> units exceeds a 24-bit significand;
  the result is the significand \<open>q\<close> at scale \<open>2 ^ k\<close>, and \<open>k * 2 ^ 23 + q\<close> is its bit pattern,
  also when \<open>q\<close> is subnormal (\<open>k = 0\<close>) and when rounding carries to \<open>2 ^ 24\<close>.
\<close>

definition f32_round :: "bool \<Rightarrow> nat \<Rightarrow> nat \<Rightarrow> f32" where
  "f32_round s n d =
     (let k = log2_floor (n div d) - 23;
          m = k * 2 ^ 23 + div_rne n (d * 2 ^ k)
      in with_sign s (min m (255 * 2 ^ 23)))"

section \<open>Arithmetic\<close>

definition f32_mul :: "f32 \<Rightarrow> f32 \<Rightarrow> f32" where
  "f32_mul x y =
     (let s = (f32_sign x \<noteq> f32_sign y) in
      if f32_is_nan x \<or> f32_is_nan y then f32_nan
      else if f32_is_inf x \<or> f32_is_inf y then
        (if (f32_is_finite x \<and> f32_mag x = 0) \<or> (f32_is_finite y \<and> f32_mag y = 0)
         then f32_nan else f32_inf s)
      else f32_round s (f32_mag x * f32_mag y) (2 ^ 149))"

definition f32_add :: "f32 \<Rightarrow> f32 \<Rightarrow> f32" where
  "f32_add x y =
     (if f32_is_nan x \<or> f32_is_nan y then f32_nan
      else if f32_is_inf x then
        (if f32_is_inf y \<and> f32_sign x \<noteq> f32_sign y then f32_nan else x)
      else if f32_is_inf y then y
      else
        let z = f32_units x + f32_units y in
        if z = 0 then f32_zero (f32_sign x \<and> f32_sign y)
        else f32_round (z < 0) (nat \<bar>z\<bar>) 1)"

definition f32_sub :: "f32 \<Rightarrow> f32 \<Rightarrow> f32" where
  "f32_sub x y = f32_add x (f32_neg y)"

definition f32_div :: "f32 \<Rightarrow> f32 \<Rightarrow> f32" where
  "f32_div x y =
     (let s = (f32_sign x \<noteq> f32_sign y) in
      if f32_is_nan x \<or> f32_is_nan y then f32_nan
      else if f32_is_inf x then (if f32_is_inf y then f32_nan else f32_inf s)
      else if f32_is_inf y then f32_zero s
      else if f32_mag y = 0 then (if f32_mag x = 0 then f32_nan else f32_inf s)
      else f32_round s (f32_mag x * 2 ^ 149) (f32_mag y))"

definition f32_of_u32 :: "u32 \<Rightarrow> f32" where
  "f32_of_u32 n = f32_round False (unat n * 2 ^ 149) 1"

definition f32_of_i32 :: "i32 \<Rightarrow> f32" where
  "f32_of_i32 n = f32_round (sint n < 0) (nat \<bar>sint n\<bar> * 2 ^ 149) 1"

definition f32_abs :: "f32 \<Rightarrow> f32" where
  "f32_abs x = x AND 0x7FFFFFFF"

text \<open>\<open>f as i32\<close> and \<open>f as u32\<close>: towards zero, saturating, 0 for a NaN.\<close>

definition f32_clamp :: "int \<Rightarrow> int \<Rightarrow> f32 \<Rightarrow> int" where
  "f32_clamp lo hi x =
     (if f32_is_nan x then 0
      else if f32_is_inf x then (if f32_sign x then lo else hi)
      else max lo (min hi (if f32_sign x then - int (f32_mag x div 2 ^ 149) else int (f32_mag x div 2 ^ 149))))"

definition f32_to_i32 :: "f32 \<Rightarrow> i32" where
  "f32_to_i32 x = word_of_int (f32_clamp (- (2 ^ 31)) (2 ^ 31 - 1) x)"

definition f32_to_u32 :: "f32 \<Rightarrow> u32" where
  "f32_to_u32 x = word_of_int (f32_clamp 0 (2 ^ 32 - 1) x)"

definition f32_eq :: "f32 \<Rightarrow> f32 \<Rightarrow> bool" where
  "f32_eq x y \<longleftrightarrow> \<not> f32_is_nan x \<and> \<not> f32_is_nan y
     \<and> (x = y \<or> (f32_mag x = 0 \<and> f32_mag y = 0))"

section \<open>Parsing\<close>

definition to_lower :: "u8 \<Rightarrow> u8" where
  "to_lower b = (if 65 \<le> b \<and> b \<le> 90 then b + 32 else b)"

definition digits_value :: "bytes \<Rightarrow> nat" where
  "digits_value = foldl (\<lambda>a b. 10 * a + digit_val b) 0"

text \<open>The decimal \<open>m * 10 ^ e\<close>, correctly rounded.\<close>

definition f32_of_decimal :: "bool \<Rightarrow> nat \<Rightarrow> int \<Rightarrow> f32" where
  "f32_of_decimal s m e =
     (if e \<ge> 0 then f32_round s (m * 10 ^ nat e * 2 ^ 149) 1
      else f32_round s (m * 2 ^ 149) (10 ^ nat (- e)))"

text \<open>The exponent part: nothing, or \<open>e\<close> with an optional sign and at least one digit.\<close>

definition parse_exponent :: "bytes \<Rightarrow> int option" where
  "parse_exponent s =
     (case s of
        [] \<Rightarrow> Some 0
      | b # r \<Rightarrow>
          if to_lower b = 101 then
            (let (neg, ds) = (case r of [] \<Rightarrow> (False, r)
                              | c # t \<Rightarrow> if c = 45 then (True, t) else if c = 43 then (False, t)
                                        else (False, r)) in
             if ds = [] \<or> \<not> list_all is_digit ds then None
             else Some (if neg then - int (digits_value ds) else int (digits_value ds)))
          else None)"

definition parse_number :: "bool \<Rightarrow> bytes \<Rightarrow> f32 option" where
  "parse_number neg s =
     (let whole = takeWhile is_digit s; r = dropWhile is_digit s;
          (frac, r) = (case r of [] \<Rightarrow> ([], r)
                       | c # t \<Rightarrow> if c = 46 then (takeWhile is_digit t, dropWhile is_digit t)
                                 else ([], r)) in
      if whole = [] \<and> frac = [] then None
      else map_option
             (\<lambda>e. f32_of_decimal neg (digits_value (whole @ frac)) (e - int (length frac)))
             (parse_exponent r))"

definition f32_parse :: "bytes \<Rightarrow> f32 option" where
  "f32_parse s =
     (let (neg, r) = (case s of [] \<Rightarrow> (False, s)
                      | c # t \<Rightarrow> if c = 45 then (True, t) else if c = 43 then (False, t)
                                else (False, s));
          l = map to_lower r in
      if l = str ''inf'' \<or> l = str ''infinity'' then Some (f32_inf neg)
      else if l = str ''nan'' then Some f32_nan
      else parse_number neg r)"

section \<open>Exact results are not rounded\<close>

lemma f32_sign_iff: "f32_sign x \<longleftrightarrow> 2 ^ 31 \<le> unat x"
proof -
  have l: "unat x < 2 ^ 32" using unsigned_less [of x, where ?'a = nat] by simp
  have "f32_sign x \<longleftrightarrow> odd (unat x div 2 ^ 31)"
    using bit_iff_odd [of "unat x" 31] by (simp add: f32_sign_def bit_unsigned_iff)
  also have "\<dots> \<longleftrightarrow> 2 ^ 31 \<le> unat x"
  proof (cases "2 ^ 31 \<le> unat x")
    case True
    then have "unat x div 2 ^ 31 = 1" using l by (simp add: div_nat_eqI)
    with True show ?thesis by simp
  qed simp
  finally show ?thesis .
qed

lemma f32_decomp: "unat x = f32_exp x * 2 ^ 23 + f32_frac x + (if f32_sign x then 2 ^ 31 else 0)"
proof -
  have l: "unat x < 2 ^ 32" using unsigned_less [of x, where ?'a = nat] by simp
  have "unat x div 2 ^ 23 = f32_exp x + (if f32_sign x then 256 else 0)"
  proof (cases "2 ^ 31 \<le> unat x")
    case True
    with l have "256 \<le> unat x div 2 ^ 23" "unat x div 2 ^ 23 < 512" by simp_all
    then have "unat x div 2 ^ 23 mod 256 = unat x div 2 ^ 23 - 256"
      by (simp add: mod_if)
    with True \<open>256 \<le> unat x div 2 ^ 23\<close> show ?thesis
      by (simp add: f32_exp_def f32_sign_iff)
  next
    case False
    then show ?thesis by (simp add: f32_exp_def f32_sign_iff)
  qed
  then show ?thesis
    using div_mult_mod_eq [of "unat x" "2 ^ 23"]
    by (cases "f32_sign x") (simp_all add: f32_frac_def add_mult_distrib)
qed

lemma f32_frac_bound: "f32_frac x < 2 ^ 23"
  by (simp add: f32_frac_def)

lemma f32_exp_bound: "f32_exp x < 256"
  by (simp add: f32_exp_def)

lemma with_sign_fields:
  assumes "m < 2 ^ 31"
  shows "f32_sign (with_sign s m) = s" "unat (with_sign s m) mod 2 ^ 31 = m"
proof -
  have "unat (with_sign s m) = m + (if s then 2 ^ 31 else 0)"
    using assms by (simp add: with_sign_def unat_of_nat del: of_nat_add)
  then show "f32_sign (with_sign s m) = s" "unat (with_sign s m) mod 2 ^ 31 = m"
    using assms by (auto simp: f32_sign_iff)
qed

lemma with_sign_self: "with_sign (f32_sign x) (f32_exp x * 2 ^ 23 + f32_frac x) = x"
  unfolding with_sign_def f32_decomp [of x, symmetric] by simp

lemma log2_floor_eq: "2 ^ j \<le> n \<Longrightarrow> n < 2 ^ Suc j \<Longrightarrow> log2_floor n = j"
proof (induction j arbitrary: n)
  case 0
  then show ?case by (simp add: log2_floor.simps [of n])
next
  case (Suc j)
  then have "log2_floor (n div 2) = j" by (intro Suc.IH) auto
  moreover have "2 \<le> n" using Suc.prems(1) by (simp add: order_trans [OF _ Suc.prems(1)])
  ultimately show ?case by (simp add: log2_floor.simps [of n])
qed

lemma log2_floor_small: "n < 2 ^ Suc j \<Longrightarrow> log2_floor n \<le> j"
proof (induction j arbitrary: n)
  case (Suc j)
  then have "log2_floor (n div 2) \<le> j" by (intro Suc.IH) auto
  then show ?case by (simp add: log2_floor.simps [of n])
qed (simp add: log2_floor.simps)

lemma div_rne_exact [simp]: "0 < d \<Longrightarrow> div_rne (q * d) d = q"
  by (simp add: div_rne_def)

text \<open>A magnitude that is a finite \<open>f32\<close> rounds to that \<open>f32\<close>.\<close>

lemma f32_round_exact:
  assumes "f32_is_finite x" and "0 < d"
  shows "f32_round (f32_sign x) (f32_mag x * d) d = x"
proof -
  define k where "k = f32_exp x - 1"
  define q where "q = (if f32_exp x = 0 then f32_frac x else 2 ^ 23 + f32_frac x)"
  have m: "f32_mag x = q * 2 ^ k"
    by (simp add: f32_mag_def k_def q_def)
  have p: "k * 2 ^ 23 + q = f32_exp x * 2 ^ 23 + f32_frac x"
    by (cases "f32_exp x") (simp_all add: k_def q_def)
  have lg: "log2_floor (f32_mag x) - 23 = k"
  proof (cases "f32_exp x = 0")
    case True
    then have "f32_mag x < 2 ^ Suc 22" using f32_frac_bound [of x] by (simp add: f32_mag_def)
    from log2_floor_small [OF this] True show ?thesis by (simp add: k_def)
  next
    case False
    then have "2 ^ 23 \<le> q" "q < 2 ^ 24" using f32_frac_bound [of x] by (simp_all add: q_def)
    then have "2 ^ 23 * 2 ^ k \<le> q * 2 ^ k" "q * 2 ^ k < 2 ^ 24 * 2 ^ k" by simp_all
    then have "2 ^ (23 + k) \<le> f32_mag x" "f32_mag x < 2 ^ Suc (23 + k)"
      unfolding m power_Suc power_add by simp_all
    from log2_floor_eq [OF this] show ?thesis by simp
  qed
  have dv: "f32_mag x * d div d = f32_mag x" using assms(2) by simp
  have r: "div_rne (f32_mag x * d) (d * 2 ^ k) = q"
    using div_rne_exact [of "d * 2 ^ k" q] assms(2) by (simp add: m ac_simps)
  have "f32_exp x * 2 ^ 23 + f32_frac x \<le> 255 * 2 ^ 23"
    using assms(1) f32_exp_bound [of x] f32_frac_bound [of x] by (simp add: f32_is_finite_def)
  then have "min (k * 2 ^ 23 + q) (255 * 2 ^ 23) = f32_exp x * 2 ^ 23 + f32_frac x"
    unfolding p by simp
  then show ?thesis
    unfolding f32_round_def Let_def dv lg r using with_sign_self [of x] by simp
qed

lemma finite_not_special:
  "f32_is_finite x \<Longrightarrow> \<not> f32_is_nan x \<and> \<not> f32_is_inf x"
  by (simp add: f32_is_finite_def f32_is_nan_def f32_is_inf_def)

lemma f32_mul_exact:
  assumes "f32_is_finite x" "f32_is_finite y" "f32_is_finite p"
    and "f32_mag x * f32_mag y = f32_mag p * 2 ^ 149"
    and "f32_sign p = (f32_sign x \<noteq> f32_sign y)"
  shows "f32_mul x y = p"
  using f32_round_exact [OF assms(3), of "2 ^ 149"] assms(4,5) [symmetric]
    finite_not_special [OF assms(1)] finite_not_special [OF assms(2)]
  by (simp add: f32_mul_def Let_def)

lemma f32_div_exact:
  assumes "f32_is_finite x" "f32_is_finite y" "f32_is_finite z" and "f32_mag y \<noteq> 0"
    and "f32_mag x * 2 ^ 149 = f32_mag z * f32_mag y"
    and "f32_sign z = (f32_sign x \<noteq> f32_sign y)"
  shows "f32_div x y = z"
  using f32_round_exact [OF assms(3), of "f32_mag y"] assms(4,6) assms(5) [symmetric]
    finite_not_special [OF assms(1)] finite_not_special [OF assms(2)]
  by (simp add: f32_div_def Let_def)

lemma f32_units_sign:
  "f32_units z \<noteq> 0 \<Longrightarrow> f32_sign z = (f32_units z < 0)" "nat \<bar>f32_units z\<bar> = f32_mag z"
  by (auto simp: f32_units_def split: if_splits)

lemma f32_add_exact:
  assumes "f32_is_finite x" "f32_is_finite y" "f32_is_finite z"
    and "f32_units x + f32_units y = f32_units z" and "f32_units z \<noteq> 0"
  shows "f32_add x y = z"
  using f32_round_exact [OF assms(3), of 1] f32_units_sign [of z] assms(4,5)
    finite_not_special [OF assms(1)] finite_not_special [OF assms(2)]
  by (simp add: f32_add_def Let_def)

lemma f32_neg_fields [simp]:
  "f32_frac (f32_neg x) = f32_frac x" "f32_exp (f32_neg x) = f32_exp x"
  "f32_sign (f32_neg x) = (\<not> f32_sign x)"
proof -
  have u: "unat (f32_neg x) = unat x XOR 2 ^ 31"
    by (simp add: f32_neg_def unsigned_xor_eq)
  have "take_bit 23 (unat x XOR 2 ^ 31) = take_bit 23 (unat x)"
    by (simp add: take_bit_xor take_bit_eq_mod [of 23 "2147483648 :: nat"])
  then show "f32_frac (f32_neg x) = f32_frac x"
    by (simp only: f32_frac_def u take_bit_eq_mod)
  have "take_bit 8 (drop_bit 23 (unat x XOR 2 ^ 31)) = take_bit 8 (drop_bit 23 (unat x))"
    by (simp add: take_bit_xor drop_bit_xor take_bit_eq_mod [of 8 "256 :: nat"])
  then show "f32_exp (f32_neg x) = f32_exp x"
    by (simp add: f32_exp_def u take_bit_eq_mod drop_bit_eq_div)
  have "bit (0x80000000 :: f32) 31" by simp
  then show "f32_sign (f32_neg x) = (\<not> f32_sign x)"
    by (simp add: f32_sign_def f32_neg_def bit_xor_iff)
qed

lemma f32_neg_simps [simp]:
  "f32_mag (f32_neg x) = f32_mag x" "f32_units (f32_neg x) = - f32_units x"
  "f32_is_finite (f32_neg x) = f32_is_finite x"
  by (simp_all add: f32_mag_def f32_units_def f32_is_finite_def)

lemma f32_sub_exact:
  assumes "f32_is_finite x" "f32_is_finite y" "f32_is_finite z"
    and "f32_units x - f32_units y = f32_units z" and "f32_units z \<noteq> 0"
  shows "f32_sub x y = z"
  unfolding f32_sub_def by (rule f32_add_exact) (use assms in simp_all)

lemma f32_units_zero: "f32_units x = 0 \<longleftrightarrow> f32_mag x = 0"
  by (simp add: f32_units_def)

text \<open>\<open>x * 1.0 + 0.0\<close> is \<open>x\<close>, except that it turns a negative zero into a positive one.\<close>

lemma f32_identity_scale:
  assumes "f32_is_finite x" and "f32_mag x \<noteq> 0"
  shows "f32_add (f32_mul x 0x3F800000) 0 = x"
proof -
  have one: "f32_mag 0x3F800000 = 2 ^ 149" "f32_is_finite 0x3F800000" "\<not> f32_sign 0x3F800000"
    by (simp_all add: f32_mag_def f32_exp_def f32_frac_def f32_is_finite_def f32_sign_iff)
  have zero: "f32_units 0 = 0" "f32_is_finite 0"
    by (simp_all add: f32_units_def f32_mag_def f32_exp_def f32_frac_def f32_is_finite_def)
  have "f32_mul x 0x3F800000 = x"
    by (rule f32_mul_exact) (use assms one in simp_all)
  moreover have "f32_add x 0 = x"
    by (rule f32_add_exact) (use assms zero in \<open>simp_all add: f32_units_zero\<close>)
  ultimately show ?thesis by simp
qed

text \<open>
  A linear scale is undone by its inverse as long as no step of the way out had to round:
  \<open>p\<close> is the exact product and \<open>d\<close> the exact sum.
\<close>

lemma f32_scale_inverse:
  assumes fin: "f32_is_finite x" "f32_is_finite f" "f32_is_finite o1" "f32_is_finite p" "f32_is_finite d"
    and nz: "f32_mag x \<noteq> 0" "f32_mag f \<noteq> 0"
    and prod: "f32_mag x * f32_mag f = f32_mag p * 2 ^ 149" "f32_sign p = (f32_sign x \<noteq> f32_sign f)"
    and sum: "f32_units d = f32_units p + f32_units o1"
  shows "f32_div (f32_sub d o1) f = x"
proof -
  have "f32_mag p \<noteq> 0" using nz prod(1) by (cases "f32_mag p") auto
  then have "f32_sub d o1 = p"
    by (intro f32_sub_exact) (use fin sum in \<open>simp_all add: f32_units_zero\<close>)
  moreover have "f32_div p f = x"
    by (rule f32_div_exact) (use fin nz prod in auto)
  ultimately show ?thesis by simp
qed

text \<open>Integers up to \<open>2 ^ 24\<close> are exact.\<close>

lemma f32_of_u32_exact:
  assumes "f32_is_finite x" and "f32_units x = int (unat n) * 2 ^ 149"
  shows "n \<noteq> 0 \<Longrightarrow> f32_of_u32 n = x"
proof -
  assume n: "n \<noteq> 0"
  then have "0 < int (unat n)" by (simp only: of_nat_0_less_iff unat_gt_0 not_False_eq_True)
  then have "0 < f32_units x" unfolding assms(2) by (intro mult_pos_pos) simp_all
  then have s: "\<not> f32_sign x" and m: "int (f32_mag x) = int (unat n * 2 ^ 149)"
    using assms(2) by (auto simp: f32_units_def split: if_splits)
  from m have "f32_mag x = unat n * 2 ^ 149" by (simp only: of_nat_eq_iff)
  then show ?thesis using f32_round_exact [OF assms(1), of 1] s by (simp add: f32_of_u32_def)
qed

end
