(* ===== verification/Config.thy ===== *)
theory Config
  imports Rust_Str
begin

text \<open>
  \<open>bridge-core/src/config.rs\<close>: the persisted configuration with its defaults, \<open>validate\<close>,
  and the lookup of the rule and the convertor of a point. A bounded string or vector is a
  list; serialisation (serde) is not modelled. Structures that share field names carry a
  prefix.
\<close>

section \<open>Structures\<close>

definition MAGIC :: u32 where "MAGIC = 0xBAC0CA1E"
definition CONFIG_VERSION :: u16 where "CONFIG_VERSION = 5"
definition DEVICE_ID_MAX :: u32 where "DEVICE_ID_MAX = 0x003FFFFE"

lemmas config_consts = MAGIC_def CONFIG_VERSION_def DEVICE_ID_MAX_def

record NetworkConfig =
  dhcp :: bool
  ip :: bytes
  subnet :: bytes
  gateway :: bytes
  dns :: bytes

record BacnetDeviceConfig =
  device_id :: u32
  device_name :: bytes
  mstp_mac :: u8
  mstp_baud :: u32
  max_master :: u8

datatype UserRole = Admin | Operator | Viewer

record UserConfig =
  username :: bytes
  password_salt :: bytes
  password_hash :: bytes
  user_role :: UserRole

record TokenConfig =
  token_name :: bytes
  token_hash :: bytes
  token_role :: UserRole
  created_by :: bytes

record NtpConfig =
  ntp_enabled :: bool
  use_dhcp_servers :: bool
  servers :: "bytes list"
  sync_interval_secs :: u32

record SyslogConfig =
  syslog_enabled :: bool
  syslog_server :: bytes
  syslog_port :: u16

record MqttConfig =
  mqtt_enabled :: bool
  broker :: bytes
  mqtt_port :: u16
  client_id :: bytes
  mqtt_username :: bytes
  mqtt_password :: bytes
  topic_prefix :: bytes
  ha_discovery_enabled :: bool
  ha_discovery_prefix :: bytes
  publish_points :: "bytes list"
  tls_enabled :: bool

record SnmpConfig =
  snmp_enabled :: bool
  community :: bytes

record TlsConfig =
  server_enabled :: bool
  https_port :: u16

record OtaConfig =
  auto_update :: bool
  manifest_url :: bytes
  channel :: bytes
  check_interval_secs :: u32

datatype PointMode = Ignore | Passthrough | Processed

datatype Processor =
    SetUnit u16
  | Scale f32 f32
  | MapStates "bytes list"

record Convertor =
  conv_id :: bytes
  conv_name :: bytes
  processors :: "Processor list"

record PointRule =
  rule_device_id :: u32
  rule_object_type :: u16
  rule_object_instance :: u32
  rule_mode :: PointMode
  convertor_id :: bytes

record BridgeConfig =
  magic :: u32
  cfg_version :: u16
  provisioned :: bool
  network :: NetworkConfig
  hostname :: bytes
  bacnet :: BacnetDeviceConfig
  ntp :: NtpConfig
  syslog :: SyslogConfig
  mqtt :: MqttConfig
  snmp :: SnmpConfig
  tls :: TlsConfig
  ota :: OtaConfig
  users :: "UserConfig list"
  tokens :: "TokenConfig list"
  convertors :: "Convertor list"
  points :: "PointRule list"

section \<open>Defaults\<close>

definition network_default :: NetworkConfig where
  "network_default = \<lparr>dhcp = True, ip = [192, 168, 1, 100], subnet = [255, 255, 255, 0],
     gateway = [192, 168, 1, 1], dns = [8, 8, 8, 8]\<rparr>"

definition default_device_name :: bytes where
  "default_device_name = push_ignore 32 [] (str ''bacnet-bridge'')"

definition default_mstp_baud :: u32 where
  "default_mstp_baud = 9600"

definition bacnet_default :: BacnetDeviceConfig where
  "bacnet_default = \<lparr>device_id = 389999, device_name = default_device_name, mstp_mac = 1,
     mstp_baud = 19200, max_master = 127\<rparr>"

definition default_ntp_servers :: "bytes list" where
  "default_ntp_servers = vec_push_ignore 3 [] (push_ignore 64 [] (str ''pool.ntp.org''))"

definition ntp_default :: NtpConfig where
  "ntp_default = \<lparr>ntp_enabled = True, use_dhcp_servers = True, servers = default_ntp_servers,
     sync_interval_secs = 3600\<rparr>"

definition syslog_default :: SyslogConfig where
  "syslog_default = \<lparr>syslog_enabled = False, syslog_server = [], syslog_port = 514\<rparr>"

definition mqtt_default :: MqttConfig where
  "mqtt_default = \<lparr>mqtt_enabled = False, broker = [], mqtt_port = 1883,
     client_id = push_ignore 32 [] (str ''bacnet-bridge''), mqtt_username = [], mqtt_password = [],
     topic_prefix = push_ignore 32 [] (str ''bacnet-bridge''), ha_discovery_enabled = False,
     ha_discovery_prefix = push_ignore 32 [] (str ''homeassistant''), publish_points = [],
     tls_enabled = False\<rparr>"

definition snmp_default :: SnmpConfig where
  "snmp_default = \<lparr>snmp_enabled = True, community = push_ignore 32 [] (str ''public'')\<rparr>"

definition tls_default :: TlsConfig where
  "tls_default = \<lparr>server_enabled = False, https_port = 443\<rparr>"

definition ota_default :: OtaConfig where
  "ota_default = \<lparr>auto_update = False, manifest_url = [],
     channel = push_ignore 16 [] (str ''release''), check_interval_secs = 3600\<rparr>"

definition default_hostname :: bytes where
  "default_hostname = push_ignore 32 [] (str ''bacnet-bridge'')"

definition bridge_config_default :: BridgeConfig where
  "bridge_config_default = \<lparr>magic = MAGIC, cfg_version = CONFIG_VERSION, provisioned = False,
     network = network_default, hostname = default_hostname, bacnet = bacnet_default,
     ntp = ntp_default, syslog = syslog_default, mqtt = mqtt_default, snmp = snmp_default,
     tls = tls_default, ota = ota_default, users = [], tokens = [], convertors = [], points = []\<rparr>"

section \<open>Validation\<close>

definition VALID_BAUD_RATES :: "u32 list" where
  "VALID_BAUD_RATES = [0, 9600, 19200, 38400, 76800]"

definition validate :: "BridgeConfig \<Rightarrow> bool" where
  "validate c =
     (if magic c \<noteq> MAGIC \<or> cfg_version c \<noteq> CONFIG_VERSION then False
      else if mstp_mac (bacnet c) > 127 then False
      else if \<not> List.member VALID_BAUD_RATES (mstp_baud (bacnet c)) then False
      else if device_id (bacnet c) > DEVICE_ID_MAX then False
      else if max_master (bacnet c) < 1 \<or> max_master (bacnet c) > 127 then False
      else if hostname c = [] then False
      else if sync_interval_secs (ntp c) < 60 then False
      else if syslog_enabled (syslog c) \<and> syslog_port (syslog c) = 0 then False
      else if syslog_enabled (syslog c) \<and> syslog_server (syslog c) = [] then False
      else if mqtt_enabled (mqtt c) \<and> mqtt_port (mqtt c) = 0 then False
      else if mqtt_enabled (mqtt c) \<and> broker (mqtt c) = [] then False
      else if snmp_enabled (snmp c) \<and> community (snmp c) = [] then False
      else True)"

section \<open>Rules\<close>

fun find_convertor :: "bytes \<Rightarrow> Convertor list \<Rightarrow> Processor list" where
  "find_convertor cid [] = []"
| "find_convertor cid (c # cs) = (if conv_id c = cid then processors c else find_convertor cid cs)"

definition resolve_rule :: "BridgeConfig \<Rightarrow> PointRule \<Rightarrow> PointMode \<times> Processor list" where
  "resolve_rule c rule =
     (if convertor_id rule = [] then (rule_mode rule, [])
      else (rule_mode rule, find_convertor (convertor_id rule) (convertors c)))"

fun find_point_rule_in ::
  "BridgeConfig \<Rightarrow> PointRule list \<Rightarrow> u16 \<Rightarrow> u32 \<Rightarrow> PointMode \<times> Processor list" where
  "find_point_rule_in c [] typ inst = (Passthrough, [])"
| "find_point_rule_in c (rule # rules) typ inst =
     (if rule_object_type rule = typ \<and> rule_object_instance rule = inst then resolve_rule c rule
      else find_point_rule_in c rules typ inst)"

definition find_point_rule :: "BridgeConfig \<Rightarrow> u16 \<Rightarrow> u32 \<Rightarrow> PointMode \<times> Processor list" where
  "find_point_rule c typ inst = find_point_rule_in c (points c) typ inst"

fun find_rule_for_device_in ::
  "BridgeConfig \<Rightarrow> PointRule list \<Rightarrow> u32 \<Rightarrow> u16 \<Rightarrow> u32 \<Rightarrow> PointMode \<times> Processor list" where
  "find_rule_for_device_in c [] dev typ inst = (Passthrough, [])"
| "find_rule_for_device_in c (rule # rules) dev typ inst =
     (if rule_device_id rule = dev \<and> rule_object_type rule = typ
         \<and> rule_object_instance rule = inst then resolve_rule c rule
      else find_rule_for_device_in c rules dev typ inst)"

definition find_point_rule_for_device ::
  "BridgeConfig \<Rightarrow> u32 \<Rightarrow> u16 \<Rightarrow> u32 \<Rightarrow> PointMode \<times> Processor list" where
  "find_point_rule_for_device c dev typ inst = find_rule_for_device_in c (points c) dev typ inst"

section \<open>What the lookups return\<close>

lemma find_convertor_eq:
  "find_convertor cid cs =
     (case find (\<lambda>c. conv_id c = cid) cs of None \<Rightarrow> [] | Some c \<Rightarrow> processors c)"
  by (induction cs) auto

lemma find_rule_for_device_eq:
  "find_rule_for_device_in c rules dev typ inst =
     (case find (\<lambda>r. rule_device_id r = dev \<and> rule_object_type r = typ \<and> rule_object_instance r = inst) rules
      of None \<Rightarrow> (Passthrough, []) | Some r \<Rightarrow> resolve_rule c r)"
  by (induction rules) auto

lemma find_point_rule_eq:
  "find_point_rule_in c rules typ inst =
     (case find (\<lambda>r. rule_object_type r = typ \<and> rule_object_instance r = inst) rules
      of None \<Rightarrow> (Passthrough, []) | Some r \<Rightarrow> resolve_rule c r)"
  by (induction rules) auto

section \<open>Properties\<close>

text \<open>The factory configuration is valid, although a stored one without a baud rate gets another one.\<close>

lemma validate_default: "validate bridge_config_default"
  by (simp add: validate_def bridge_config_default_def config_consts bacnet_default_def
      VALID_BAUD_RATES_def default_hostname_def push_ignore_def push_str_def str_def
      ntp_default_def syslog_default_def mqtt_default_def snmp_default_def)

lemma default_baud_differs: "mstp_baud bacnet_default \<noteq> default_mstp_baud"
  by (simp add: bacnet_default_def default_mstp_baud_def)

text \<open>The rule lookup for a device is the first rule whose three keys match, resolved through the
  first convertor with its identifier; a point without a rule passes through.\<close>

theorem find_rule_first_match:
  "(\<exists>i < length (points c).
      (let r = points c ! i in
       rule_device_id r = dev \<and> rule_object_type r = typ \<and> rule_object_instance r = inst
       \<and> (\<forall>j < i. \<not> (rule_device_id (points c ! j) = dev \<and> rule_object_type (points c ! j) = typ
                     \<and> rule_object_instance (points c ! j) = inst))
       \<and> find_point_rule_for_device c dev typ inst = resolve_rule c r))
   \<or> (\<not> (\<exists>r \<in> set (points c). rule_device_id r = dev \<and> rule_object_type r = typ
           \<and> rule_object_instance r = inst)
      \<and> find_point_rule_for_device c dev typ inst = (Passthrough, []))"
proof -
  let ?P = "\<lambda>r. rule_device_id r = dev \<and> rule_object_type r = typ \<and> rule_object_instance r = inst"
  show ?thesis
  proof (cases "find ?P (points c)")
    case None
    then have "find_point_rule_for_device c dev typ inst = (Passthrough, [])"
      by (simp add: find_point_rule_for_device_def find_rule_for_device_eq)
    moreover have "\<not> (\<exists>r \<in> set (points c). ?P r)"
      using None by (simp add: find_None_iff)
    ultimately show ?thesis by blast
  next
    case (Some r)
    then obtain i where "i < length (points c)" "?P (points c ! i)" "r = points c ! i"
      "\<forall>j < i. \<not> ?P (points c ! j)"
      by (auto simp: find_Some_iff)
    with Some show ?thesis
      by (intro disjI1 exI [of _ i])
        (simp add: find_point_rule_for_device_def find_rule_for_device_eq Let_def)
  qed
qed

lemma find_rule_first_match_witness:
  "find_point_rule_for_device bridge_config_default 1 2 3 = (Passthrough, [])"
  using find_rule_first_match [of bridge_config_default 1 2 3] by (simp add: bridge_config_default_def)

end
