(* ===== verification/Pipeline.thy ===== *)
theory Pipeline
  imports F32 Bacnet Config
begin

text \<open>
  \<open>bridge-core/src/pipeline.rs\<close>: the processors of a point, forwards (\<open>process_value\<close>) and
  backwards (\<open>reverse_value\<close>).
\<close>

section \<open>Forward\<close>

definition is_active :: "PointMode \<Rightarrow> bool" where
  "is_active m \<longleftrightarrow> m \<noteq> Ignore"

fun apply_scale :: "BacnetValue \<Rightarrow> f32 \<Rightarrow> f32 \<Rightarrow> BacnetValue" where
  "apply_scale (Real f) factor offset = Real (f32_add (f32_mul f factor) offset)"
| "apply_scale (SignedInt n) factor offset = Real (f32_add (f32_mul (f32_of_i32 n) factor) offset)"
| "apply_scale (UnsignedInt n) factor offset = Real (f32_add (f32_mul (f32_of_u32 n) factor) offset)"
| "apply_scale (Enumerated n) factor offset = Real (f32_add (f32_mul (f32_of_u32 n) factor) offset)"
| "apply_scale other factor offset = other"

definition apply_map_states :: "BacnetValue \<Rightarrow> bytes list \<Rightarrow> BacnetValue" where
  "apply_map_states v labels =
     (let index = (case v of
         Enumerated n \<Rightarrow> if n \<ge> 1 then Some (unat n - 1) else None
       | UnsignedInt n \<Rightarrow> if n \<ge> 1 then Some (unat n - 1) else None
       | _ \<Rightarrow> None) in
      case index of
        None \<Rightarrow> v
      | Some i \<Rightarrow> if i < length labels then CharString (push_chars 64 [] (labels ! i)) else v)"

fun apply_processor :: "BacnetValue \<Rightarrow> Processor \<Rightarrow> BacnetValue" where
  "apply_processor v (SetUnit u) = v"
| "apply_processor v (Scale factor offset) = apply_scale v factor offset"
| "apply_processor v (MapStates labels) = apply_map_states v labels"

fun process_value :: "BacnetValue \<Rightarrow> PointMode \<Rightarrow> Processor list \<Rightarrow> BacnetValue" where
  "process_value v Ignore ps = Null"
| "process_value v Passthrough ps = v"
| "process_value v Processed ps = foldl apply_processor v ps"

section \<open>Reverse\<close>

definition parse_boolean :: "bytes \<Rightarrow> bool option" where
  "parse_boolean s =
     (if s = str ''true'' \<or> s = str ''Active'' \<or> s = str ''ON'' then Some True
      else if s = str ''false'' \<or> s = str ''Inactive'' \<or> s = str ''OFF'' then Some False
      else None)"

fun find_label :: "bytes \<Rightarrow> nat \<Rightarrow> bytes list \<Rightarrow> nat option" where
  "find_label s i [] = None"
| "find_label s i (l # ls) = (if l = s then Some i else find_label s (Suc i) ls)"

text \<open>The walk over the processors, given in the order it visits them; then the generic parse.\<close>

fun reverse_walk :: "bytes \<Rightarrow> Processor list \<Rightarrow> BacnetValue option" where
  "reverse_walk s [] =
     (case parse_boolean s of
        Some b \<Rightarrow> Some (Boolean b)
      | None \<Rightarrow>
          if s = str ''1'' then Some (Boolean True)
          else if s = str ''0'' then Some (Boolean False)
          else map_option Real (f32_parse s))"
| "reverse_walk s (SetUnit u # ps) = reverse_walk s ps"
| "reverse_walk s (MapStates labels # ps) =
     (case find_label s 0 labels of
        Some i \<Rightarrow> Some (Enumerated (of_nat i + 1))
      | None \<Rightarrow> reverse_walk s ps)"
| "reverse_walk s (Scale factor offset # ps) =
     (case parse_boolean s of
        Some b \<Rightarrow> Some (Boolean b)
      | None \<Rightarrow>
          (case f32_parse s of
             Some parsed \<Rightarrow>
               if s = str ''1'' then Some (Boolean True)
               else if s = str ''0'' then Some (Boolean False)
               else Some (Real (if f32_eq factor 0 then parsed
                                else f32_div (f32_sub parsed offset) factor))
           | None \<Rightarrow> reverse_walk s ps))"

definition reverse_value :: "bytes \<Rightarrow> Processor list \<Rightarrow> BacnetValue option" where
  "reverse_value s ps = reverse_walk s (rev ps)"

section \<open>State labels\<close>

lemma find_label_nth:
  "distinct ls \<Longrightarrow> k < length ls \<Longrightarrow> find_label (ls ! k) i ls = Some (i + k)"
proof (induction ls arbitrary: i k)
  case (Cons l ls)
  then show ?case by (cases k) (auto simp: nth_Cons)
qed simp

text \<open>The bounds of \<open>Vec<String<12>, 8>\<close>.\<close>

definition labels_ok :: "bytes list \<Rightarrow> bool" where
  "labels_ok ls \<longleftrightarrow> length ls \<le> 8 \<and> (\<forall>l \<in> set ls. length l \<le> 12)"

lemma map_states_forward:
  assumes "labels_ok ls" and "1 \<le> unat n" and "unat n \<le> length ls"
  shows "apply_map_states (Enumerated n) ls = CharString (ls ! (unat n - 1))"
    and "apply_map_states (UnsignedInt n) ls = CharString (ls ! (unat n - 1))"
proof -
  have n: "1 \<le> n" using assms(2) by (simp add: word_le_nat_alt)
  have "ls ! (unat n - 1) \<in> set ls" using assms(2,3) by (intro nth_mem) linarith
  then have "length (ls ! (unat n - 1)) \<le> 12" using assms(1) by (simp add: labels_ok_def)
  then have "push_chars 64 [] (ls ! (unat n - 1)) = ls ! (unat n - 1)"
    by (simp add: push_chars_fits)
  moreover have "unat n - 1 < length ls" using assms(2,3) by linarith
  ultimately show "apply_map_states (Enumerated n) ls = CharString (ls ! (unat n - 1))"
    "apply_map_states (UnsignedInt n) ls = CharString (ls ! (unat n - 1))"
    using n by (simp_all add: apply_map_states_def)
qed

lemma set_units_forward: "foldl apply_processor v (map SetUnit us) = v"
  by (induction us) simp_all

lemma set_units_reverse: "reverse_walk s (map SetUnit us @ ps) = reverse_walk s ps"
  by (induction us) simp_all

lemma reverse_value_set_units:
  "reverse_value s (map SetUnit us @ p # map SetUnit vs) = reverse_walk s (p # map SetUnit (rev us))"
  by (simp add: reverse_value_def rev_map set_units_reverse)

text \<open>
  C22: a state number is displayed as its label, and writing that label
  back gives the state number, wherever \<open>SetUnit\<close> steps stand around the table.
\<close>

theorem map_states_roundtrip:
  fixes us vs :: "u16 list"
  assumes "labels_ok ls" and "distinct ls" and "1 \<le> unat n" and "unat n \<le> length ls"
  defines "ps \<equiv> map SetUnit us @ MapStates ls # map SetUnit vs"
  shows "\<exists>label. process_value (Enumerated n) Processed ps = CharString label
    \<and> process_value (UnsignedInt n) Processed ps = CharString label
    \<and> reverse_value label ps = Some (Enumerated n)"
proof (intro exI conjI)
  show "process_value (Enumerated n) Processed ps = CharString (ls ! (unat n - 1))"
    "process_value (UnsignedInt n) Processed ps = CharString (ls ! (unat n - 1))"
    using map_states_forward [OF assms(1,3,4)] by (simp_all add: ps_def set_units_forward)
  have "of_nat (unat n - 1) + 1 = n"
    using assms(3) by (simp add: of_nat_diff)
  moreover have "find_label (ls ! (unat n - 1)) 0 ls = Some (unat n - 1)"
    using find_label_nth [OF assms(2), of "unat n - 1" 0] assms(3,4) by simp
  ultimately show "reverse_value (ls ! (unat n - 1)) ps = Some (Enumerated n)"
    by (simp add: ps_def reverse_value_set_units)
qed

lemma map_states_roundtrip_witness:
  "\<exists>label. process_value (Enumerated 2) Processed [SetUnit 95, MapStates [str ''Off'', str ''On'']] = CharString label
    \<and> reverse_value label [SetUnit 95, MapStates [str ''Off'', str ''On'']] = Some (Enumerated 2)"
  using map_states_roundtrip [of "[str ''Off'', str ''On'']" 2 "[95]" "[]"]
  by (auto simp: labels_ok_def str_def)

section \<open>Scales\<close>

lemma keyword_not_number:
  "parse_boolean s = Some b \<Longrightarrow> f32_parse s = None"
  by (auto simp: parse_boolean_def str_def f32_parse_def to_lower_def parse_number_def is_digit_def
      split: if_splits)

text \<open>
  When neither the product \<open>x * f\<close> (exactly \<open>p\<close>) nor the sum \<open>p + o\<close> (exactly \<open>d\<close>)
  is rounded, the scaled value is \<open>d\<close> and writing back any text that parses as \<open>d\<close> gives \<open>x\<close>,
  bit for bit.
\<close>

theorem scale_roundtrip:
  assumes "f32_is_finite x" "f32_is_finite f" "f32_is_finite o1" "f32_is_finite p" "f32_is_finite d"
    and "f32_mag x \<noteq> 0" "f32_mag f \<noteq> 0" "f32_mag d \<noteq> 0"
    and "f32_mag x * f32_mag f = f32_mag p * 2 ^ 149" "f32_sign p = (f32_sign x \<noteq> f32_sign f)"
    and "f32_units d = f32_units p + f32_units o1"
    and "f32_parse s = Some d" "s \<noteq> str ''1''" "s \<noteq> str ''0''"
  shows "process_value (Real x) Processed [Scale f o1] = Real d
    \<and> reverse_value s [Scale f o1] = Some (Real x)"
proof
  have "f32_mul x f = p"
    by (rule f32_mul_exact) (use assms in auto)
  moreover have "f32_add p o1 = d"
    by (rule f32_add_exact) (use assms f32_units_zero [of d] in auto)
  ultimately show "process_value (Real x) Processed [Scale f o1] = Real d" by simp
  have "parse_boolean s = None"
    using keyword_not_number [of s] assms(12) by (cases "parse_boolean s") auto
  moreover have "\<not> f32_eq f 0"
    using assms(7) by (auto simp: f32_eq_def f32_mag_def f32_exp_def f32_frac_def)
  moreover have "f32_div (f32_sub d o1) f = x"
    by (rule f32_scale_inverse [of x f o1 p]) (use assms in auto)
  ultimately show "reverse_value s [Scale f o1] = Some (Real x)"
    using assms(12-14) by (simp add: reverse_value_def)
qed

lemma parse_38: "f32_parse (str ''38'') = Some 0x42180000"
proof -
  have "f32_is_finite 0x42180000" "\<not> f32_sign 0x42180000" "f32_mag 0x42180000 = 38 * 2 ^ 149"
    by (simp_all add: f32_is_finite_def f32_sign_iff f32_exp_def f32_mag_def f32_frac_def)
  with f32_round_exact [of "0x42180000" 1] have "f32_round False (38 * 2 ^ 149) 1 = 0x42180000"
    by simp
  then show ?thesis
    by (simp add: f32_parse_def str_def to_lower_def parse_number_def is_digit_def parse_exponent_def
        digits_value_def digit_val_def f32_of_decimal_def)
qed

text \<open>20.5 scaled by 2 and offset by -3 is 38.\<close>

lemma scale_roundtrip_witness:
  "process_value (Real 0x41A40000) Processed [Scale 0x40000000 0xC0400000] = Real 0x42180000
   \<and> reverse_value (str ''38'') [Scale 0x40000000 0xC0400000] = Some (Real 0x41A40000)"
  by (rule scale_roundtrip [where p = "0x42240000"])
    (simp_all add: parse_38, simp_all add: f32_is_finite_def f32_sign_iff f32_exp_def f32_mag_def
      f32_frac_def f32_units_def str_def)

end
