(* ===== verification/Engineering_Units.thy ===== *)
theory Engineering_Units
  imports Bacnet
begin

text \<open>
  The engineering units of \<open>bridge-core/src/bacnet.rs\<close>: the enumeration, its numeric codes and
  the Home Assistant unit strings (as UTF-8 bytes).
\<close>

section \<open>Engineering units\<close>

datatype (plugins only:) EngineeringUnits =
    Percent | Ppm | Rpm | DegreesCelsius | DegreesFahrenheit | Kelvin | Pascal | Kilopascal
    | Bar | Psi | MillimetersWater | CentimetersWater | InchesOfMercury
    | CentimetersOfMercury | MillimetersOfMercury | Joule | Kilojoule | KilowattHour
    | MegawattHour | WattHour | Btu | BtuPerHour | Watt | Kilowatt | Megawatt | Therm
    | TonHour | CubicMeterPerSecond | CubicFootPerSecond | CubicFootPerMinute
    | CubicMeterPerHour | GallonPerMinute | LiterPerSecond | LiterPerMinute | Millimeter
    | Centimeter | Meter | Inch | Foot | Yard | Kilometer | Mile | Gram | Kilogram
    | MetricTon | Pound | Ounce | Ton | CubicMeter | CubicFoot | Gallon | Liter | Milliliter
    | Ampere | Milliampere | Volt | Millivolt | Hertz | Gigahertz | Lux | Lumen | Decibel
    | DecibelMilliwatt | MeterPerSecond | KilometerPerHour | MilePerHour | MillimeterPerDay
    | InchPerDay | Second | Minute | Hour | Day | Week | Month | Year | Horsepower | NoUnits

fun units_code :: "EngineeringUnits \<Rightarrow> u32" where
  "units_code Percent = 95"
| "units_code Ppm = 97"
| "units_code Rpm = 123"
| "units_code DegreesCelsius = 0"
| "units_code DegreesFahrenheit = 1"
| "units_code Kelvin = 2"
| "units_code Pascal = 3"
| "units_code Kilopascal = 4"
| "units_code Bar = 5"
| "units_code Psi = 6"
| "units_code MillimetersWater = 7"
| "units_code CentimetersWater = 8"
| "units_code InchesOfMercury = 9"
| "units_code CentimetersOfMercury = 10"
| "units_code MillimetersOfMercury = 11"
| "units_code Joule = 12"
| "units_code Kilojoule = 13"
| "units_code KilowattHour = 14"
| "units_code MegawattHour = 15"
| "units_code WattHour = 16"
| "units_code Btu = 17"
| "units_code BtuPerHour = 18"
| "units_code Watt = 19"
| "units_code Kilowatt = 20"
| "units_code Megawatt = 21"
| "units_code Therm = 22"
| "units_code TonHour = 23"
| "units_code CubicMeterPerSecond = 24"
| "units_code CubicFootPerSecond = 25"
| "units_code CubicFootPerMinute = 26"
| "units_code CubicMeterPerHour = 27"
| "units_code GallonPerMinute = 28"
| "units_code LiterPerSecond = 29"
| "units_code LiterPerMinute = 30"
| "units_code Millimeter = 32"
| "units_code Centimeter = 33"
| "units_code Meter = 34"
| "units_code Inch = 35"
| "units_code Foot = 36"
| "units_code Yard = 37"
| "units_code Kilometer = 38"
| "units_code Mile = 39"
| "units_code Gram = 41"
| "units_code Kilogram = 42"
| "units_code MetricTon = 43"
| "units_code Pound = 44"
| "units_code Ounce = 45"
| "units_code Ton = 46"
| "units_code CubicMeter = 48"
| "units_code CubicFoot = 49"
| "units_code Gallon = 50"
| "units_code Liter = 51"
| "units_code Milliliter = 52"
| "units_code Ampere = 58"
| "units_code Milliampere = 59"
| "units_code Volt = 60"
| "units_code Millivolt = 61"
| "units_code Hertz = 65"
| "units_code Gigahertz = 66"
| "units_code Lux = 71"
| "units_code Lumen = 72"
| "units_code Decibel = 73"
| "units_code DecibelMilliwatt = 74"
| "units_code MeterPerSecond = 62"
| "units_code KilometerPerHour = 63"
| "units_code MilePerHour = 64"
| "units_code MillimeterPerDay = 67"
| "units_code InchPerDay = 68"
| "units_code Second = 69"
| "units_code Minute = 70"
| "units_code Hour = 75"
| "units_code Day = 76"
| "units_code Week = 77"
| "units_code Month = 78"
| "units_code Year = 79"
| "units_code Horsepower = 80"
| "units_code NoUnits = 196"

definition units_from_code :: "u32 \<Rightarrow> EngineeringUnits option" where
  "units_from_code code = map_of
    [(0, DegreesCelsius), (1, DegreesFahrenheit), (2, Kelvin), (3, Pascal), (4, Kilopascal)
     , (5, Bar), (6, Psi), (7, MillimetersWater), (8, CentimetersWater)
     , (9, InchesOfMercury), (10, CentimetersOfMercury), (11, MillimetersOfMercury)
     , (12, Joule), (13, Kilojoule), (14, KilowattHour), (15, MegawattHour), (16, WattHour)
     , (17, Btu), (18, BtuPerHour), (19, Watt), (20, Kilowatt), (21, Megawatt), (22, Therm)
     , (23, TonHour), (24, CubicMeterPerSecond), (25, CubicFootPerSecond)
     , (26, CubicFootPerMinute), (27, CubicMeterPerHour), (28, GallonPerMinute)
     , (29, LiterPerSecond), (30, LiterPerMinute), (32, Millimeter), (33, Centimeter)
     , (34, Meter), (35, Inch), (36, Foot), (37, Yard), (38, Kilometer), (39, Mile)
     , (41, Gram), (42, Kilogram), (43, MetricTon), (44, Pound), (45, Ounce), (46, Ton)
     , (48, CubicMeter), (49, CubicFoot), (50, Gallon), (51, Liter), (52, Milliliter)
     , (58, Ampere), (59, Milliampere), (60, Volt), (61, Millivolt), (62, MeterPerSecond)
     , (63, KilometerPerHour), (64, MilePerHour), (65, Hertz), (66, Gigahertz)
     , (67, MillimeterPerDay), (68, InchPerDay), (69, Second), (70, Minute), (71, Lux)
     , (72, Lumen), (73, Decibel), (74, DecibelMilliwatt), (75, Hour), (76, Day), (77, Week)
     , (78, Month), (79, Year), (80, Horsepower), (95, Percent), (97, Ppm), (123, Rpm)
     , (196, NoUnits)] code"

fun ha_unit_str :: "EngineeringUnits \<Rightarrow> string" where
  "ha_unit_str DegreesCelsius = [CHR 0xC2] @ [CHR 0xB0] @ ''C''"
| "ha_unit_str DegreesFahrenheit = [CHR 0xC2] @ [CHR 0xB0] @ ''F''"
| "ha_unit_str Kelvin = ''K''"
| "ha_unit_str Pascal = ''Pa''"
| "ha_unit_str Kilopascal = ''kPa''"
| "ha_unit_str Bar = ''bar''"
| "ha_unit_str Psi = ''psi''"
| "ha_unit_str InchesOfMercury = ''inHg''"
| "ha_unit_str MillimetersOfMercury = ''mmHg''"
| "ha_unit_str MillimetersWater = ''Pa''"
| "ha_unit_str CentimetersWater = ''Pa''"
| "ha_unit_str CentimetersOfMercury = ''mmHg''"
| "ha_unit_str Joule = ''Wh''"
| "ha_unit_str Kilojoule = ''Wh''"
| "ha_unit_str WattHour = ''Wh''"
| "ha_unit_str KilowattHour = ''kWh''"
| "ha_unit_str MegawattHour = ''MWh''"
| "ha_unit_str Btu = ''Wh''"
| "ha_unit_str BtuPerHour = ''W''"
| "ha_unit_str Watt = ''W''"
| "ha_unit_str Kilowatt = ''kW''"
| "ha_unit_str Megawatt = ''MW''"
| "ha_unit_str Therm = ''Wh''"
| "ha_unit_str TonHour = ''Wh''"
| "ha_unit_str Horsepower = ''W''"
| "ha_unit_str CubicMeterPerSecond = ''m'' @ [CHR 0xC2] @ [CHR 0xB3] @ ''/s''"
| "ha_unit_str CubicFootPerSecond = ''m'' @ [CHR 0xC2] @ [CHR 0xB3] @ ''/s''"
| "ha_unit_str CubicFootPerMinute = ''L/min''"
| "ha_unit_str CubicMeterPerHour = ''m'' @ [CHR 0xC2] @ [CHR 0xB3] @ ''/h''"
| "ha_unit_str GallonPerMinute = ''L/min''"
| "ha_unit_str LiterPerSecond = ''L/min''"
| "ha_unit_str LiterPerMinute = ''L/min''"
| "ha_unit_str Millimeter = ''mm''"
| "ha_unit_str Centimeter = ''cm''"
| "ha_unit_str Meter = ''m''"
| "ha_unit_str Inch = ''in''"
| "ha_unit_str Foot = ''ft''"
| "ha_unit_str Yard = ''yd''"
| "ha_unit_str Kilometer = ''km''"
| "ha_unit_str Mile = ''mi''"
| "ha_unit_str Gram = ''g''"
| "ha_unit_str Kilogram = ''kg''"
| "ha_unit_str MetricTon = ''kg''"
| "ha_unit_str Pound = ''lb''"
| "ha_unit_str Ounce = ''oz''"
| "ha_unit_str Ton = ''lb''"
| "ha_unit_str CubicMeter = ''m'' @ [CHR 0xC2] @ [CHR 0xB3]"
| "ha_unit_str CubicFoot = ''ft'' @ [CHR 0xC2] @ [CHR 0xB3]"
| "ha_unit_str Gallon = ''gal''"
| "ha_unit_str Liter = ''L''"
| "ha_unit_str Milliliter = ''mL''"
| "ha_unit_str Ampere = ''A''"
| "ha_unit_str Milliampere = ''mA''"
| "ha_unit_str Volt = ''V''"
| "ha_unit_str Millivolt = ''mV''"
| "ha_unit_str Hertz = ''Hz''"
| "ha_unit_str Gigahertz = ''GHz''"
| "ha_unit_str Lux = ''lx''"
| "ha_unit_str Lumen = ''lm''"
| "ha_unit_str Decibel = ''dB''"
| "ha_unit_str DecibelMilliwatt = ''dBm''"
| "ha_unit_str MeterPerSecond = ''m/s''"
| "ha_unit_str KilometerPerHour = ''km/h''"
| "ha_unit_str MilePerHour = ''mph''"
| "ha_unit_str MillimeterPerDay = ''mm/d''"
| "ha_unit_str InchPerDay = ''in/d''"
| "ha_unit_str Second = ''s''"
| "ha_unit_str Minute = ''min''"
| "ha_unit_str Hour = ''h''"
| "ha_unit_str Day = ''d''"
| "ha_unit_str Week = ''week''"
| "ha_unit_str Month = ''month''"
| "ha_unit_str Year = ''year''"
| "ha_unit_str Percent = ''%''"
| "ha_unit_str Ppm = ''ppm''"
| "ha_unit_str Rpm = ''rpm''"
| "ha_unit_str NoUnits = ''''"

lemma units_from_code_code: "units_from_code (units_code u) = Some u"
  by (cases u) (simp_all add: units_from_code_def)

lemma units_from_code_Some: "units_from_code c = Some u \<Longrightarrow> units_code u = c"
  unfolding units_from_code_def by (drule map_of_SomeD) (auto simp only: set_simps insert_iff
    empty_iff prod.inject units_code.simps)

lemma units_code_inj: "units_code u = units_code v \<longleftrightarrow> u = v"
  by (metis units_from_code_code option.inject)

end
