(* ===== verification/Convert.thy ===== *)
theory Convert
  imports Pipeline Engineering_Units
begin

text \<open>
  The conversions of \<open>bridge-core/src/bacnet.rs\<close>: engineering units to Home Assistant units, and
  the older per-point configuration with its conversions, shown to be a special case of the
  processor pipeline.
\<close>

section \<open>Home Assistant units\<close>

text \<open>A decimal literal \<open>m * 10 ^ -e\<close> of type \<open>f32\<close>.\<close>

definition f32_lit :: "nat \<Rightarrow> nat \<Rightarrow> f32" where
  "f32_lit m e = f32_of_decimal False m (- int e)"

definition convert_for_ha :: "EngineeringUnits \<Rightarrow> f32 \<Rightarrow> f32 \<times> string" where
  "convert_for_ha u v =
     ((case u of
         MillimetersWater \<Rightarrow> f32_mul v (f32_lit 980665 5)
       | CentimetersWater \<Rightarrow> f32_mul v (f32_lit 980665 4)
       | CentimetersOfMercury \<Rightarrow> f32_mul v (f32_lit 10 0)
       | Joule \<Rightarrow> f32_div v (f32_lit 3600 0)
       | Kilojoule \<Rightarrow> f32_div v (f32_lit 36 1)
       | Btu \<Rightarrow> f32_mul v (f32_lit 293071 6)
       | BtuPerHour \<Rightarrow> f32_mul v (f32_lit 293071 6)
       | Therm \<Rightarrow> f32_mul v (f32_lit 293071 0)
       | TonHour \<Rightarrow> f32_mul v (f32_lit 3517000 0)
       | Horsepower \<Rightarrow> f32_mul v (f32_lit 7457 1)
       | GallonPerMinute \<Rightarrow> f32_mul v (f32_lit 3785 3)
       | CubicFootPerMinute \<Rightarrow> f32_mul v (f32_lit 471947 6)
       | LiterPerSecond \<Rightarrow> f32_mul v (f32_lit 60 0)
       | CubicFootPerSecond \<Rightarrow> f32_mul v (f32_lit 283168 7)
       | MetricTon \<Rightarrow> f32_mul v (f32_lit 1000 0)
       | Ton \<Rightarrow> f32_mul v (f32_lit 907185 3)
       | _ \<Rightarrow> v), ha_unit_str u)"

section \<open>Legacy point configuration\<close>

record PointConfig =
  pc_object_type :: u16
  pc_object_instance :: u32
  scale :: f32
  offset :: f32
  engineering_unit :: u16
  show_on_dashboard :: bool
  bridge_to_bacnet_ip :: bool
  bridge_to_mqtt :: bool
  expose_in_api :: bool
  state_text :: "bytes list"

definition point_config_default :: PointConfig where
  "point_config_default = \<lparr>pc_object_type = 0, pc_object_instance = 0, scale = 0x3F800000,
     offset = 0, engineering_unit = 95, show_on_dashboard = True, bridge_to_bacnet_ip = True,
     bridge_to_mqtt = True, expose_in_api = True, state_text = []\<rparr>"

text \<open>The state text lookup that the branches of \<open>UnsignedInt\<close> and \<open>Enumerated\<close> share.\<close>

definition state_or_scaled :: "PointConfig \<Rightarrow> u32 \<Rightarrow> BacnetValue" where
  "state_or_scaled c n =
     (if state_text c \<noteq> [] \<and> n \<ge> 1 \<and> unat n - 1 < length (state_text c)
      then CharString (push_chars 64 [] (state_text c ! (unat n - 1)))
      else Real (f32_add (f32_mul (f32_of_u32 n) (scale c)) (offset c)))"

fun convert_from_bacnet :: "BacnetValue \<Rightarrow> PointConfig \<Rightarrow> BacnetValue" where
  "convert_from_bacnet (Real f) c = Real (f32_add (f32_mul f (scale c)) (offset c))"
| "convert_from_bacnet (SignedInt n) c = Real (f32_add (f32_mul (f32_of_i32 n) (scale c)) (offset c))"
| "convert_from_bacnet (UnsignedInt n) c = state_or_scaled c n"
| "convert_from_bacnet (Enumerated n) c = state_or_scaled c n"
| "convert_from_bacnet (Boolean b) c = Boolean b"
| "convert_from_bacnet (CharString s) c = CharString s"
| "convert_from_bacnet Null c = Null"
| "convert_from_bacnet (ObjectIdentifier i) c = ObjectIdentifier i"

definition convert_to_bacnet :: "bytes \<Rightarrow> PointConfig \<Rightarrow> BacnetValue option" where
  "convert_to_bacnet s c =
     (case (if state_text c \<noteq> [] then find_label s 0 (state_text c) else None) of
        Some i \<Rightarrow> Some (Enumerated (of_nat i + 1))
      | None \<Rightarrow>
          if s = str ''true'' \<or> s = str ''Active'' \<or> s = str ''ON'' then Some (Boolean True)
          else if s = str ''false'' \<or> s = str ''Inactive'' \<or> s = str ''OFF'' then Some (Boolean False)
          else
            (case f32_parse s of
               None \<Rightarrow> None
             | Some parsed \<Rightarrow>
                 if s = str ''1'' then Some (Boolean True)
                 else if s = str ''0'' then Some (Boolean False)
                 else Some (Real (if f32_eq (scale c) 0 then parsed
                                  else f32_div (f32_sub parsed (offset c)) (scale c)))))"

datatype Exposure = Dashboard | BacnetIp | Mqtt | HttpApi

fun is_exposed :: "PointConfig \<Rightarrow> Exposure \<Rightarrow> bool" where
  "is_exposed c Dashboard = show_on_dashboard c"
| "is_exposed c BacnetIp = bridge_to_bacnet_ip c"
| "is_exposed c Mqtt = bridge_to_mqtt c"
| "is_exposed c HttpApi = expose_in_api c"

definition convert_for_exposure :: "BacnetValue \<Rightarrow> PointConfig \<Rightarrow> Exposure \<Rightarrow> BacnetValue option" where
  "convert_for_exposure v c e = (if \<not> is_exposed c e then None else Some (convert_from_bacnet v c))"

definition convert_write_for_exposure :: "bytes \<Rightarrow> PointConfig \<Rightarrow> Exposure \<Rightarrow> BacnetValue option" where
  "convert_write_for_exposure s c e = (if \<not> is_exposed c e then None else convert_to_bacnet s c)"

section \<open>The pipeline subsumes the legacy conversions\<close>

lemma parse_one_zero: "f32_parse (str ''1'') \<noteq> None" "f32_parse (str ''0'') \<noteq> None"
  by (simp_all add: f32_parse_def str_def to_lower_def parse_number_def is_digit_def parse_exponent_def)

lemma state_or_scaled_pipeline:
  "v = UnsignedInt n \<or> v = Enumerated n \<Longrightarrow>
   apply_scale (apply_map_states v (state_text c)) (scale c) (offset c) = state_or_scaled c n"
  by (auto simp: apply_map_states_def state_or_scaled_def)

text \<open>
  The older per-point conversion is the processor pipeline with the state table and then
  the scale, in both directions, on every value and every text; a channel that a point is not
  exposed on gets nothing.
\<close>

theorem legacy_is_pipeline:
  "convert_from_bacnet v c = process_value v Processed [MapStates (state_text c), Scale (scale c) (offset c)]
   \<and> convert_to_bacnet s c = reverse_value s [Scale (scale c) (offset c), MapStates (state_text c)]"
proof
  show "convert_from_bacnet v c =
      process_value v Processed [MapStates (state_text c), Scale (scale c) (offset c)]"
    by (cases v) (simp_all add: state_or_scaled_pipeline, simp_all add: apply_map_states_def)
  show "convert_to_bacnet s c = reverse_value s [Scale (scale c) (offset c), MapStates (state_text c)]"
    using parse_one_zero keyword_not_number [of s]
    by (cases "state_text c = []")
      (auto simp: convert_to_bacnet_def reverse_value_def parse_boolean_def split: option.splits)
qed

end
