(* ===== verification/Bridge.thy ===== *)
theory Bridge
  imports Pipeline
begin

text \<open>
  \<open>bridge-core/src/bridge.rs\<close>: the table of devices and points. The arrays are lists of the
  fixed sizes; every index is in range in the states of \<open>state_ok\<close>, which the operations keep.
\<close>

section \<open>Structures\<close>

definition MAX_DEVICES :: nat where "MAX_DEVICES = 8"
definition MAX_POINTS_PER_DEVICE :: nat where "MAX_POINTS_PER_DEVICE = 64"

lemmas bridge_consts = MAX_DEVICES_def MAX_POINTS_PER_DEVICE_def

record DeviceEntry =
  de_device_id :: u32
  de_name :: bytes
  de_vendor :: bytes
  de_mac :: u8
  de_online :: bool
  de_last_seen :: u32
  de_addr :: bytes
  de_points_loaded :: bool

definition device_empty :: DeviceEntry where
  "device_empty = \<lparr>de_device_id = 0, de_name = [], de_vendor = [], de_mac = 0xFF, de_online = False,
     de_last_seen = 0, de_addr = replicate 6 0, de_points_loaded = False\<rparr>"

record PointEntry =
  pe_object_id :: ObjectId
  pe_name :: bytes
  pe_description :: bytes
  pe_present_value :: "BacnetValue option"
  pe_unit :: u16
  pe_writable :: bool
  pe_dirty :: bool

definition point_new :: "ObjectId \<Rightarrow> PointEntry" where
  "point_new oid = \<lparr>pe_object_id = oid, pe_name = [], pe_description = [], pe_present_value = None,
     pe_unit = 0, pe_writable = False, pe_dirty = False\<rparr>"

record BridgeStateInner =
  devices :: "DeviceEntry list"
  device_count :: nat
  bs_points :: "PointEntry option list list"
  point_counts :: "nat list"

definition bridge_new :: BridgeStateInner where
  "bridge_new = \<lparr>devices = replicate MAX_DEVICES device_empty, device_count = 0,
     bs_points = replicate MAX_DEVICES (replicate MAX_POINTS_PER_DEVICE None),
     point_counts = replicate MAX_DEVICES 0\<rparr>"

section \<open>Devices\<close>

definition find_device :: "BridgeStateInner \<Rightarrow> u32 \<Rightarrow> nat option" where
  "find_device s dev = find_index (\<lambda>d. de_device_id d = dev) (take (device_count s) (devices s))"

definition upsert_device :: "BridgeStateInner \<Rightarrow> u32 \<Rightarrow> u8 \<Rightarrow> bytes \<Rightarrow> nat \<times> BridgeStateInner" where
  "upsert_device s dev mac name =
     (case find_device s dev of
        Some i \<Rightarrow>
          (let d = devices s ! i;
               d = d\<lparr>de_mac := mac\<rparr>;
               d = (if name \<noteq> [] then d\<lparr>de_name := push_chars 32 [] name\<rparr> else d)
           in (i, s\<lparr>devices := (devices s)[i := d]\<rparr>))
      | None \<Rightarrow>
          (let (i, s) =
             (if device_count s < MAX_DEVICES
              then (device_count s, s\<lparr>device_count := device_count s + 1\<rparr>)
              else (0, s\<lparr>point_counts := (point_counts s)[0 := 0],
                         bs_points := (bs_points s)[0 := map (\<lambda>_. None) (bs_points s ! 0)]\<rparr>));
             d = device_empty\<lparr>de_device_id := dev, de_mac := mac\<rparr>;
             d = (if name \<noteq> [] then d\<lparr>de_name := push_chars 32 (de_name d) name\<rparr> else d)
           in (i, s\<lparr>devices := (devices s)[i := d]\<rparr>)))"

section \<open>Points\<close>

text \<open>\<open>for i in 0..count { if let Some(ref p) = self.points[d][i] { if p.object_id == oid \<close>\<dots>\<close>

definition find_point :: "BridgeStateInner \<Rightarrow> nat \<Rightarrow> ObjectId \<Rightarrow> nat option" where
  "find_point s d oid =
     find_index (\<lambda>p. case p of Some e \<Rightarrow> pe_object_id e = oid | None \<Rightarrow> False)
       (take (point_counts s ! d) (bs_points s ! d))"

definition set_point :: "BridgeStateInner \<Rightarrow> nat \<Rightarrow> nat \<Rightarrow> PointEntry option \<Rightarrow> BridgeStateInner" where
  "set_point s d i p = s\<lparr>bs_points := (bs_points s)[d := (bs_points s ! d)[i := p]]\<rparr>"

definition update_point :: "BridgeStateInner \<Rightarrow> nat \<Rightarrow> ObjectId \<Rightarrow> BacnetValue \<Rightarrow> u16 \<Rightarrow> BridgeStateInner" where
  "update_point s d oid v unit =
     (if d \<ge> MAX_DEVICES then s
      else
        let count = point_counts s ! d in
        case find_point s d oid of
          Some i \<Rightarrow> set_point s d i (map_option (\<lambda>p. p\<lparr>pe_present_value := Some v, pe_unit := unit,
                       pe_dirty := True\<rparr>) (bs_points s ! d ! i))
        | None \<Rightarrow>
            if count < MAX_POINTS_PER_DEVICE then
              (set_point s d count (Some \<lparr>pe_object_id = oid, pe_name = [], pe_description = [],
                 pe_present_value = Some v, pe_unit = unit, pe_writable = False, pe_dirty = True\<rparr>))
              \<lparr>point_counts := (point_counts s)[d := count + 1]\<rparr>
            else s)"

definition update_point_with_pipeline ::
  "BridgeStateInner \<Rightarrow> nat \<Rightarrow> ObjectId \<Rightarrow> BacnetValue \<Rightarrow> u16 \<Rightarrow> PointMode \<Rightarrow> Processor list
     \<Rightarrow> BridgeStateInner" where
  "update_point_with_pipeline s d oid raw unit mode ps =
     (case mode of
        Ignore \<Rightarrow> s
      | Passthrough \<Rightarrow> update_point s d oid raw unit
      | Processed \<Rightarrow> update_point s d oid (process_value raw mode ps) unit)"

definition update_point_unit :: "BridgeStateInner \<Rightarrow> nat \<Rightarrow> ObjectId \<Rightarrow> u16 \<Rightarrow> BridgeStateInner" where
  "update_point_unit s d oid unit =
     (if d \<ge> MAX_DEVICES then s
      else case find_point s d oid of
             Some i \<Rightarrow> set_point s d i (map_option (\<lambda>p. p\<lparr>pe_unit := unit\<rparr>) (bs_points s ! d ! i))
           | None \<Rightarrow> s)"

definition get_point_unit :: "BridgeStateInner \<Rightarrow> nat \<Rightarrow> ObjectId \<Rightarrow> u16" where
  "get_point_unit s d oid =
     (if d \<ge> MAX_DEVICES then 0
      else case find_point s d oid of
             Some i \<Rightarrow> (case bs_points s ! d ! i of Some p \<Rightarrow> pe_unit p | None \<Rightarrow> 0)
           | None \<Rightarrow> 0)"

definition get_device_points :: "BridgeStateInner \<Rightarrow> nat \<Rightarrow> PointEntry option list" where
  "get_device_points s d =
     (if d \<ge> MAX_DEVICES then [] else take (point_counts s ! d) (bs_points s ! d))"

definition mark_clean :: "BridgeStateInner \<Rightarrow> nat \<Rightarrow> nat \<Rightarrow> BridgeStateInner" where
  "mark_clean s d i =
     (if d \<ge> MAX_DEVICES \<or> i \<ge> MAX_POINTS_PER_DEVICE then s
      else set_point s d i (map_option (\<lambda>p. p\<lparr>pe_dirty := False\<rparr>) (bs_points s ! d ! i)))"

section \<open>Invariant\<close>

text \<open>One row: \<open>count\<close> entries with distinct identifiers, then empty slots.\<close>

definition row_ok :: "nat \<Rightarrow> PointEntry option list \<Rightarrow> bool" where
  "row_ok count row \<longleftrightarrow> length row = MAX_POINTS_PER_DEVICE \<and> count \<le> MAX_POINTS_PER_DEVICE
     \<and> (\<exists>ps. row = map Some ps @ replicate (MAX_POINTS_PER_DEVICE - count) None
            \<and> length ps = count \<and> distinct (map pe_object_id ps))"

definition state_ok :: "BridgeStateInner \<Rightarrow> bool" where
  "state_ok s \<longleftrightarrow> length (devices s) = MAX_DEVICES \<and> device_count s \<le> MAX_DEVICES
     \<and> length (bs_points s) = MAX_DEVICES \<and> length (point_counts s) = MAX_DEVICES
     \<and> distinct (map de_device_id (take (device_count s) (devices s)))
     \<and> (\<forall>d < MAX_DEVICES. row_ok (point_counts s ! d) (bs_points s ! d))"

text \<open>The entries of a row, and the finite map from identifiers to entries it represents.\<close>

definition entries :: "BridgeStateInner \<Rightarrow> nat \<Rightarrow> PointEntry list" where
  "entries s d = map the (take (point_counts s ! d) (bs_points s ! d))"

definition point_of :: "BridgeStateInner \<Rightarrow> nat \<Rightarrow> ObjectId \<Rightarrow> PointEntry option" where
  "point_of s d = map_of (map (\<lambda>e. (pe_object_id e, e)) (entries s d))"

section \<open>Rows\<close>

lemma row_ok_split:
  assumes "row_ok count row"
  obtains ps where "row = map Some ps @ replicate (MAX_POINTS_PER_DEVICE - count) None"
    "length ps = count" "distinct (map pe_object_id ps)" "count \<le> MAX_POINTS_PER_DEVICE"
    "map the (take count row) = ps"
  using assms by (force simp: row_ok_def o_def)

lemma row_okI:
  "length ps = count \<Longrightarrow> distinct (map pe_object_id ps) \<Longrightarrow> count \<le> MAX_POINTS_PER_DEVICE \<Longrightarrow>
   row = map Some ps @ replicate (MAX_POINTS_PER_DEVICE - count) None \<Longrightarrow>
   row_ok count row \<and> map the (take count row) = ps"
  by (auto simp: row_ok_def o_def)

lemma row_modify:
  assumes "row_ok count row" and "i < count" and "\<And>p. pe_object_id (f p) = pe_object_id p"
  shows "row_ok count (row[i := map_option f (row ! i)])"
    and "map the (take count (row[i := map_option f (row ! i)])) =
      (map the (take count row))[i := f (map the (take count row) ! i)]"
proof -
  from assms(1) obtain ps where ps: "row = map Some ps @ replicate (MAX_POINTS_PER_DEVICE - count) None"
    "length ps = count" "distinct (map pe_object_id ps)" "count \<le> MAX_POINTS_PER_DEVICE"
    "map the (take count row) = ps" by (rule row_ok_split)
  have r: "row[i := map_option f (row ! i)] =
      map Some (ps[i := f (ps ! i)]) @ replicate (MAX_POINTS_PER_DEVICE - count) None"
    using ps(1,2) assms(2) by (simp add: list_update_append nth_append map_update)
  have "map pe_object_id (ps[i := f (ps ! i)]) = map pe_object_id ps"
    using ps(2) assms(2,3) by (simp add: map_update list_update_same_conv)
  with row_okI [OF _ _ ps(4) r] ps
  show "row_ok count (row[i := map_option f (row ! i)])"
    "map the (take count (row[i := map_option f (row ! i)])) =
      (map the (take count row))[i := f (map the (take count row) ! i)]"
    by simp_all
qed

lemma row_append:
  assumes "row_ok count row" and "count < MAX_POINTS_PER_DEVICE"
    and "pe_object_id e \<notin> pe_object_id ` set (map the (take count row))"
  shows "row_ok (Suc count) (row[count := Some e])"
    and "map the (take (Suc count) (row[count := Some e])) = map the (take count row) @ [e]"
proof -
  from assms(1) obtain ps where ps: "row = map Some ps @ replicate (MAX_POINTS_PER_DEVICE - count) None"
    "length ps = count" "distinct (map pe_object_id ps)" "count \<le> MAX_POINTS_PER_DEVICE"
    "map the (take count row) = ps" by (rule row_ok_split)
  have "replicate (MAX_POINTS_PER_DEVICE - count) (None :: PointEntry option) =
      None # replicate (MAX_POINTS_PER_DEVICE - Suc count) None"
    using assms(2) by (metis Suc_diff_Suc replicate_Suc)
  then have r: "row[count := Some e] =
      map Some (ps @ [e]) @ replicate (MAX_POINTS_PER_DEVICE - Suc count) None"
    using ps(1,2) by (simp add: list_update_append)
  have "distinct (map pe_object_id (ps @ [e]))" "length (ps @ [e]) = Suc count"
    using ps assms(3) by auto
  from row_okI [OF this(2,1) _ r] assms(2) ps(5)
  show "row_ok (Suc count) (row[count := Some e])"
    "map the (take (Suc count) (row[count := Some e])) = map the (take count row) @ [e]"
    by simp_all
qed

lemma row_empty: "row_ok 0 (replicate MAX_POINTS_PER_DEVICE None)"
  by (simp add: row_ok_def)

lemma row_cleared: "row_ok count row \<Longrightarrow> map (\<lambda>_. None :: PointEntry option) row = replicate MAX_POINTS_PER_DEVICE None"
  by (simp add: row_ok_def map_replicate_const)

lemma find_point_entries:
  assumes "row_ok (point_counts s ! d) (bs_points s ! d)"
  shows "find_point s d oid = find_index (\<lambda>e. pe_object_id e = oid) (entries s d)"
proof -
  from assms obtain ps where "take (point_counts s ! d) (bs_points s ! d) = map Some ps"
    "entries s d = ps"
    unfolding entries_def by (rule row_ok_split) auto
  moreover have "find_index (\<lambda>p. case p of Some e \<Rightarrow> pe_object_id e = oid | None \<Rightarrow> False) (map Some ps)
      = find_index (\<lambda>e. pe_object_id e = oid) ps"
    by (induction ps) simp_all
  ultimately show ?thesis by (simp add: find_point_def)
qed

lemma entries_distinct: "row_ok (point_counts s ! d) (bs_points s ! d) \<Longrightarrow>
    distinct (map pe_object_id (entries s d)) \<and> length (entries s d) = point_counts s ! d"
  unfolding entries_def by (erule row_ok_split) simp

lemma map_of_entries_None:
  "map_of (map (\<lambda>e. (pe_object_id e, e)) es) oid = None \<longleftrightarrow> (\<forall>e \<in> set es. pe_object_id e \<noteq> oid)"
  by (induction es) auto

lemma map_of_entries_update:
  assumes "distinct (map pe_object_id es)" and "i < length es" and "pe_object_id e = pe_object_id (es ! i)"
  shows "map_of (map (\<lambda>e. (pe_object_id e, e)) (es[i := e])) =
    (map_of (map (\<lambda>e. (pe_object_id e, e)) es))(pe_object_id e \<mapsto> e)"
  using assms
proof (induction es arbitrary: i)
  case (Cons x es)
  show ?case
  proof (cases i)
    case 0
    with Cons.prems show ?thesis by (auto simp: fun_eq_iff)
  next
    case (Suc n)
    with Cons.prems have "pe_object_id e \<in> pe_object_id ` set es" by simp
    with Cons.prems(1) have "pe_object_id x \<noteq> pe_object_id e" by auto
    with Suc Cons.prems Cons.IH [of n] show ?thesis by (auto simp: fun_eq_iff)
  qed
qed simp

lemma map_of_entries_nth:
  assumes "distinct (map pe_object_id es)" and "i < length es"
  shows "map_of (map (\<lambda>e. (pe_object_id e, e)) es) (pe_object_id (es ! i)) = Some (es ! i)"
  using assms by (intro map_of_is_SomeI) (auto simp: o_def)

lemma map_of_entries_append:
  assumes "pe_object_id e \<notin> pe_object_id ` set es"
  shows "map_of (map (\<lambda>e. (pe_object_id e, e)) (es @ [e])) =
    (map_of (map (\<lambda>e. (pe_object_id e, e)) es))(pe_object_id e \<mapsto> e)"
  using assms by (induction es) (simp_all add: fun_upd_twist)

section \<open>Operations on a row of the state\<close>

lemma state_ok_row: "state_ok s \<Longrightarrow> d < MAX_DEVICES \<Longrightarrow> row_ok (point_counts s ! d) (bs_points s ! d)"
  by (simp add: state_ok_def)

text \<open>An update of the entry found for an identifier that keeps the identifier.\<close>

lemma set_point_modify:
  assumes "state_ok s" and "d < MAX_DEVICES" and "i < point_counts s ! d"
    and "\<And>p. pe_object_id (f p) = pe_object_id p"
  defines "s' \<equiv> set_point s d i (map_option f (bs_points s ! d ! i))"
  shows "state_ok s'" "entries s' d = (entries s d)[i := f (entries s d ! i)]"
    "d' \<noteq> d \<Longrightarrow> entries s' d' = entries s d'"
proof -
  have l: "length (bs_points s) = MAX_DEVICES" using assms(1) by (simp add: state_ok_def)
  note r = row_modify [OF state_ok_row [OF assms(1,2)] assms(3,4)]
  show "state_ok s'"
    using assms(1,2) r(1) by (auto simp: s'_def set_point_def state_ok_def nth_list_update)
  show "entries s' d = (entries s d)[i := f (entries s d ! i)]"
    using r(2) l assms(2) by (simp add: s'_def set_point_def entries_def)
  show "d' \<noteq> d \<Longrightarrow> entries s' d' = entries s d'"
    by (simp add: s'_def set_point_def entries_def)
qed

lemma append_point:
  assumes "state_ok s" and "d < MAX_DEVICES" and "point_counts s ! d < MAX_POINTS_PER_DEVICE"
    and "pe_object_id e \<notin> pe_object_id ` set (entries s d)"
  defines "s' \<equiv> (set_point s d (point_counts s ! d) (Some e))
    \<lparr>point_counts := (point_counts s)[d := point_counts s ! d + 1]\<rparr>"
  shows "state_ok s'" "entries s' d = entries s d @ [e]" "d' \<noteq> d \<Longrightarrow> entries s' d' = entries s d'"
proof -
  have l: "length (bs_points s) = MAX_DEVICES" "length (point_counts s) = MAX_DEVICES"
    using assms(1) by (simp_all add: state_ok_def)
  note r = row_append [OF state_ok_row [OF assms(1,2)] assms(3,4) [unfolded entries_def]]
  show "state_ok s'"
    using assms(1,2) r(1) by (auto simp: s'_def set_point_def state_ok_def nth_list_update)
  show "entries s' d = entries s d @ [e]"
    using r(2) l assms(2) by (simp add: s'_def set_point_def entries_def)
  show "d' \<noteq> d \<Longrightarrow> entries s' d' = entries s d'"
    by (simp add: s'_def set_point_def entries_def)
qed

lemma find_point_Some:
  assumes "state_ok s" and "d < MAX_DEVICES" and "find_point s d oid = Some i"
  shows "i < point_counts s ! d" "i < length (entries s d)" "pe_object_id (entries s d ! i) = oid"
    "point_of s d oid = Some (entries s d ! i)"
    "bs_points s ! d ! i = Some (entries s d ! i)"
proof -
  note r = state_ok_row [OF assms(1,2)]
  note e = entries_distinct [OF r]
  from assms(3) have f: "i < length (entries s d)" "pe_object_id (entries s d ! i) = oid"
    using find_index_SomeD [of "\<lambda>e. pe_object_id e = oid" "entries s d" i]
    by (simp_all add: find_point_entries [OF r])
  then show "i < point_counts s ! d" "i < length (entries s d)" "pe_object_id (entries s d ! i) = oid"
    using e by simp_all
  show "point_of s d oid = Some (entries s d ! i)"
    using map_of_entries_nth [OF conjunct1 [OF e] f(1)] f(2) by (simp add: point_of_def)
  obtain ps where "bs_points s ! d = map Some ps @ replicate (MAX_POINTS_PER_DEVICE - point_counts s ! d) None"
    "entries s d = ps" using r unfolding entries_def by (rule row_ok_split) auto
  then show "bs_points s ! d ! i = Some (entries s d ! i)"
    using f(1) by (simp add: nth_append)
qed

lemma find_point_None:
  assumes "state_ok s" and "d < MAX_DEVICES" and "find_point s d oid = None"
  shows "point_of s d oid = None" "oid \<notin> pe_object_id ` set (entries s d)"
  using assms(3) find_point_entries [OF state_ok_row [OF assms(1,2)]]
  by (auto simp: find_index_None point_of_def map_of_entries_None)

section \<open>Properties of the point table\<close>

definition fresh_point :: "ObjectId \<Rightarrow> BacnetValue \<Rightarrow> u16 \<Rightarrow> PointEntry" where
  "fresh_point oid v unit = \<lparr>pe_object_id = oid, pe_name = [], pe_description = [],
     pe_present_value = Some v, pe_unit = unit, pe_writable = False, pe_dirty = True\<rparr>"

definition written :: "PointEntry option \<Rightarrow> ObjectId \<Rightarrow> BacnetValue \<Rightarrow> u16 \<Rightarrow> PointEntry" where
  "written old oid v unit =
     (case old of None \<Rightarrow> fresh_point oid v unit
      | Some e \<Rightarrow> e\<lparr>pe_present_value := Some v, pe_unit := unit, pe_dirty := True\<rparr>)"

lemma update_point_map:
  fixes oid :: ObjectId and v :: BacnetValue and unit :: u16
  assumes "state_ok s" and "d < MAX_DEVICES"
  defines "s' \<equiv> update_point s d oid v unit"
  shows "state_ok s' \<and> (\<forall>d'. d' \<noteq> d \<longrightarrow> point_of s' d' = point_of s d')
    \<and> (if point_of s d oid = None \<and> point_counts s ! d = MAX_POINTS_PER_DEVICE
       then point_of s' d = point_of s d
       else point_of s' d = (point_of s d)(oid \<mapsto> written (point_of s d oid) oid v unit))"
proof (cases "find_point s d oid")
  case (Some i)
  define f :: "PointEntry \<Rightarrow> PointEntry" where "f = (\<lambda>p. p\<lparr>pe_present_value := Some v, pe_unit := unit, pe_dirty := True\<rparr>)"
  have s': "s' = set_point s d i (map_option f (bs_points s ! d ! i))"
    using assms(2) Some by (simp add: s'_def update_point_def f_def)
  note fp = find_point_Some [OF assms(1,2) Some]
  have id: "pe_object_id (f p) = pe_object_id p" for p by (simp add: f_def)
  note m = set_point_modify [OF assms(1,2) fp(1) id, folded s']
  have "point_of s' d = (point_of s d)(oid \<mapsto> f (entries s d ! i))"
    using map_of_entries_update [of "entries s d" i "f (entries s d ! i)"] fp(2,3) m(2)
      entries_distinct [OF state_ok_row [OF assms(1,2)]] by (simp add: point_of_def id)
  then show ?thesis
    using m(1,3) fp(4) by (auto simp: point_of_def written_def f_def)
next
  case None
  note fn = find_point_None [OF assms(1,2) None]
  show ?thesis
  proof (cases "point_counts s ! d < MAX_POINTS_PER_DEVICE")
    case True
    have s': "s' = (set_point s d (point_counts s ! d) (Some (fresh_point oid v unit)))
        \<lparr>point_counts := (point_counts s)[d := point_counts s ! d + 1]\<rparr>"
      using assms(2) None True by (simp add: s'_def update_point_def fresh_point_def Let_def)
    have n: "pe_object_id (fresh_point oid v unit) = oid" by (simp add: fresh_point_def)
    note m = append_point [OF assms(1,2) True, of "fresh_point oid v unit", unfolded n, OF fn(2), folded s']
    have "point_of s' d = (point_of s d)(oid \<mapsto> fresh_point oid v unit)"
      using map_of_entries_append [of "fresh_point oid v unit" "entries s d"] fn(2) m(2)
      by (simp add: point_of_def n)
    then show ?thesis
      using m(1,3) fn(1) True by (auto simp: point_of_def written_def)
  next
    case False
    then have "s' = s" using assms(2) None by (simp add: s'_def update_point_def)
    moreover have "point_counts s ! d = MAX_POINTS_PER_DEVICE"
      using False state_ok_row [OF assms(1,2)] by (simp add: row_ok_def)
    ultimately show ?thesis using assms(1) fn(1) by simp
  qed
qed

text \<open>
  C3: over the finite map from object identifiers to entries that a device's row stands
  for, \<open>update_point\<close> is the map update that writes the value, unit and dirty flag and keeps
  the rest of an existing entry; it is dropped only when the point is new and all 64 slots are
  taken; other devices keep their points.
\<close>

theorem update_point_refines:
  fixes oid :: ObjectId and v :: BacnetValue and unit :: u16
  assumes "state_ok s" and "d < MAX_DEVICES"
  defines "s' \<equiv> update_point s d oid v unit"
  shows "state_ok s' \<and> (\<forall>d'. d' \<noteq> d \<longrightarrow> point_of s' d' = point_of s d')
    \<and> (if point_of s d oid = None \<and> point_counts s ! d = MAX_POINTS_PER_DEVICE
       then point_of s' d = point_of s d
       else point_of s' d = (point_of s d)(oid \<mapsto> written (point_of s d oid) oid v unit))"
  using update_point_map [OF assms(1,2)] unfolding s'_def by blast

lemma bridge_new_ok: "state_ok bridge_new"
  by (simp add: state_ok_def bridge_new_def row_empty)

lemma update_point_refines_witness:
  "point_of (update_point bridge_new 0 \<lparr>object_type = AnalogInput, instance_no = 1\<rparr> Null 62) 0
     \<lparr>object_type = AnalogInput, instance_no = 1\<rparr>
   = Some (fresh_point \<lparr>object_type = AnalogInput, instance_no = 1\<rparr> Null 62)"
proof -
  have "point_of bridge_new 0 = Map.empty" "point_counts bridge_new ! 0 = 0"
    by (simp_all add: point_of_def entries_def bridge_new_def MAX_DEVICES_def)
  then show ?thesis
    using update_point_refines [OF bridge_new_ok, of 0 "\<lparr>object_type = AnalogInput, instance_no = 1\<rparr>" Null 62]
    by (simp add: bridge_consts written_def)
qed

lemma modify_ok:
  assumes "state_ok s" and "d < MAX_DEVICES" and "\<And>p. pe_object_id (f p) = pe_object_id p"
    and "i < MAX_POINTS_PER_DEVICE"
  shows "state_ok (set_point s d i (map_option f (bs_points s ! d ! i)))"
proof (cases "i < point_counts s ! d")
  case True
  then show ?thesis using set_point_modify(1) [OF assms(1,2) _ assms(3)] by blast
next
  case False
  obtain ps where "bs_points s ! d = map Some ps @ replicate (MAX_POINTS_PER_DEVICE - point_counts s ! d) None"
    "length ps = point_counts s ! d" "point_counts s ! d \<le> MAX_POINTS_PER_DEVICE"
    using state_ok_row [OF assms(1,2)] by (rule row_ok_split)
  then have "bs_points s ! d ! i = None"
    using False assms(4) by (simp add: nth_append)
  then have "(bs_points s ! d)[i := map_option f (bs_points s ! d ! i)] = bs_points s ! d"
    using list_update_id [of "bs_points s ! d" i] by simp
  then show ?thesis
    using assms(1) list_update_id [of "bs_points s" d] by (simp add: set_point_def)
qed

section \<open>Properties of the device table\<close>

definition device_ids :: "BridgeStateInner \<Rightarrow> u32 list" where
  "device_ids s = map de_device_id (take (device_count s) (devices s))"

lemma find_device_ids: "find_device s dev = find_index (\<lambda>x. x = dev) (device_ids s)"
  by (simp add: find_device_def device_ids_def find_index_map)

lemma ids_ok: "state_ok s \<Longrightarrow> distinct (device_ids s) \<and> length (device_ids s) = device_count s"
  by (simp add: state_ok_def device_ids_def)

lemma find_index_eq: "find_index (\<lambda>y. y = x) xs = None \<longleftrightarrow> x \<notin> set xs"
  by (auto simp: find_index_None)

text \<open>The three cases of \<open>upsert_device\<close>: known, a free slot, the table full.\<close>

lemma upsert_known:
  assumes "state_ok s" and "find_device s dev = Some i" and "upsert_device s dev mac name = (j, s')"
  shows "j = i" "state_ok s'" "device_ids s' = device_ids s" "de_mac (devices s' ! i) = mac"
    "bs_points s' = bs_points s" "point_counts s' = point_counts s"
proof -
  have i: "i < device_count s" "i < length (devices s)"
    using find_index_SomeD [of "\<lambda>x. x = dev" "device_ids s" i] assms(1,2) ids_ok [OF assms(1)]
    by (simp_all add: find_device_ids state_ok_def)
  define d where "d = (let d = (devices s ! i)\<lparr>de_mac := mac\<rparr> in
    if name \<noteq> [] then d\<lparr>de_name := push_chars 32 [] name\<rparr> else d)"
  have s': "s' = s\<lparr>devices := (devices s)[i := d]\<rparr>" "j = i"
    using assms(2,3) by (auto simp: upsert_device_def d_def Let_def)
  have d: "de_device_id d = de_device_id (devices s ! i)" "de_mac d = mac"
    by (simp_all add: d_def Let_def)
  have "(map de_device_id (devices s))[i := de_device_id d] = map de_device_id (devices s)"
    using i d(1) list_update_id [of "map de_device_id (devices s)" i] by simp
  then show ids: "device_ids s' = device_ids s"
    by (simp add: device_ids_def s' map_update take_map [symmetric])
  show "j = i" "bs_points s' = bs_points s" "point_counts s' = point_counts s" "de_mac (devices s' ! i) = mac"
    using s' i d by simp_all
  show "state_ok s'"
    using assms(1) ids unfolding state_ok_def device_ids_def by (simp add: s')
qed

lemma upsert_new:
  assumes "state_ok s" and "find_device s dev = None" and "device_count s < MAX_DEVICES"
    and "upsert_device s dev mac name = (j, s')"
  shows "j = device_count s" "state_ok s'" "device_ids s' = device_ids s @ [dev]"
    "de_mac (devices s' ! j) = mac" "bs_points s' = bs_points s" "point_counts s' = point_counts s"
proof -
  define d where "d = (let d = device_empty\<lparr>de_device_id := dev, de_mac := mac\<rparr> in
    if name \<noteq> [] then d\<lparr>de_name := push_chars 32 (de_name d) name\<rparr> else d)"
  have s': "s' = s\<lparr>device_count := device_count s + 1, devices := (devices s)[device_count s := d]\<rparr>"
    "j = device_count s"
    using assms(2-4) by (auto simp: upsert_device_def d_def Let_def)
  have d: "de_device_id d = dev" "de_mac d = mac" by (simp_all add: d_def Let_def)
  have l: "device_count s < length (devices s)" using assms(1,3) by (simp add: state_ok_def)
  then show ids: "device_ids s' = device_ids s @ [dev]"
    by (simp add: device_ids_def s' d take_Suc_conv_app_nth)
  have "dev \<notin> set (device_ids s)" using assms(2) by (simp add: find_device_ids find_index_eq)
  then have "distinct (device_ids s')" using ids ids_ok [OF assms(1)] by simp
  then show "state_ok s'"
    using assms(1,3) unfolding state_ok_def device_ids_def by (simp add: s')
  show "j = device_count s" "bs_points s' = bs_points s" "point_counts s' = point_counts s"
    "de_mac (devices s' ! j) = mac"
    using s' l d by simp_all
qed

lemma upsert_evict:
  assumes "state_ok s" and "find_device s dev = None" and "\<not> device_count s < MAX_DEVICES"
    and "upsert_device s dev mac name = (j, s')"
  shows "j = 0" "state_ok s'" "device_ids s' = (device_ids s)[0 := dev]" "de_mac (devices s' ! 0) = mac"
    "entries s' 0 = []" "d' \<noteq> 0 \<Longrightarrow> entries s' d' = entries s d'"
proof -
  define d where "d = (let d = device_empty\<lparr>de_device_id := dev, de_mac := mac\<rparr> in
    if name \<noteq> [] then d\<lparr>de_name := push_chars 32 (de_name d) name\<rparr> else d)"
  have s': "s' = s\<lparr>point_counts := (point_counts s)[0 := 0],
      bs_points := (bs_points s)[0 := map (\<lambda>_. None) (bs_points s ! 0)], devices := (devices s)[0 := d]\<rparr>"
    "j = 0"
    using assms(2-4) by (auto simp: upsert_device_def d_def Let_def)
  have d: "de_device_id d = dev" "de_mac d = mac" by (simp_all add: d_def Let_def)
  have l: "device_count s = MAX_DEVICES" "length (devices s) = MAX_DEVICES"
    "length (bs_points s) = MAX_DEVICES" "length (point_counts s) = MAX_DEVICES" "0 < MAX_DEVICES"
    using assms(1,3) by (simp_all add: state_ok_def MAX_DEVICES_def)
  show ids: "device_ids s' = (device_ids s)[0 := dev]"
    using l by (simp add: device_ids_def s' map_update d)
  have "dev \<notin> set (device_ids s)" using assms(2) by (simp add: find_device_ids find_index_eq)
  then have "distinct (device_ids s')"
    using ids ids_ok [OF assms(1)] by (simp add: distinct_list_update)
  moreover have "row_ok 0 (map (\<lambda>_. None) (bs_points s ! 0))"
    using row_cleared [OF state_ok_row [OF assms(1) l(5)]] row_empty by simp
  ultimately show "state_ok s'"
    using assms(1) l unfolding state_ok_def device_ids_def by (simp add: s' nth_list_update)
  show "j = 0" "de_mac (devices s' ! 0) = mac" "entries s' 0 = []"
    "d' \<noteq> 0 \<Longrightarrow> entries s' d' = entries s d'"
    using s' l d by (simp_all add: entries_def)
qed

lemma upsert_device_ok:
  "state_ok s \<Longrightarrow> upsert_device s dev mac name = (i, s') \<Longrightarrow> state_ok s'"
  using upsert_known(2) [of s dev] upsert_new(2) [of s dev] upsert_evict(2) [of s dev]
  by (cases "find_device s dev") blast+

lemma upsert_device_map:
  assumes "state_ok s" and "upsert_device s dev mac name = (i, s')"
  shows "state_ok s' \<and> find_device s' dev = Some i \<and> de_mac (devices s' ! i) = mac
    \<and> (\<forall>dev'. dev' \<noteq> dev \<longrightarrow> find_device s' dev' =
          (if find_device s dev = None \<and> device_count s = MAX_DEVICES \<and> find_device s dev' = Some 0
           then None else find_device s dev'))"
proof (cases "find_device s dev")
  case (Some k)
  note u = upsert_known [OF assms(1) Some assms(2)]
  then show ?thesis using Some by (simp add: find_device_ids)
next
  case None
  then have n: "dev \<notin> set (device_ids s)" by (simp add: find_device_ids find_index_eq)
  show ?thesis
  proof (cases "device_count s < MAX_DEVICES")
    case True
    note u = upsert_new [OF assms(1) None True assms(2)]
    have "find_index (\<lambda>x. x = dev) (device_ids s) = None" using n by (simp add: find_index_eq)
    then show ?thesis
      using u True ids_ok [OF assms(1)] by (auto simp: find_device_ids find_index_snoc split: option.splits)
  next
    case False
    note u = upsert_evict [OF assms(1) None False assms(2)]
    have c: "device_count s = MAX_DEVICES" using False assms(1) by (simp add: state_ok_def)
    then obtain x xs where x: "device_ids s = x # xs" "x \<notin> set xs"
      using ids_ok [OF assms(1)] by (cases "device_ids s") (auto simp: MAX_DEVICES_def)
    have "find_index (\<lambda>y. y = x) xs = None" using x(2) by (simp add: find_index_eq)
    then show ?thesis
      using u(1,2,4) u(3) x(1) None c by (auto simp: find_device_ids)
  qed
qed

text \<open>
  C26: after \<open>upsert_device\<close> the device is found at the returned slot with the new MAC
  address, and every other device keeps its slot, except that a new device in a full table
  takes slot 0 from the one that had it.
\<close>

theorem upsert_device_refines:
  assumes "state_ok s" and "upsert_device s dev mac name = (i, s')"
  shows "state_ok s' \<and> find_device s' dev = Some i \<and> de_mac (devices s' ! i) = mac
    \<and> (\<forall>dev'. dev' \<noteq> dev \<longrightarrow> find_device s' dev' =
          (if find_device s dev = None \<and> device_count s = MAX_DEVICES \<and> find_device s dev' = Some 0
           then None else find_device s dev'))"
  using upsert_device_map [OF assms] .

lemma upsert_device_refines_witness:
  "find_device (snd (upsert_device bridge_new 42 5 [])) 42 = Some 0"
  using upsert_device_refines [OF bridge_new_ok, of 42 5 "[]" 0 "snd (upsert_device bridge_new 42 5 [])"]
  by (simp add: upsert_device_def find_device_def bridge_new_def MAX_DEVICES_def)

section \<open>Every reachable state\<close>

text \<open>The states the bridge reaches: any sequence of calls of the operations from the empty state.\<close>

inductive bridge_reachable :: "BridgeStateInner \<Rightarrow> bool" where
  reach_new: "bridge_reachable bridge_new"
| reach_upsert: "bridge_reachable s \<Longrightarrow> upsert_device s dev mac name = (i, s') \<Longrightarrow> bridge_reachable s'"
| reach_update: "bridge_reachable s \<Longrightarrow>
    bridge_reachable (update_point_with_pipeline s d oid v unit mode ps)"
| reach_unit: "bridge_reachable s \<Longrightarrow> bridge_reachable (update_point_unit s d oid unit)"
| reach_clean: "bridge_reachable s \<Longrightarrow> bridge_reachable (mark_clean s d i)"

lemma update_point_ok: "state_ok s \<Longrightarrow> state_ok (update_point s d oid v unit)"
proof (cases "d < MAX_DEVICES")
  case True
  define f :: "PointEntry \<Rightarrow> PointEntry" where
    "f = (\<lambda>p. p\<lparr>pe_present_value := Some v, pe_unit := unit, pe_dirty := True\<rparr>)"
  assume ok: "state_ok s"
  show ?thesis
  proof (cases "find_point s d oid")
    case None
    then show ?thesis
      using append_point(1) [OF ok True, of "fresh_point oid v unit"] find_point_None(2) [OF ok True None] ok True
      by (auto simp: update_point_def fresh_point_def Let_def)
  next
    case (Some i)
    have "state_ok (set_point s d i (map_option f (bs_points s ! d ! i)))"
      by (rule set_point_modify(1) [OF ok True find_point_Some(1) [OF ok True Some]]) (simp add: f_def)
    then show ?thesis using Some True by (simp add: update_point_def f_def)
  qed
qed (simp add: update_point_def)

lemma update_point_unit_ok: "state_ok s \<Longrightarrow> state_ok (update_point_unit s d oid unit)"
  using set_point_modify(1) [of s d _ "\<lambda>p. p\<lparr>pe_unit := unit\<rparr>"] find_point_Some(1) [of s d oid]
  by (auto simp: update_point_unit_def split: option.split)

text \<open>
  C6: in every reachable state the arrays have their sizes, the tracked devices have distinct
  identifiers, and every row holds \<open>point_counts\<close> entries with distinct object identifiers
  followed by empty slots: no lookup ever meets a hole or a duplicate.
\<close>

theorem bridge_invariant:
  assumes "bridge_reachable s"
  shows "state_ok s"
  using assms
proof induction
  case reach_new
  show ?case by (rule bridge_new_ok)
next
  case (reach_upsert s dev mac name i s')
  then show ?case using upsert_device_ok by blast
next
  case (reach_update s d oid v unit mode ps)
  then show ?case
    by (auto simp: update_point_with_pipeline_def update_point_ok split: PointMode.split)
next
  case (reach_unit s d oid unit)
  then show ?case by (simp add: update_point_unit_ok)
next
  case (reach_clean s d i)
  then show ?case
    using modify_ok [of s d "\<lambda>p. p\<lparr>pe_dirty := False\<rparr>" i] by (simp add: mark_clean_def)
qed

lemma bridge_invariant_witness:
  "state_ok (update_point_with_pipeline bridge_new 0 \<lparr>object_type = AnalogInput, instance_no = 1\<rparr>
     (Real 0) 62 Passthrough [])"
  by (rule bridge_invariant) (rule reach_update [OF reach_new])

text \<open>
  The unit written by \<open>update_point_unit\<close> is the one \<open>get_point_unit\<close> returns, for a
  known point; for an unknown point it is dropped and the unit reads as 0. The value and the
  dirty flag do not change.
\<close>

theorem point_unit_lookup:
  assumes "state_ok s" and "d < MAX_DEVICES"
  shows "get_point_unit (update_point_unit s d oid unit) d oid = (if point_of s d oid = None then 0 else unit)
    \<and> point_of (update_point_unit s d oid unit) d =
        (case point_of s d oid of None \<Rightarrow> point_of s d
         | Some e \<Rightarrow> (point_of s d)(oid \<mapsto> e\<lparr>pe_unit := unit\<rparr>))"
proof (cases "find_point s d oid")
  case None
  then show ?thesis
    using find_point_None [OF assms None] assms(2)
    by (simp add: update_point_unit_def get_point_unit_def)
next
  case (Some i)
  define f :: "PointEntry \<Rightarrow> PointEntry" where "f = (\<lambda>p. p\<lparr>pe_unit := unit\<rparr>)"
  define s' where "s' = set_point s d i (map_option f (bs_points s ! d ! i))"
  have s': "update_point_unit s d oid unit = s'"
    using assms(2) Some by (simp add: update_point_unit_def s'_def f_def)
  note fp = find_point_Some [OF assms Some]
  have id: "pe_object_id (f p) = pe_object_id p" for p by (simp add: f_def)
  note m = set_point_modify [OF assms fp(1) id, folded s'_def]
  have p: "point_of s' d = (point_of s d)(oid \<mapsto> f (entries s d ! i))"
    using map_of_entries_update [of "entries s d" i "f (entries s d ! i)"] fp(2,3) m(2)
      entries_distinct [OF state_ok_row [OF assms]] by (simp add: point_of_def id)
  obtain k where k: "find_point s' d oid = Some k"
    using find_point_None(1) [OF m(1) assms(2), of oid] p by (cases "find_point s' d oid") auto
  note fk = find_point_Some [OF m(1) assms(2) k]
  have "entries s' d ! k = f (entries s d ! i)" using fk(4) p by simp
  then have "get_point_unit s' d oid = unit"
    using k fk(5) assms(2) by (simp add: get_point_unit_def f_def)
  then show ?thesis using s' p fp(4) by (simp add: f_def)
qed

lemma point_unit_lookup_witness:
  "get_point_unit (update_point_unit bridge_new 0 \<lparr>object_type = AnalogInput, instance_no = 1\<rparr> 62) 0
     \<lparr>object_type = AnalogInput, instance_no = 1\<rparr> = 0"
  using point_unit_lookup [OF bridge_new_ok, of 0 "\<lparr>object_type = AnalogInput, instance_no = 1\<rparr>" 62]
  by (simp add: MAX_DEVICES_def point_of_def entries_def bridge_new_def)

end
