(* ===== verification/Router.thy ===== *)
theory Router
  imports Apdu_Props Npdu Ipc Bridge
begin

text \<open>
  The router on core 0, \<open>firmware/src/bacnet_router.rs\<close>: what it does with each PDU it takes
  from a ring, the requests it sends, and one round of its loop.

  The two rings (\<open>firmware/src/ipc.rs\<close>), the bridge state (\<open>firmware/src/bridge.rs\<close>), the
  loaded configuration and the invoke counter are the fields of \<open>World\<close>. A handler runs with
  the locks it takes held, so it is one function on the world. A decoder that never returns is
  \<open>None\<close>; the encoders and \<open>decode_npdu\<close> never panic (\<open>encode_apdu_emit\<close>, \<open>decode_npdu_post\<close>).
\<close>

section \<open>State\<close>

definition BRIDGE_DEVICE_ID :: u32 where "BRIDGE_DEVICE_ID = 0x3FFFF"
definition VENDOR_ID :: u16 where "VENDOR_ID = 0xFFFF"
definition MAX_APDU :: u32 where "MAX_APDU = 480"

lemmas router_consts = BRIDGE_DEVICE_ID_def VENDOR_ID_def MAX_APDU_def

record World =
  w_mstp_to_ip :: RingBuffer
  w_ip_to_mstp :: RingBuffer
  w_bridge :: BridgeStateInner
  w_config :: "BridgeConfig option"
  w_invoke_id :: u8

definition world_new :: World where
  "world_new = \<lparr>w_mstp_to_ip = ring_new 8, w_ip_to_mstp = ring_new 8, w_bridge = bridge_new,
     w_config = None, w_invoke_id = 1\<rparr>"

definition push_mstp_to_ip :: "BacnetPdu \<Rightarrow> World \<Rightarrow> bool \<times> World" where
  "push_mstp_to_ip pdu s =
     (let (done, r) = ring_push pdu (w_mstp_to_ip s) in (done, s\<lparr>w_mstp_to_ip := r\<rparr>))"

definition push_ip_to_mstp :: "BacnetPdu \<Rightarrow> World \<Rightarrow> bool \<times> World" where
  "push_ip_to_mstp pdu s =
     (let (done, r) = ring_push pdu (w_ip_to_mstp s) in (done, s\<lparr>w_ip_to_mstp := r\<rparr>))"

text \<open>\<open>pdu.data[..n].copy_from_slice(..); pdu.data_len = n; pdu.pdu_type = buf[0]\<close>\<close>

definition set_data :: "bytes \<Rightarrow> BacnetPdu \<Rightarrow> BacnetPdu" where
  "set_data bs pdu = pdu\<lparr>pdu_data := bs @ drop (length bs) (pdu_data pdu),
     data_len := of_nat (length bs), pdu_type := (if bs = [] then 0xFF else bs ! 0)\<rparr>"

section \<open>Sending\<close>

definition next_invoke_id :: "World \<Rightarrow> u8 \<times> World" where
  "next_invoke_id s = (w_invoke_id s, s\<lparr>w_invoke_id := w_invoke_id s + 1\<rparr>)"

definition our_i_am :: IAmData where
  "our_i_am = \<lparr>IAmData.device_id = object_id_new Device BRIDGE_DEVICE_ID, max_apdu = MAX_APDU,
     segmentation = 3, vendor_id = VENDOR_ID\<rparr>"

definition send_i_am :: "World \<Rightarrow> World" where
  "send_i_am s =
     (case encode_i_am our_i_am (replicate 32 0) of
        Ok (buf, n) \<Rightarrow> snd (push_mstp_to_ip (set_data (take n buf) pdu_new) s)
      | _ \<Rightarrow> s)"

definition send_who_is_broadcast :: "World \<Rightarrow> World" where
  "send_who_is_broadcast s =
     (case encode_who_is None None (replicate 8 0) of
        Ok (buf, n) \<Rightarrow> snd (push_mstp_to_ip (set_data (take n buf) pdu_new) s)
      | _ \<Rightarrow> s)"

definition send_read_property :: "u8 \<Rightarrow> ObjectId \<Rightarrow> PropertyId \<Rightarrow> World \<Rightarrow> bool \<times> World" where
  "send_read_property dest oid prop s =
     (let req = \<lparr>rp_object_id = oid, rp_property_id = prop, rp_array_index = None\<rparr>;
          (invoke, s) = next_invoke_id s in
      case encode_read_property req invoke (replicate 32 0) of
        Ok (buf, n) \<Rightarrow>
          push_ip_to_mstp
            (set_data (take n buf)
               (pdu_new\<lparr>pdu_dest_mac := (pdu_dest_mac pdu_new)[0 := dest], pdu_dest_mac_len := 1\<rparr>)) s
      | _ \<Rightarrow> (True, s))"

definition send_reply :: "bytes \<Rightarrow> BacnetPdu \<Rightarrow> World \<Rightarrow> World" where
  "send_reply apdu src s =
     (let pdu = pdu_new\<lparr>pdu_dest_mac := pdu_source_mac src, pdu_dest_mac_len := pdu_source_mac_len src,
                       pdu_dest_net := pdu_source_net src\<rparr>;
          n = min (length apdu) PDU_MAX_DATA;
          pdu = (set_data (take n apdu) pdu)\<lparr>pdu_type := (if apdu = [] then 0xFF else apdu ! 0)\<rparr> in
      if pdu_source_mac_len src = 1 then snd (push_ip_to_mstp pdu s)
      else snd (push_mstp_to_ip pdu s))"

section \<open>Handling\<close>

definition handle_i_am :: "IAmData \<Rightarrow> BacnetPdu \<Rightarrow> World \<Rightarrow> World" where
  "handle_i_am iam src s =
     (let dev = instance_no (IAmData.device_id iam) in
      if dev = BRIDGE_DEVICE_ID then s
      else s\<lparr>w_bridge := snd (upsert_device (w_bridge s) dev (pdu_source_mac src ! 0) [])\<rparr>)"

text \<open>The rule of a point, or pass-through when no configuration is loaded.\<close>

definition rule_of :: "World \<Rightarrow> u32 \<Rightarrow> ObjectId \<Rightarrow> PointMode \<times> Processor list" where
  "rule_of s dev oid =
     (case w_config s of
        Some cfg \<Rightarrow> find_point_rule_for_device cfg dev (object_type_code (object_type oid)) (instance_no oid)
      | None \<Rightarrow> (Passthrough, []))"

text \<open>\<open>for dev_idx in 0..state.device_count { if state.devices[dev_idx].mac == source_mac \<close>\<dots>\<close>

definition device_of_mac :: "BridgeStateInner \<Rightarrow> u8 \<Rightarrow> nat option" where
  "device_of_mac b mac = find_index (\<lambda>d. de_mac d = mac) (take (device_count b) (devices b))"

definition set_points_loaded :: "nat \<Rightarrow> BridgeStateInner \<Rightarrow> BridgeStateInner" where
  "set_points_loaded i b = b\<lparr>devices := (devices b)[i := (devices b ! i)\<lparr>de_points_loaded := True\<rparr>]\<rparr>"

definition handle_read_property_ack :: "ReadPropertyAck \<Rightarrow> BacnetPdu \<Rightarrow> World \<Rightarrow> World" where
  "handle_read_property_ack ack src s =
     (let mac = pdu_source_mac src ! 0; b = w_bridge s; oid = ack_object_id ack in
      case ack_property_id ack of
        PresentValue \<Rightarrow>
          (case device_of_mac b mac of
             Some i \<Rightarrow>
               (let unit = get_point_unit b i oid;
                    (mode, ps) = rule_of s (de_device_id (devices b ! i)) oid
                in s\<lparr>w_bridge := update_point_with_pipeline b i oid (ack_value ack) unit mode ps\<rparr>)
           | None \<Rightarrow> s)
      | Units \<Rightarrow>
          (let code = (case ack_value ack of Enumerated c \<Rightarrow> ucast c | _ \<Rightarrow> 0) in
           case device_of_mac b mac of
             Some i \<Rightarrow> s\<lparr>w_bridge := set_points_loaded i (update_point_unit b i oid code)\<rparr>
           | None \<Rightarrow> s)
      | _ \<Rightarrow> s)"

definition bridge_property :: "PropertyId \<Rightarrow> BacnetValue option" where
  "bridge_property p =
     (case p of
        ObjectName \<Rightarrow> Some (CharString (push_ignore 64 [] (str ''BACnet Bridge'')))
      | ObjectIdentifierP \<Rightarrow> Some (ObjectIdentifier (object_id_new Device BRIDGE_DEVICE_ID))
      | ObjectTypeP \<Rightarrow> Some (Enumerated 8)
      | Description \<Rightarrow> Some (CharString (push_ignore 64 [] (str ''Icomb Place BACnet'')))
      | _ \<Rightarrow> None)"

definition handle_read_property_request ::
  "ReadPropertyRequest \<Rightarrow> u8 \<Rightarrow> BacnetPdu \<Rightarrow> World \<Rightarrow> World" where
  "handle_read_property_request req invoke src s =
     (if object_type (rp_object_id req) \<noteq> Device \<or> instance_no (rp_object_id req) \<noteq> BRIDGE_DEVICE_ID
      then s
      else
        case bridge_property (rp_property_id req) of
          None \<Rightarrow>
            (case encode_error invoke SERVICE_READ_PROPERTY 2 32 (replicate 16 0) of
               Ok (buf, n) \<Rightarrow> send_reply (take n buf) src s
             | _ \<Rightarrow> s)
        | Some v \<Rightarrow>
            (case encode_read_property_ack
                    \<lparr>ack_object_id = rp_object_id req, ack_property_id = rp_property_id req,
                     ack_array_index = rp_array_index req, ack_value = v\<rparr> invoke (replicate 128 0) of
               Ok (buf, n) \<Rightarrow> send_reply (take n buf) src s
             | _ \<Rightarrow> s))"

definition handle_cov_notification :: "CovNotification \<Rightarrow> World \<Rightarrow> World" where
  "handle_cov_notification notif s =
     (let dev = instance_no (cov_initiating_device notif); oid = cov_monitored_object notif in
      case find_device (w_bridge s) dev of
        None \<Rightarrow> s
      | Some i \<Rightarrow>
          (let (mode, ps) = rule_of s dev oid in
           s\<lparr>w_bridge :=
              foldl (\<lambda>b (prop, val).
                       if prop = PresentValue then update_point_with_pipeline b i oid val 0 mode ps
                       else b)
                (w_bridge s) (cov_values notif)\<rparr>))"

fun handle_decoded_apdu :: "DecodedApdu \<Rightarrow> BacnetPdu \<Rightarrow> World \<Rightarrow> World" where
  "handle_decoded_apdu (IAm iam) src s = handle_i_am iam src s"
| "handle_decoded_apdu (WhoIs req) src s =
     (let in_range = (case (low_limit req, high_limit req) of
                        (Some lo, Some hi) \<Rightarrow> BRIDGE_DEVICE_ID \<ge> lo \<and> BRIDGE_DEVICE_ID \<le> hi
                      | _ \<Rightarrow> True)
      in if in_range then send_i_am s else s)"
| "handle_decoded_apdu (ReadPropertyAck ack i) src s = handle_read_property_ack ack src s"
| "handle_decoded_apdu (ReadProperty req i) src s = handle_read_property_request req i src s"
| "handle_decoded_apdu (UnconfirmedCovNotification notif) src s = handle_cov_notification notif s"
| "handle_decoded_apdu other src s = s"

section \<open>Draining the rings\<close>

text \<open>One PDU: \<open>None\<close> if the decoder never returns.\<close>

type_synonym step = "(unit, World) result option"

definition dispatch_apdu :: "nat \<Rightarrow> bytes \<Rightarrow> BacnetPdu \<Rightarrow> World \<Rightarrow> step" where
  "dispatch_apdu w apdu pdu s =
     (case decode_apdu w apdu of
        None \<Rightarrow> None
      | Some (Ok d) \<Rightarrow> Some (Ok (handle_decoded_apdu d pdu s))
      | Some (Err e) \<Rightarrow> Some (Ok s)
      | Some Panic \<Rightarrow> Some Panic)"

definition process_mstp_pdu :: "nat \<Rightarrow> BacnetPdu \<Rightarrow> World \<Rightarrow> step" where
  "process_mstp_pdu w pdu s =
     (if data_len pdu = 0 then Some (Ok s)
      else
        case subslice (pdu_data pdu) 0 (unat (data_len pdu)) of
          Ok data \<Rightarrow>
            (let apdu = (case decode_npdu data of Ok (h, a) \<Rightarrow> a | _ \<Rightarrow> data) in
             if apdu = [] then Some (Ok s) else dispatch_apdu w apdu pdu s)
        | Err (_ :: unit) \<Rightarrow> Some Panic
        | Panic \<Rightarrow> Some Panic)"

definition process_ip_pdu :: "nat \<Rightarrow> BacnetPdu \<Rightarrow> World \<Rightarrow> step" where
  "process_ip_pdu w pdu s =
     (if data_len pdu = 0 then Some (Ok s)
      else
        case subslice (pdu_data pdu) 0 (unat (data_len pdu)) of
          Ok data \<Rightarrow> dispatch_apdu w data pdu s
        | Err (_ :: unit) \<Rightarrow> Some Panic
        | Panic \<Rightarrow> Some Panic)"

partial_function (option) process_mstp_pdus :: "nat \<Rightarrow> World \<Rightarrow> step" where
  "process_mstp_pdus w s =
     (case ring_pop (w_mstp_to_ip s) of
        (None, r) \<Rightarrow> Some (Ok s)
      | (Some pdu, r) \<Rightarrow>
          (case process_mstp_pdu w pdu (s\<lparr>w_mstp_to_ip := r\<rparr>) of
             None \<Rightarrow> None
           | Some (Ok s') \<Rightarrow> process_mstp_pdus w s'
           | Some (Err e) \<Rightarrow> Some (Err e)
           | Some Panic \<Rightarrow> Some Panic))"

partial_function (option) process_ip_pdus :: "nat \<Rightarrow> World \<Rightarrow> step" where
  "process_ip_pdus w s =
     (case ring_pop (w_ip_to_mstp s) of
        (None, r) \<Rightarrow> Some (Ok s)
      | (Some pdu, r) \<Rightarrow>
          (case process_ip_pdu w pdu (s\<lparr>w_ip_to_mstp := r\<rparr>) of
             None \<Rightarrow> None
           | Some (Ok s') \<Rightarrow> process_ip_pdus w s'
           | Some (Err e) \<Rightarrow> Some (Err e)
           | Some Panic \<Rightarrow> Some Panic))"

section \<open>Polling\<close>

text \<open>The requests of one poll, in order; then they are sent until the ring is full.\<close>

definition device_requests :: "BridgeStateInner \<Rightarrow> nat \<Rightarrow> (u8 \<times> ObjectId \<times> PropertyId) list" where
  "device_requests b i =
     (let dev = devices b ! i in
      if \<not> de_online dev then []
      else concat (map (\<lambda>p. case p of
                       None \<Rightarrow> []
                     | Some e \<Rightarrow> (de_mac dev, pe_object_id e, PresentValue)
                          # (if \<not> de_points_loaded dev then [(de_mac dev, pe_object_id e, Units)] else []))
                    (get_device_points b i)))"

fun send_requests :: "(u8 \<times> ObjectId \<times> PropertyId) list \<Rightarrow> World \<Rightarrow> World" where
  "send_requests [] s = s"
| "send_requests ((mac, oid, prop) # rest) s =
     (case send_read_property mac oid prop s of (sent, s') \<Rightarrow> if sent then send_requests rest s' else s')"

definition poll_device_points :: "World \<Rightarrow> World" where
  "poll_device_points s =
     (let b = w_bridge s in
      if device_count b = 0 then s
      else send_requests (concat (map (device_requests b) [0..<device_count b])) s)"

section \<open>The loop\<close>

record Router =
  world :: World
  who_is_timer :: u32
  read_timer :: u32

text \<open>One iteration of the loop of \<open>bacnet_router_task\<close>.\<close>

definition router_tick :: "nat \<Rightarrow> Router \<Rightarrow> (unit, Router) result option" where
  "router_tick w r =
     (case process_mstp_pdus w (world r) of
        None \<Rightarrow> None
      | Some Panic \<Rightarrow> Some Panic
      | Some (Err e) \<Rightarrow> Some (Err e)
      | Some (Ok s) \<Rightarrow>
          (case process_ip_pdus w s of
             None \<Rightarrow> None
           | Some Panic \<Rightarrow> Some Panic
           | Some (Err e) \<Rightarrow> Some (Err e)
           | Some (Ok s) \<Rightarrow>
               let t = who_is_timer r + 1;
                   (t, s) = (if t \<ge> 300 then (0, send_who_is_broadcast s) else (t, s));
                   q = read_timer r + 1;
                   (q, s) = (if q \<ge> 50 then (0, poll_device_points s) else (q, s))
               in Some (Ok \<lparr>world = s, who_is_timer = t, read_timer = q\<rparr>)))"

end
