(* ===== verification/Router_Props.thy ===== *)
theory Router_Props
  imports Apdu_Total Router
begin

text \<open>
  The router of \<open>bacnet_router.rs\<close>, proved: its invariant, what it answers, what it stores in
  the bridge state, and that each round of its loop ends.
\<close>

section \<open>The invariant\<close>

definition pdu_ok :: "BacnetPdu \<Rightarrow> bool" where
  "pdu_ok p \<longleftrightarrow> length (pdu_data p) = PDU_MAX_DATA \<and> unat (data_len p) \<le> PDU_MAX_DATA
     \<and> length (pdu_source_mac p) = 7 \<and> length (pdu_dest_mac p) = 7"

text \<open>\<open>&pdu.data[..pdu.data_len as usize]\<close>\<close>

definition payload :: "BacnetPdu \<Rightarrow> bytes" where
  "payload p = take (unat (data_len p)) (pdu_data p)"

definition channel_ok :: "RingBuffer \<Rightarrow> bool" where
  "channel_ok r \<longleftrightarrow> ring_ok r \<and> length (slots r) = 8 \<and> (\<forall>p \<in> set (contents r). pdu_ok p)"

definition world_ok :: "World \<Rightarrow> bool" where
  "world_ok s \<longleftrightarrow> state_ok (w_bridge s) \<and> channel_ok (w_mstp_to_ip s) \<and> channel_ok (w_ip_to_mstp s)"

lemma empty_ring_ok: "ring_ok (ring_new 8)" "contents (ring_new n) = []"
  by (auto simp: ring_ok_def ring_new_def ring_len_def contents_def intro: exI [of _ 3])

lemma world_new_ok: "world_ok world_new"
  using empty_ring_ok by (simp add: world_ok_def channel_ok_def world_new_def bridge_new_ok)
    (simp add: ring_new_def)

lemma pdu_new_ok [simp]: "pdu_ok pdu_new"
  by (simp add: pdu_ok_def pdu_new_def)

lemma set_data_ok [simp]:
  assumes "pdu_ok p" and "length bs \<le> PDU_MAX_DATA"
  shows "pdu_ok (set_data bs p)" "payload (set_data bs p) = bs"
proof -
  have "unat (of_nat (length bs) :: u16) = length bs"
    using assms(2) by (simp add: unat_of_nat PDU_MAX_DATA_def)
  then show "pdu_ok (set_data bs p)" "payload (set_data bs p) = bs"
    using assms by (simp_all add: pdu_ok_def set_data_def payload_def)
qed

lemma pdu_ok_updates [simp]:
  "pdu_ok (p\<lparr>pdu_type := t\<rparr>) = pdu_ok p" "payload (p\<lparr>pdu_type := t\<rparr>) = payload p"
  "pdu_ok p \<Longrightarrow> length m = 7 \<Longrightarrow> pdu_ok (p\<lparr>pdu_dest_mac := m\<rparr>)"
  "pdu_ok (p\<lparr>pdu_dest_mac_len := l\<rparr>) = pdu_ok p" "pdu_ok (p\<lparr>pdu_dest_net := n\<rparr>) = pdu_ok p"
  by (simp_all add: pdu_ok_def payload_def)

text \<open>A push appends to the queue or, when it is full, changes nothing.\<close>

definition pushed :: "BacnetPdu \<Rightarrow> RingBuffer \<Rightarrow> RingBuffer \<Rightarrow> bool" where
  "pushed p r r' \<longleftrightarrow> (if ring_len r < 8 then contents r' = contents r @ [p] else r' = r)"

lemma push_channel:
  assumes "channel_ok r" and "pdu_ok p" and "ring_push p r = (b, r')"
  shows "channel_ok r'" "pushed p r r'" "b = (ring_len r < 8)"
proof -
  have ok: "ring_ok r" "length (slots r) = 8" using assms(1) by (simp_all add: channel_ok_def)
  from ok(1) have "channel_ok r' \<and> pushed p r r' \<and> b = (ring_len r < 8)"
    by (cases rule: ring.push_cases [where x = p]) (use assms ok ring.bounded [of r'] in \<open>auto simp: channel_ok_def pushed_def\<close>)
  then show "channel_ok r'" "pushed p r r'" "b = (ring_len r < 8)" by simp_all
qed

text \<open>What a handler may do to one ring: nothing, or one push of a PDU in \<open>P\<close>.\<close>

definition at_most_one :: "(BacnetPdu \<Rightarrow> bool) \<Rightarrow> RingBuffer \<Rightarrow> RingBuffer \<Rightarrow> bool" where
  "at_most_one P r r' \<longleftrightarrow> r' = r \<or> (\<exists>p. P p \<and> pushed p r r')"

lemma at_most_one_intros [intro]:
  "at_most_one P r r" "P p \<Longrightarrow> pushed p r r' \<Longrightarrow> at_most_one P r r'"
  by (auto simp: at_most_one_def)

section \<open>Answers\<close>

text \<open>
  What the router writes in reply, an I-Am, a ReadProperty-ACK or an error, is told from a
  request by its first two bytes. Processing it never pushes again.
\<close>

definition answer :: "bytes \<Rightarrow> bool" where
  "answer bs \<longleftrightarrow> (case bs of
       [] \<Rightarrow> False
     | b # rest \<Rightarrow> b = 0x30 \<or> b = 0x50 \<or> (b = 0x10 \<and> rest \<noteq> [] \<and> rest ! 0 = 0))"

fun asks :: "DecodedApdu \<Rightarrow> bool" where
  "asks (WhoIs r) = True"
| "asks (ReadProperty r i) = True"
| "asks _ = False"

lemma handle_quiet:
  assumes "\<not> asks d"
  shows "w_mstp_to_ip (handle_decoded_apdu d p s) = w_mstp_to_ip s
    \<and> w_ip_to_mstp (handle_decoded_apdu d p s) = w_ip_to_mstp s"
  using assms
  by (cases d) (auto simp: handle_i_am_def handle_read_property_ack_def handle_cov_notification_def Let_def
      split: PropertyId.splits option.splits prod.splits)

lemma decode_answer_quiet:
  "yields (\<lambda>d. \<not> asks d) (decode_i_am w body)"
  "yields (\<lambda>d. \<not> asks d) (decode_read_property_ack w body i)"
  unfolding decode_i_am_def decode_read_property_ack_def
  by (intro yields_then yields_prod; simp)+

lemma answer_quiet:
  assumes "answer bs" and "decode_apdu w bs = Some (Ok d)"
  shows "\<not> asks d"
proof -
  from assms(1) obtain b rest where b: "bs = b # rest"
    "b = 0x30 \<or> b = 0x50 \<or> (b = 0x10 \<and> rest \<noteq> [] \<and> rest ! 0 = 0)"
    by (cases bs) (auto simp: answer_def)
  from b(2) show ?thesis
    using assms(2) b(1) decode_answer_quiet [THEN yieldsD]
    by (elim disjE) (auto simp: decode_apdu_def apdu_consts Let_def result_simps split: if_splits prod.splits)
qed

lemma answer_not_npdu: "answer bs \<Longrightarrow> \<exists>e. decode_npdu bs = Err e"
  by (auto simp: answer_def decode_npdu_def npdu_consts split: list.splits)

section \<open>Sending\<close>

text \<open>An encoder's output as the payload of a PDU.\<close>

lemma encoded_payload:
  assumes "length (wire_apdu a) \<le> n"
  shows "encode_apdu a (replicate n 0) = Ok (overwrite (replicate n 0) 0 (wire_apdu a), length (wire_apdu a))"
    "take (length (wire_apdu a)) (overwrite (replicate n 0) 0 (wire_apdu a)) = wire_apdu a"
  using assms by (simp_all add: encode_apdu_emit emit_def)

definition i_am_pdu :: BacnetPdu where
  "i_am_pdu = set_data (wire_apdu (IAm our_i_am)) pdu_new"

lemma wire_our_i_am: "length (wire_apdu (IAm our_i_am)) \<le> 32" "answer (wire_apdu (IAm our_i_am))"
  by (simp_all add: our_i_am_def router_consts tagged_def be_min_def be32_def answer_def)

lemma i_am_pdu_ok: "pdu_ok i_am_pdu" "payload i_am_pdu = wire_apdu (IAm our_i_am)"
  using wire_our_i_am by (simp_all add: i_am_pdu_def PDU_MAX_DATA_def)

lemma send_i_am_push: "send_i_am s = snd (push_mstp_to_ip i_am_pdu s)"
  using encoded_payload [OF wire_our_i_am(1)] by (simp add: send_i_am_def i_am_pdu_def)

lemma push_world:
  assumes "world_ok s" and "pdu_ok p"
  shows "push_mstp_to_ip p s = (b, s') \<Longrightarrow> world_ok s' \<and> pushed p (w_mstp_to_ip s) (w_mstp_to_ip s')
      \<and> s' = s\<lparr>w_mstp_to_ip := w_mstp_to_ip s'\<rparr>"
    and "push_ip_to_mstp p s = (b, s') \<Longrightarrow> world_ok s' \<and> pushed p (w_ip_to_mstp s) (w_ip_to_mstp s')
      \<and> s' = s\<lparr>w_ip_to_mstp := w_ip_to_mstp s'\<rparr> \<and> b = (ring_len (w_ip_to_mstp s) < 8)"
  using assms push_channel
  by (auto simp: world_ok_def push_mstp_to_ip_def push_ip_to_mstp_def split: prod.splits)

text \<open>The PDU of a reply.\<close>

definition reply_pdu :: "bytes \<Rightarrow> BacnetPdu \<Rightarrow> BacnetPdu" where
  "reply_pdu apdu src = set_data apdu (pdu_new\<lparr>pdu_dest_mac := pdu_source_mac src,
     pdu_dest_mac_len := pdu_source_mac_len src, pdu_dest_net := pdu_source_net src\<rparr>)"

lemma reply_pdu_ok:
  assumes "pdu_ok src" and "length apdu \<le> PDU_MAX_DATA"
  shows "pdu_ok (reply_pdu apdu src)" "payload (reply_pdu apdu src) = apdu"
proof -
  have "length (pdu_source_mac src) = 7" using assms(1) by (simp add: pdu_ok_def)
  then show "pdu_ok (reply_pdu apdu src)" "payload (reply_pdu apdu src) = apdu"
    using assms(2) by (simp_all add: reply_pdu_def)
qed

lemma set_data_type [simp]:
  "(set_data bs p)\<lparr>pdu_type := if bs = [] then 0xFF else bs ! 0\<rparr> = set_data bs p"
  by (simp add: set_data_def)

lemma send_reply_push:
  "length apdu \<le> PDU_MAX_DATA \<Longrightarrow> send_reply apdu src s =
     (if pdu_source_mac_len src = 1 then snd (push_ip_to_mstp (reply_pdu apdu src) s)
      else snd (push_mstp_to_ip (reply_pdu apdu src) s))"
  by (simp add: send_reply_def reply_pdu_def min_def)

section \<open>Each handler keeps the invariant\<close>

definition answers :: "BacnetPdu \<Rightarrow> bool" where
  "answers p \<longleftrightarrow> answer (payload p)"

text \<open>A step of the router: the invariant holds after it and each ring got at most one answer.\<close>

definition good_step :: "World \<Rightarrow> World \<Rightarrow> bool" where
  "good_step s s' \<longleftrightarrow> world_ok s' \<and> at_most_one answers (w_mstp_to_ip s) (w_mstp_to_ip s')
     \<and> at_most_one answers (w_ip_to_mstp s) (w_ip_to_mstp s')"

lemma good_step_bridge:
  "world_ok s \<Longrightarrow> state_ok b \<Longrightarrow> good_step s (s\<lparr>w_bridge := b\<rparr>)"
  "world_ok s \<Longrightarrow> good_step s s"
  by (auto simp: good_step_def world_ok_def)

lemma good_push:
  assumes "world_ok s" and "pdu_ok p" and "answers p"
  shows "good_step s (snd (push_mstp_to_ip p s))" "good_step s (snd (push_ip_to_mstp p s))"
proof -
  have "w_ip_to_mstp (s\<lparr>w_mstp_to_ip := r\<rparr>) = w_ip_to_mstp s" for r by simp
  then show "good_step s (snd (push_mstp_to_ip p s))"
    using push_world(1) [OF assms(1,2), of "fst (push_mstp_to_ip p s)" "snd (push_mstp_to_ip p s)"] assms(3)
    unfolding good_step_def by (metis at_most_one_intros prod.collapse)
  have "w_mstp_to_ip (s\<lparr>w_ip_to_mstp := r\<rparr>) = w_mstp_to_ip s" for r by simp
  then show "good_step s (snd (push_ip_to_mstp p s))"
    using push_world(2) [OF assms(1,2), of "fst (push_ip_to_mstp p s)" "snd (push_ip_to_mstp p s)"] assms(3)
    unfolding good_step_def by (metis at_most_one_intros prod.collapse)
qed

lemma good_reply:
  assumes "world_ok s" and "pdu_ok src" and "answer apdu" and "length apdu \<le> PDU_MAX_DATA"
  shows "good_step s (send_reply apdu src s)"
  using good_push [OF assms(1), of "reply_pdu apdu src"] reply_pdu_ok [OF assms(2,4)] assms(3)
  by (simp add: send_reply_push [OF assms(4)] answers_def)

text \<open>The answer to a read of a property of the bridge's own device object.\<close>

definition bridge_answer :: "ReadPropertyRequest \<Rightarrow> u8 \<Rightarrow> DecodedApdu" where
  "bridge_answer req invoke =
     (case bridge_property (rp_property_id req) of
        None \<Rightarrow> Error invoke SERVICE_READ_PROPERTY 2 32
      | Some v \<Rightarrow> ReadPropertyAck \<lparr>ack_object_id = rp_object_id req, ack_property_id = rp_property_id req,
                    ack_array_index = rp_array_index req, ack_value = v\<rparr> invoke)"

lemma length_tagged: "length (tagged t bs) = Suc (length bs)"
  by (simp add: tagged_def)

lemma length_be_min: "length (be_min v) \<le> 4"
  by (simp add: be_min_def be32_def)

lemma length_wire_optional: "length (wire_optional t x) \<le> 5"
  using length_be_min by (cases x) (simp_all add: wire_optional_def length_tagged)

lemma bridge_property_value:
  assumes "bridge_property p = Some v"
  shows "good_value v" "length (wire_value v) \<le> 30"
  using assms length_be_min [of 8]
  by (auto simp: bridge_property_def good_value_def length_tagged wire_string_def be32_def push_ignore_def push_str_def
      str_def encodable_id_def object_id_new_def BRIDGE_DEVICE_ID_def split: PropertyId.splits)

lemma length_bridge_answer:
  "length (wire_apdu (bridge_answer req i)) \<le> (case bridge_property (rp_property_id req) of None \<Rightarrow> 16 | Some v \<Rightarrow> 128)"
proof (cases "bridge_property (rp_property_id req)")
  case None
  then show ?thesis
    using length_be_min [of 2] length_be_min [of 32] by (simp add: bridge_answer_def length_tagged)
next
  case (Some v)
  then show ?thesis
    using length_be_min [of "property_code (rp_property_id req)"] length_wire_optional [of 2 "rp_array_index req"]
      bridge_property_value(2) [OF Some]
    by (simp add: bridge_answer_def length_tagged be32_def)
qed

lemma answer_bridge_answer: "answer (wire_apdu (bridge_answer req i))"
  by (simp add: bridge_answer_def answer_def split: option.split)

lemma handle_request_reply:
  "handle_read_property_request req i src s =
     (if object_type (rp_object_id req) \<noteq> Device \<or> instance_no (rp_object_id req) \<noteq> BRIDGE_DEVICE_ID then s
      else send_reply (wire_apdu (bridge_answer req i)) src s)"
proof (cases "bridge_property (rp_property_id req)")
  case None
  then have "length (wire_apdu (bridge_answer req i)) \<le> 16"
    using length_bridge_answer [of req i] by simp
  then show ?thesis
    using encoded_payload [of "bridge_answer req i" 16] None
    by (simp add: handle_read_property_request_def bridge_answer_def del: wire_apdu.simps)
next
  case (Some v)
  then have "length (wire_apdu (bridge_answer req i)) \<le> 128"
    using length_bridge_answer [of req i] by simp
  then show ?thesis
    using encoded_payload [of "bridge_answer req i" 128] Some
    by (simp add: handle_read_property_request_def bridge_answer_def del: wire_apdu.simps)
qed

lemma foldl_inv: "(\<And>b x. P b \<Longrightarrow> P (f b x)) \<Longrightarrow> P b \<Longrightarrow> P (foldl f b xs)"
  by (induction xs arbitrary: b) auto

lemma pipeline_ok: "state_ok b \<Longrightarrow> state_ok (update_point_with_pipeline b d oid v u mode ps)"
  by (auto simp: update_point_with_pipeline_def update_point_ok split: PointMode.split)

lemma upsert_ok: "state_ok b \<Longrightarrow> state_ok (snd (upsert_device b dev mac name))"
  using upsert_device_ok [of b dev mac name] by (metis prod.collapse)

lemma set_points_loaded_ok: "state_ok b \<Longrightarrow> state_ok (set_points_loaded i b)"
proof -
  have "map de_device_id (take n ((devices b)[i := (devices b ! i)\<lparr>de_points_loaded := True\<rparr>])) =
      map de_device_id (take n (devices b))" for n
    by (cases "i < length (devices b)"; rule nth_equalityI) (auto simp: nth_list_update)
  then show "state_ok b \<Longrightarrow> state_ok (set_points_loaded i b)"
    by (simp add: state_ok_def set_points_loaded_def)
qed

lemma handle_good:
  assumes "world_ok s" and "pdu_ok src"
  shows "good_step s (handle_decoded_apdu d src s)"
proof -
  have b: "state_ok (w_bridge s)" using assms(1) by (simp add: world_ok_def)
  note bridge = good_step_bridge [OF assms(1)]
  show ?thesis
  proof (cases d)
    case (WhoIs r)
    then show ?thesis
      using good_push(1) [OF assms(1) i_am_pdu_ok(1)] wire_our_i_am(2) i_am_pdu_ok(2) bridge(2)
      by (simp add: send_i_am_push answers_def Let_def del: wire_apdu.simps)
  next
    case (ReadProperty r i)
    have "length (wire_apdu (bridge_answer r i)) \<le> PDU_MAX_DATA"
      using length_bridge_answer [of r i] by (auto simp: PDU_MAX_DATA_def split: option.splits)
    then show ?thesis
      using good_reply [OF assms answer_bridge_answer] bridge(2) ReadProperty
      by (simp add: handle_request_reply)
  next
    case (ReadPropertyAck r i)
    then show ?thesis
      using bridge by (auto simp: handle_read_property_ack_def Let_def pipeline_ok b update_point_unit_ok
          set_points_loaded_ok split: PropertyId.split option.split prod.split)
  next
    case (UnconfirmedCovNotification n)
    have "state_ok (foldl (\<lambda>b (prop, val). if prop = PresentValue
        then update_point_with_pipeline b i oid val 0 mode ps else b) (w_bridge s) vs)" for i oid mode ps vs
      by (rule foldl_inv) (auto simp: pipeline_ok b)
    with UnconfirmedCovNotification show ?thesis
      using bridge by (simp add: handle_cov_notification_def Let_def split: option.split prod.split)
  qed (use bridge upsert_ok [OF b] in \<open>simp_all add: handle_i_am_def Let_def\<close>)
qed

section \<open>Each round ends\<close>

text \<open>
  Every PDU of a ring is taken once, and only a request makes the router push again, an answer
  at most. A request counts 2, an answer 1, and each step of the drain makes the sum smaller.
\<close>

definition weight :: "BacnetPdu \<Rightarrow> nat" where
  "weight p = (if answers p then 1 else 2)"

definition work :: "RingBuffer \<Rightarrow> nat" where
  "work r = sum_list (map weight (contents r))"

lemma work_at_most_one: "at_most_one answers r r' \<Longrightarrow> work r' \<le> work r + 1"
  by (auto simp: at_most_one_def pushed_def work_def weight_def split: if_splits)

lemma pop_channel:
  assumes "channel_ok r" and "ring_pop r = (x, r')"
  obtains "x = None" "r' = r" "contents r = []"
  | p where "x = Some p" "pdu_ok p" "channel_ok r'" "work r = weight p + work r'"
proof -
  have ok: "ring_ok r" using assms(1) by (simp add: channel_ok_def)
  from ok show thesis
  proof (cases rule: ring.pop_cases)
    case 1
    then show thesis using that(1) assms(2) by simp
  next
    case (2 p q)
    then show thesis using that(2) [of p] assms by (auto simp: channel_ok_def work_def)
  qed
qed

text \<open>One PDU: the router comes back, and an answer leaves both rings alone.\<close>

definition returns :: "(World \<Rightarrow> bool) \<Rightarrow> step \<Rightarrow> bool" where
  "returns P r \<longleftrightarrow> (\<exists>x. r = Some x \<and> (\<forall>e. x \<noteq> Err e) \<and> (\<forall>s. x = Ok s \<longrightarrow> P s))"

lemma returns_simps [simp]: "returns P (Some (Ok s)) = P s" "returns P (Some Panic)" "\<not> returns P None"
  "\<not> returns P (Some (Err e))"
  by (auto simp: returns_def)

definition processed :: "bool \<Rightarrow> World \<Rightarrow> World \<Rightarrow> bool" where
  "processed quiet s s' \<longleftrightarrow> good_step s s'
     \<and> (quiet \<longrightarrow> w_mstp_to_ip s' = w_mstp_to_ip s \<and> w_ip_to_mstp s' = w_ip_to_mstp s)"

lemma dispatch_returns:
  assumes "world_ok s" and "pdu_ok p" and "length apdu + 2 ^ 34 \<le> 2 ^ w"
  shows "returns (processed (answer apdu) s) (dispatch_apdu w apdu p s)"
proof -
  obtain x where x: "decode_apdu w apdu = Some x"
    using decode_apdu_some [OF assms(3)] by blast
  show ?thesis
  proof (cases x)
    case (Ok d)
    then show ?thesis
      using x handle_good [OF assms(1,2)] handle_quiet answer_quiet [of apdu w d]
      by (auto simp: dispatch_apdu_def processed_def)
  qed (use x good_step_bridge(2) [OF assms(1)] in \<open>simp_all add: dispatch_apdu_def processed_def\<close>)
qed

lemma payload_slice:
  "pdu_ok p \<Longrightarrow> subslice (pdu_data p) 0 (unat (data_len p)) = Ok (payload p)"
  by (simp add: subslice_def pdu_ok_def payload_def)

lemma payload_small: "pdu_ok p \<Longrightarrow> 35 \<le> w \<Longrightarrow> length (payload p) + 2 ^ 34 \<le> (2 :: nat) ^ w"
  using power_increasing [of 35 w "2 :: nat"] by (simp add: pdu_ok_def payload_def PDU_MAX_DATA_def)

lemma process_pdu_returns:
  assumes "world_ok s" and "pdu_ok p" and "35 \<le> w"
  shows "returns (processed (answers p) s) (process_mstp_pdu w p s)"
    and "returns (processed (answers p) s) (process_ip_pdu w p s)"
proof -
  have idle: "processed b s s" for b using good_step_bridge(2) [OF assms(1)] by (simp add: processed_def)
  note small = payload_small [OF assms(2,3)]
  show "returns (processed (answers p) s) (process_ip_pdu w p s)"
    using dispatch_returns [OF assms(1,2) small] idle
    by (simp add: process_ip_pdu_def answers_def payload_slice [OF assms(2)])
  show "returns (processed (answers p) s) (process_mstp_pdu w p s)"
  proof (cases "decode_npdu (payload p)")
    case (Ok ha)
    obtain h a where ha: "ha = (h, a)" by (cases ha)
    have "\<not> answers p" using answer_not_npdu [of "payload p"] Ok by (auto simp: answers_def)
    moreover have "length a \<le> length (payload p)"
      using decode_npdu_post [of "payload p"] Ok ha by auto
    ultimately show ?thesis
      using dispatch_returns [OF assms(1,2), of a w] small Ok ha idle
      by (auto simp: process_mstp_pdu_def returns_def processed_def payload_slice [OF assms(2)])
  qed (use dispatch_returns [OF assms(1,2) small] idle in
      \<open>auto simp: process_mstp_pdu_def answers_def Let_def payload_slice [OF assms(2)]\<close>)
qed

text \<open>One step of a drain: what the pop leaves, then the PDU.\<close>

lemma drain_step:
  assumes "world_ok s" and "35 \<le> w"
  shows "ring_pop (w_mstp_to_ip s) = (Some p, r) \<Longrightarrow> returns (\<lambda>s'. world_ok s' \<and>
      work (w_mstp_to_ip s') < work (w_mstp_to_ip s)) (process_mstp_pdu w p (s\<lparr>w_mstp_to_ip := r\<rparr>))"
    and "ring_pop (w_ip_to_mstp s) = (Some p, r) \<Longrightarrow> returns (\<lambda>s'. world_ok s' \<and>
      work (w_ip_to_mstp s') < work (w_ip_to_mstp s)) (process_ip_pdu w p (s\<lparr>w_ip_to_mstp := r\<rparr>))"
proof -
  have c: "channel_ok (w_mstp_to_ip s)" "channel_ok (w_ip_to_mstp s)"
    using assms(1) by (simp_all add: world_ok_def)
  have less: "work r' < weight p + work q" if "at_most_one answers q r'" "answers p \<longrightarrow> r' = q" for q r'
    using work_at_most_one [OF that(1)] that(2) by (auto simp: weight_def)
  show "returns (\<lambda>s'. world_ok s' \<and> work (w_mstp_to_ip s') < work (w_mstp_to_ip s))
      (process_mstp_pdu w p (s\<lparr>w_mstp_to_ip := r\<rparr>))"
    if pop: "ring_pop (w_mstp_to_ip s) = (Some p, r)"
    using c(1) pop
  proof (cases rule: pop_channel)
    case (2 q)
    then have "world_ok (s\<lparr>w_mstp_to_ip := r\<rparr>)" "pdu_ok p" using assms(1) by (simp_all add: world_ok_def)
    from process_pdu_returns(1) [OF this assms(2)] show ?thesis
      using less [of r] 2 by (auto simp: returns_def processed_def good_step_def)
  qed simp
  show "returns (\<lambda>s'. world_ok s' \<and> work (w_ip_to_mstp s') < work (w_ip_to_mstp s))
      (process_ip_pdu w p (s\<lparr>w_ip_to_mstp := r\<rparr>))"
    if pop: "ring_pop (w_ip_to_mstp s) = (Some p, r)"
    using c(2) pop
  proof (cases rule: pop_channel)
    case (2 q)
    then have "world_ok (s\<lparr>w_ip_to_mstp := r\<rparr>)" "pdu_ok p" using assms(1) by (simp_all add: world_ok_def)
    from process_pdu_returns(2) [OF this assms(2)] show ?thesis
      using less [of r] 2 by (auto simp: returns_def processed_def good_step_def)
  qed simp
qed

text \<open>Both drain loops: pop, process, repeat until the ring is empty.\<close>

locale drain =
  fixes ring :: "World \<Rightarrow> RingBuffer"
    and set_ring :: "RingBuffer \<Rightarrow> World \<Rightarrow> World"
    and handle :: "nat \<Rightarrow> BacnetPdu \<Rightarrow> World \<Rightarrow> step"
    and loop :: "nat \<Rightarrow> World \<Rightarrow> step"
  assumes unfold: "loop w s =
      (case ring_pop (ring s) of
         (None, r) \<Rightarrow> Some (Ok s)
       | (Some p, r) \<Rightarrow>
           (case handle w p (set_ring r s) of
              None \<Rightarrow> None
            | Some (Ok s') \<Rightarrow> loop w s'
            | Some (Err e) \<Rightarrow> Some (Err e)
            | Some Panic \<Rightarrow> Some Panic))"
    and channel: "world_ok s \<Longrightarrow> channel_ok (ring s)"
    and decreases: "world_ok s \<Longrightarrow> 35 \<le> w \<Longrightarrow> ring_pop (ring s) = (Some p, r) \<Longrightarrow>
      returns (\<lambda>s'. world_ok s' \<and> work (ring s') < work (ring s)) (handle w p (set_ring r s))"
begin

lemma loop_returns:
  "world_ok s \<Longrightarrow> 35 \<le> w \<Longrightarrow> returns (\<lambda>s'. world_ok s' \<and> contents (ring s') = []) (loop w s)"
proof (induction "work (ring s)" arbitrary: s rule: less_induct)
  case less
  obtain x r where pop: "ring_pop (ring s) = (x, r)" by (cases "ring_pop (ring s)")
  show ?case
    using channel [OF less.prems(1)] pop
  proof (cases rule: pop_channel)
    case 1
    then show ?thesis using less.prems pop by (subst unfold) simp
  next
    case (2 p)
    from decreases [OF less.prems] pop 2(1)
    have d: "returns (\<lambda>s'. world_ok s' \<and> work (ring s') < work (ring s)) (handle w p (set_ring r s))"
      by simp
    then obtain y where "handle w p (set_ring r s) = Some y" by (auto simp: returns_def)
    then show ?thesis
      using less.hyps less.prems(2) pop 2(1) d by (subst unfold) (cases y; simp)
  qed
qed

end

interpretation mstp: drain w_mstp_to_ip "\<lambda>r s. s\<lparr>w_mstp_to_ip := r\<rparr>" process_mstp_pdu process_mstp_pdus
  by unfold_locales (simp add: process_mstp_pdus.simps, simp add: world_ok_def, rule drain_step(1))

interpretation ip: drain w_ip_to_mstp "\<lambda>r s. s\<lparr>w_ip_to_mstp := r\<rparr>" process_ip_pdu process_ip_pdus
  by unfold_locales (simp add: process_ip_pdus.simps, simp add: world_ok_def, rule drain_step(2))

section \<open>Periodic requests\<close>

definition who_is_pdu :: BacnetPdu where
  "who_is_pdu = set_data [0x10, 0x08] pdu_new"

lemma who_is_pdu_ok: "pdu_ok who_is_pdu" "payload who_is_pdu = [0x10, 0x08]"
  by (simp_all add: who_is_pdu_def PDU_MAX_DATA_def)

lemma send_who_is_push: "send_who_is_broadcast s = snd (push_mstp_to_ip who_is_pdu s)"
  using encoded_payload [of "WhoIs \<lparr>low_limit = None, high_limit = None\<rparr>" 8]
  by (simp add: send_who_is_broadcast_def who_is_pdu_def)

lemma send_who_is_ok: "world_ok s \<Longrightarrow> world_ok (send_who_is_broadcast s)"
  using push_world(1) [OF _ who_is_pdu_ok(1)] by (metis prod.collapse send_who_is_push)

lemma length_read_request:
  "length (wire_apdu (ReadProperty \<lparr>rp_object_id = oid, rp_property_id = prop, rp_array_index = None\<rparr> i)) \<le> 14"
  using length_be_min [of "property_code prop"] by (simp add: length_tagged be32_def wire_optional_def)

definition read_request :: "ObjectId \<Rightarrow> PropertyId \<Rightarrow> u8 \<Rightarrow> DecodedApdu" where
  "read_request oid p i = ReadProperty \<lparr>rp_object_id = oid, rp_property_id = p, rp_array_index = None\<rparr> i"

definition mstp_pdu :: "u8 \<Rightarrow> BacnetPdu" where
  "mstp_pdu mac = pdu_new\<lparr>pdu_dest_mac := (pdu_dest_mac pdu_new)[0 := mac], pdu_dest_mac_len := 1\<rparr>"

lemma mstp_pdu_ok [simp]: "pdu_ok (mstp_pdu mac)"
  by (simp add: mstp_pdu_def pdu_ok_def pdu_new_def)

lemma send_read_property_push:
  "send_read_property mac oid p s =
     push_ip_to_mstp (set_data (wire_apdu (read_request oid p (w_invoke_id s))) (mstp_pdu mac))
       (s\<lparr>w_invoke_id := w_invoke_id s + 1\<rparr>)"
proof -
  have l: "length (wire_apdu (read_request oid p (w_invoke_id s))) \<le> 32"
    using length_read_request [of oid p "w_invoke_id s"] by (simp add: read_request_def del: wire_apdu.simps)
  show ?thesis
    using encoded_payload [OF l] unfolding read_request_def
    by (simp add: send_read_property_def next_invoke_id_def mstp_pdu_def del: wire_apdu.simps)
qed

lemma send_read_property_ok:
  assumes "world_ok s" and "send_read_property mac oid p s = (sent, s')"
  shows "world_ok s'"
proof -
  have "pdu_ok (set_data (wire_apdu (read_request oid p i)) (mstp_pdu mac))" for i
    using length_read_request [of oid p i] by (simp add: read_request_def PDU_MAX_DATA_def del: wire_apdu.simps)
  moreover have "world_ok (s\<lparr>w_invoke_id := w_invoke_id s + 1\<rparr>)"
    using assms(1) by (simp add: world_ok_def)
  ultimately show ?thesis
    using push_world(2) assms(2) unfolding send_read_property_push by blast
qed

lemma send_requests_ok: "world_ok s \<Longrightarrow> world_ok (send_requests rs s)"
proof (induction rs s rule: send_requests.induct)
  case (2 mac oid p rest s)
  obtain sent s' where s': "send_read_property mac oid p s = (sent, s')"
    by (cases "send_read_property mac oid p s")
  from send_read_property_ok [OF "2.prems" s'] "2.IH" s' show ?case by simp
qed simp

lemma poll_ok: "world_ok s \<Longrightarrow> world_ok (poll_device_points s)"
  by (simp add: poll_device_points_def Let_def send_requests_ok)

section \<open>A round of the loop\<close>

definition timers_ok :: "Router \<Rightarrow> bool" where
  "timers_ok r \<longleftrightarrow> who_is_timer r < 300 \<and> read_timer r < 50"

lemma tick_ok:
  assumes "world_ok (world r)" and "35 \<le> w"
  shows "\<exists>x. router_tick w r = Some x \<and> (\<forall>e. x \<noteq> Err e)
    \<and> (\<forall>r'. x = Ok r' \<longrightarrow> world_ok (world r') \<and> timers_ok r')"
proof -
  from mstp.loop_returns [OF assms] obtain x where x: "process_mstp_pdus w (world r) = Some x"
    "\<forall>e. x \<noteq> Err e" "\<And>s. x = Ok s \<Longrightarrow> world_ok s" by (auto simp: returns_def)
  show ?thesis
  proof (cases x)
    case (Ok s)
    from ip.loop_returns [OF x(3) [OF Ok] assms(2)] obtain y where y: "process_ip_pdus w s = Some y"
      "\<forall>e. y \<noteq> Err e" "\<And>s. y = Ok s \<Longrightarrow> world_ok s" by (auto simp: returns_def)
    then show ?thesis
      using x(1) Ok by (cases y) (auto simp: router_tick_def timers_ok_def Let_def send_who_is_ok poll_ok)
  qed (use x in \<open>auto simp: router_tick_def\<close>)
qed



end
