(* ===== verification/Bip.thy ===== *)
theory Bip
  imports Bvlc Router_Props
begin

text \<open>
  The BACnet/IP task, \<open>firmware/src/bacnet_ip.rs\<close>: the datagram built from an outgoing PDU
  (\<open>encode_bvlc_pdu\<close>) with its destination, the drain of the outgoing ring, and an incoming
  datagram (\<open>handle_incoming\<close>). The socket is outside the model: a datagram is its bytes with an
  IPv4 address of four octets and a port.
\<close>

record Endpoint =
  ep_addr :: bytes
  ep_port :: u16

definition BROADCAST_ADDR :: bytes where "BROADCAST_ADDR = [255, 255, 255, 255]"

section \<open>Outgoing\<close>

definition pdu_header :: "BacnetPdu \<Rightarrow> NpduHeader" where
  "pdu_header pdu =
     (let h = (npdu_local False)\<lparr>dest_net := pdu_dest_net pdu\<rparr>;
          h = (if pdu_dest_mac_len pdu > 0
               then h\<lparr>dest_present := True, dest_mac_len := pdu_dest_mac_len pdu,
                      dest_mac := pdu_dest_mac pdu, hop_count := 0xFF\<rparr> else h);
          h = h\<lparr>src_net := pdu_source_net pdu\<rparr>
      in (if pdu_source_mac_len pdu > 0
          then h\<lparr>src_present := True, src_mac_len := pdu_source_mac_len pdu, src_mac := pdu_source_mac pdu\<rparr>
          else h))"

text \<open>\<open>None\<close> is the code's \<open>None\<close>; a panic is \<open>Panic\<close>.\<close>

definition encode_bvlc_pdu :: "BacnetPdu \<Rightarrow> bytes \<Rightarrow> (unit, (bytes \<times> nat) option) result" where
  "encode_bvlc_pdu pdu buf =
     (if length buf < 4 then Ok None
      else
        and_then (subslice (pdu_data pdu) 0 (min (unat (data_len pdu)) PDU_MAX_DATA)) (\<lambda>apdu.
        case encode_npdu (pdu_header pdu) apdu (drop 4 buf) of
          Ok (rest, npdu_len) \<Rightarrow>
            (let total = 4 + npdu_len in
             and_then (put (take 4 buf @ rest) 0
                 [BVLC_TYPE, if pdu_dest_mac_len pdu = 0 then BVLC_ORIGINAL_BROADCAST else BVLC_ORIGINAL_UNICAST,
                  of_nat (total div 256), of_nat total]) (\<lambda>buf. Ok (Some (buf, total))))
        | Err e \<Rightarrow> Ok None
        | Panic \<Rightarrow> Panic))"

definition destination :: "BacnetPdu \<Rightarrow> Endpoint" where
  "destination pdu =
     (if pdu_dest_mac_len pdu = 0 then \<lparr>ep_addr = BROADCAST_ADDR, ep_port = BACNET_IP_PORT\<rparr>
      else if pdu_dest_mac_len pdu \<ge> 6 then
        \<lparr>ep_addr = take 4 (pdu_dest_mac pdu),
         ep_port = of_be16 (pdu_dest_mac pdu ! 4) (pdu_dest_mac pdu ! 5)\<rparr>
      else \<lparr>ep_addr = BROADCAST_ADDR, ep_port = BACNET_IP_PORT\<rparr>)"

text \<open>
  The inner loop of \<open>bacnet_ip_task\<close>: every PDU of the outgoing ring. The fuel is the number of
  pops; \<open>drain_outgoing_all\<close> shows that the ring's length is enough.
\<close>

fun drain_outgoing :: "nat \<Rightarrow> bytes \<Rightarrow> RingBuffer \<Rightarrow> (unit, (bytes \<times> Endpoint) list \<times> RingBuffer) result" where
  "drain_outgoing 0 buf r = Ok ([], r)"
| "drain_outgoing (Suc n) buf r =
     (case ring_pop r of
        (None, r') \<Rightarrow> Ok ([], r)
      | (Some pdu, r') \<Rightarrow>
          and_then (encode_bvlc_pdu pdu buf) (\<lambda>out.
          case out of
            None \<Rightarrow> drain_outgoing n buf r'
          | Some (buf', len) \<Rightarrow>
              and_then (subslice buf' 0 len) (\<lambda>dgram.
              and_then (drain_outgoing n buf' r') (\<lambda>(sent, r'').
                Ok ((dgram, destination pdu) # sent, r'')))))"

section \<open>Incoming\<close>

text \<open>The source address, written byte by byte into the array of zeros.\<close>

definition source_mac :: "Endpoint \<Rightarrow> bytes" where
  "source_mac remote = take 4 (ep_addr remote) @ be16 (ep_port remote) @ [0]"

definition incoming_pdu :: "NpduHeader \<Rightarrow> bytes \<Rightarrow> Endpoint \<Rightarrow> (unit, BacnetPdu) result" where
  "incoming_pdu h apdu remote =
     (let pdu = pdu_new\<lparr>pdu_source_mac := source_mac remote, pdu_source_mac_len := 6,
                       pdu_source_net := src_net h, pdu_dest_net := dest_net h\<rparr> in
      and_then
        (if dest_present h then
           (let dlen = unat (dest_mac_len h) in
            and_then (subslice (dest_mac h) 0 dlen) (\<lambda>src.
            and_then (copy_at (pdu_dest_mac pdu) 0 dlen src) (\<lambda>mac.
              Ok (pdu\<lparr>pdu_dest_mac := mac, pdu_dest_mac_len := dest_mac_len h\<rparr>))))
         else Ok pdu) (\<lambda>pdu.
      and_then (subslice apdu 0 (min (length apdu) PDU_MAX_DATA)) (\<lambda>src.
      and_then (copy_at (pdu_data pdu) 0 (min (length apdu) PDU_MAX_DATA) src) (\<lambda>data.
        Ok (pdu\<lparr>pdu_type := (if apdu = [] then 0xFF else apdu ! 0),
                data_len := of_nat (min (length apdu) PDU_MAX_DATA), pdu_data := data\<rparr>)))))"

definition handle_incoming :: "bytes \<Rightarrow> Endpoint \<Rightarrow> RingBuffer \<Rightarrow> (unit, RingBuffer) result" where
  "handle_incoming data remote ring =
     (if length data < 6 then Ok ring
      else if data ! 0 \<noteq> BVLC_TYPE then Ok ring
      else if unat (of_be16 (data ! 2) (data ! 3)) \<noteq> length data then Ok ring
      else if data ! 1 \<noteq> BVLC_ORIGINAL_UNICAST \<and> data ! 1 \<noteq> BVLC_ORIGINAL_BROADCAST then Ok ring
      else
        case decode_npdu (drop 4 data) of
          Err e \<Rightarrow> Ok ring
        | Panic \<Rightarrow> Panic
        | Ok (h, apdu) \<Rightarrow>
            (if length apdu > PDU_MAX_DATA then Ok ring
             else and_then (incoming_pdu h apdu remote) (\<lambda>pdu. Ok (snd (ring_push pdu ring)))))"

section \<open>The datagram of a PDU\<close>

definition endpoint_ok :: "Endpoint \<Rightarrow> bool" where
  "endpoint_ok e \<longleftrightarrow> length (ep_addr e) = 4"

lemma pdu_header_fields:
  "dest_present (pdu_header p) = (pdu_dest_mac_len p > 0)" "src_present (pdu_header p) = (pdu_source_mac_len p > 0)"
  "pdu_dest_mac_len p > 0 \<Longrightarrow> dest_mac_len (pdu_header p) = pdu_dest_mac_len p"
  "pdu_source_mac_len p > 0 \<Longrightarrow> src_mac_len (pdu_header p) = pdu_source_mac_len p"
  by (simp_all add: pdu_header_def npdu_local_def Let_def)

lemma pdu_header_arrays: "pdu_ok p \<Longrightarrow> mac_arrays (pdu_header p)"
  by (simp add: pdu_ok_def mac_arrays_def pdu_header_def npdu_local_def Let_def MAX_MAC_LEN_def)

definition mac_lengths_ok :: "BacnetPdu \<Rightarrow> bool" where
  "mac_lengths_ok p \<longleftrightarrow> unat (pdu_dest_mac_len p) \<le> 7 \<and> unat (pdu_source_mac_len p) \<le> 7"

definition bvlc_func :: "BacnetPdu \<Rightarrow> u8" where
  "bvlc_func p = (if pdu_dest_mac_len p = 0 then BVLC_ORIGINAL_BROADCAST else BVLC_ORIGINAL_UNICAST)"

definition datagram :: "BacnetPdu \<Rightarrow> bytes" where
  "datagram p = wire_bvlc (bvlc_func p) (wire_npdu (pdu_header p) (payload p))"

lemma encode_header_emit:
  assumes "pdu_ok p" and "mac_lengths_ok p"
  shows "encode_npdu (pdu_header p) apdu buf = emit (wire_npdu (pdu_header p) apdu) buf 0"
  by (rule encode_npdu_emit [OF pdu_header_arrays [OF assms(1)]])
    (use assms(2) in \<open>auto simp: pdu_header_fields mac_lengths_ok_def MAX_MAC_LEN_def\<close>)

lemma length_datagram:
  assumes "pdu_ok p" and "mac_lengths_ok p"
  shows "length (datagram p) = 4 + length (wire_npdu (pdu_header p) (payload p))"
    "length (datagram p) \<le> 540" "2 \<le> length (wire_npdu (pdu_header p) (payload p))"
proof -
  have "npdu_needed (pdu_header p) (payload p) \<le> 2 + 10 + 10 + 1 + length (payload p)"
    using assms(2) by (auto simp: npdu_needed_def pdu_header_fields mac_lengths_ok_def)
  moreover have "length (wire_npdu (pdu_header p) (payload p)) = npdu_needed (pdu_header p) (payload p)"
    by (rule wire_npdu_length [OF pdu_header_arrays [OF assms(1)]])
      (use assms(2) in \<open>auto simp: pdu_header_fields mac_lengths_ok_def MAX_MAC_LEN_def\<close>)
  moreover have "length (payload p) \<le> 501"
    using assms(1) by (simp add: pdu_ok_def payload_def PDU_MAX_DATA_def)
  ultimately show "length (datagram p) = 4 + length (wire_npdu (pdu_header p) (payload p))"
    "length (datagram p) \<le> 540"
    by (simp_all add: datagram_def wire_bvlc_def)
  show "2 \<le> length (wire_npdu (pdu_header p) (payload p))" by (simp add: wire_npdu_def)
qed

lemma encode_bvlc_pdu_eq:
  assumes "pdu_ok p" and "mac_lengths_ok p"
  shows "encode_bvlc_pdu p buf = Ok (if length (datagram p) \<le> length buf
     then Some (overwrite buf 0 (datagram p), length (datagram p)) else None)"
proof -
  let ?n = "wire_npdu (pdu_header p) (payload p)"
  note l = length_datagram [OF assms]
  have apdu: "subslice (pdu_data p) 0 (min (unat (data_len p)) PDU_MAX_DATA) = Ok (payload p)"
    using payload_slice [OF assms(1)] assms(1) by (simp add: pdu_ok_def min_def)
  define hdr where "hdr = [BVLC_TYPE, bvlc_func p, of_nat ((4 + length ?n) div 256), of_nat (4 + length ?n)]"
  have h: "datagram p = hdr @ ?n" "length hdr = 4" "hdr \<noteq> []"
    using l(1,2) be16_of_nat [of "4 + length ?n"]
    by (simp_all add: hdr_def datagram_def wire_bvlc_def BVLC_HEADER_SIZE_def)
  show ?thesis
  proof (cases "length (datagram p) \<le> length buf")
    case True
    then have "emit ?n (drop 4 buf) 0 = Ok (?n @ drop (4 + length ?n) buf, length ?n)"
      using l(1) by (auto simp: emit_def overwrite_def add.commute)
    moreover have "put (take 4 buf @ ?n @ drop (4 + length ?n) buf) 0 hdr
        = (Ok (overwrite buf 0 (datagram p)) :: (unit, bytes) result)"
      using True l(1) h(2) by (simp add: put_eq overwrite_def h(1))
    ultimately show ?thesis
      using True l(1) by (simp add: encode_bvlc_pdu_def apdu encode_header_emit [OF assms] Let_def
          bvlc_func_def [symmetric] hdr_def [symmetric] del: of_nat_add)
  next
    case False
    moreover have "?n \<noteq> []" using l(3) by auto
    ultimately show ?thesis
      using l by (auto simp: encode_bvlc_pdu_def apdu encode_header_emit [OF assms] emit_def)
  qed
qed

section \<open>Round trip\<close>

text \<open>A PDU whose address arrays are zero past their lengths, with nothing set in an absent address.\<close>

definition canonical_pdu :: "BacnetPdu \<Rightarrow> bool" where
  "canonical_pdu p \<longleftrightarrow> pdu_ok p \<and> mac_ok (pdu_dest_mac p) (pdu_dest_mac_len p)
     \<and> mac_ok (pdu_source_mac p) (pdu_source_mac_len p)
     \<and> (pdu_dest_mac_len p = 0 \<longrightarrow> pdu_dest_net p = 0) \<and> (pdu_source_mac_len p = 0 \<longrightarrow> pdu_source_net p = 0)"

lemma mac_ok_zero: "mac_ok m 0 \<Longrightarrow> m = replicate MAX_MAC_LEN 0"
  by (simp add: mac_ok_def)

lemma canonical_header: "canonical_pdu p \<Longrightarrow> canonical_npdu (pdu_header p)"
  by (auto simp: canonical_pdu_def canonical_npdu_def pdu_header_def npdu_local_def Let_def mac_ok_def
      word_greater_zero_iff)

lemma canonical_lengths: "canonical_pdu p \<Longrightarrow> pdu_ok p \<and> mac_lengths_ok p"
  by (simp add: canonical_pdu_def mac_lengths_ok_def mac_ok_def MAX_MAC_LEN_def)

text \<open>What the receiver puts on its ring.\<close>

definition received :: "BacnetPdu \<Rightarrow> Endpoint \<Rightarrow> BacnetPdu" where
  "received p remote = set_data (payload p) (pdu_new\<lparr>pdu_source_mac := source_mac remote,
     pdu_source_mac_len := 6, pdu_source_net := pdu_source_net p, pdu_dest_net := pdu_dest_net p,
     pdu_dest_mac := pdu_dest_mac p, pdu_dest_mac_len := pdu_dest_mac_len p\<rparr>)"

lemma incoming_pdu_eq:
  assumes "canonical_npdu h" and "length apdu \<le> PDU_MAX_DATA"
  shows "incoming_pdu h apdu remote = Ok (set_data apdu (pdu_new\<lparr>pdu_source_mac := source_mac remote,
     pdu_source_mac_len := 6, pdu_source_net := src_net h, pdu_dest_net := dest_net h,
     pdu_dest_mac := dest_mac h, pdu_dest_mac_len := dest_mac_len h\<rparr>))"
proof -
  have m: "length (dest_mac h) = 7" "unat (dest_mac_len h) \<le> 7"
    "take (unat (dest_mac_len h)) (dest_mac h) @ replicate (7 - unat (dest_mac_len h)) 0 = dest_mac h"
    using assms(1) append_take_drop_id [of "unat (dest_mac_len h)" "dest_mac h"]
    by (simp_all add: canonical_npdu_def mac_ok_def MAX_MAC_LEN_def)
  have z: "\<not> dest_present h \<Longrightarrow> dest_mac_len h = 0 \<and> dest_mac h = replicate 7 0"
    using assms(1) mac_ok_zero by (auto simp: canonical_npdu_def MAX_MAC_LEN_def)
  show ?thesis
    using m z assms(2)
    by (auto simp: incoming_pdu_def Let_def subslice_def copy_at_def set_data_def pdu_new_def min_def)
qed

lemma pdu_header_nets:
  assumes "canonical_pdu p"
  shows "src_net (pdu_header p) = pdu_source_net p" "dest_net (pdu_header p) = pdu_dest_net p"
    "dest_mac (pdu_header p) = pdu_dest_mac p" "dest_mac_len (pdu_header p) = pdu_dest_mac_len p"
  using assms mac_ok_zero [of "pdu_dest_mac p"]
  by (auto simp: canonical_pdu_def pdu_header_def npdu_local_def Let_def word_greater_zero_iff)

lemma handle_datagram:
  assumes "canonical_pdu p"
  shows "handle_incoming (datagram p) remote ring = Ok (snd (ring_push (received p remote) ring))"
proof -
  let ?n = "wire_npdu (pdu_header p) (payload p)"
  have ok: "pdu_ok p" "mac_lengths_ok p" using canonical_lengths [OF assms] by simp_all
  note l = length_datagram [OF ok]
  have d: "datagram p = BVLC_TYPE # bvlc_func p # be16 (of_nat (4 + length ?n)) @ ?n"
    by (simp add: datagram_def wire_bvlc_def BVLC_HEADER_SIZE_def)
  have u: "unat (of_be16 (datagram p ! 2) (datagram p ! 3)) = length (datagram p)"
    using l(1,2) unfolding d by (simp add: be16_def unat_of_nat del: of_nat_add)
  have h: "drop 4 (datagram p) = ?n" "datagram p ! 0 = BVLC_TYPE" "datagram p ! 1 = bvlc_func p"
    unfolding d by (simp_all add: be16_def)
  have "length (payload p) \<le> PDU_MAX_DATA" using ok(1) by (simp add: pdu_ok_def payload_def)
  then show ?thesis
    using l h u decode_wire_npdu [OF canonical_header [OF assms]] pdu_header_nets [OF assms]
      incoming_pdu_eq [OF canonical_header [OF assms]]
    by (simp add: handle_incoming_def bvlc_func_def received_def bvlc_consts)
qed


lemma i_am_canonical: "canonical_pdu i_am_pdu"
proof -
  have "pdu_dest_mac i_am_pdu = replicate 7 0" "pdu_source_mac i_am_pdu = replicate 7 0"
    "pdu_dest_mac_len i_am_pdu = 0" "pdu_source_mac_len i_am_pdu = 0" "pdu_dest_net i_am_pdu = 0"
    "pdu_source_net i_am_pdu = 0"
    by (simp_all add: i_am_pdu_def set_data_def pdu_new_def)
  then show ?thesis using i_am_pdu_ok(1) by (simp add: canonical_pdu_def mac_ok_def MAX_MAC_LEN_def)
qed


section \<open>Draining the outgoing ring\<close>

lemma drain_outgoing_all:
  assumes "ring_ok r" and "\<forall>p \<in> set (contents r). pdu_ok p \<and> mac_lengths_ok p" and "ring_len r \<le> n"
    and "540 \<le> length buf"
  shows "\<exists>r'. drain_outgoing n buf r = Ok (map (\<lambda>p. (datagram p, destination p)) (contents r), r') \<and> contents r' = []"
  using assms
proof (induction n arbitrary: r buf)
  case 0
  then have "contents r = []" using length_contents [of r] by (metis le_zero_eq length_0_conv)
  then show ?case by simp
next
  case (Suc n)
  from Suc.prems(1) show ?case
  proof (cases rule: ring.pop_cases)
    case 1
    then show ?thesis by simp
  next
    case (2 p r')
    have ok: "pdu_ok p" "mac_lengths_ok p" using Suc.prems(2) 2(4) by simp_all
    let ?b = "overwrite buf 0 (datagram p)"
    have l: "length (datagram p) \<le> length buf" using length_datagram(2) [OF ok] Suc.prems(4) by simp
    have "ring_len r' \<le> n" using Suc.prems(3) 2(4) length_contents [of r] length_contents [of r'] by simp
    then obtain r'' where "drain_outgoing n ?b r' =
        Ok (map (\<lambda>p. (datagram p, destination p)) (contents r'), r'')" "contents r'' = []"
      using Suc.IH [OF 2(2), of ?b] Suc.prems(2,4) 2(4) l by auto
    then show ?thesis
      using 2 l encode_bvlc_pdu_eq [OF ok, of buf] by (simp add: subslice_def)
  qed
qed

text \<open>
  The drain of the outgoing ring sends every PDU that is on it, in order, each to its own
  destination, and leaves the ring empty; the fuel is the number of PDUs, and the datagram of any well-formed PDU
  fits into the buffer of 1024 bytes.
\<close>

theorem bip_sends_all:
  assumes "ring_ok r" and "\<forall>p \<in> set (contents r). pdu_ok p \<and> mac_lengths_ok p" and "length buf = 1024"
  shows "\<exists>r'. drain_outgoing (ring_len r) buf r = Ok (map (\<lambda>p. (datagram p, destination p)) (contents r), r')
    \<and> contents r' = []"
  using drain_outgoing_all [OF assms(1,2), of "ring_len r" buf] assms(3) by simp

lemma bip_sends_all_witness:
  "\<exists>r'. drain_outgoing 0 (replicate 1024 0) (ring_new 8) = Ok ([], r')"
  using bip_sends_all [of "ring_new 8" "replicate 1024 0"] empty_ring_ok by (auto simp: ring_new_def ring_len_def)

section \<open>Any datagram\<close>

text \<open>
  C30: whatever arrives on the UDP port, \<open>handle_incoming\<close> does not panic, and the ring it leaves
  is a queue of well-formed PDUs with at most one PDU more.
\<close>

theorem bip_incoming_safe:
  assumes "channel_ok ring" and "endpoint_ok remote"
  shows "\<exists>ring'. handle_incoming data remote ring = Ok ring' \<and> channel_ok ring'
    \<and> (ring' = ring \<or> (\<exists>p. pdu_ok p \<and> pushed p ring ring'))"
proof (cases "decode_npdu (drop 4 data)")
  case (Ok ha)
  then obtain h apdu where d: "decode_npdu (drop 4 data) = Ok (h, apdu)" by (cases ha) simp
  have h: "canonical_npdu h" using decode_npdu_post [of "drop 4 data"] d by simp
  show ?thesis
  proof (cases "length apdu \<le> PDU_MAX_DATA")
    case True
    let ?p = "set_data apdu (pdu_new\<lparr>pdu_source_mac := source_mac remote, pdu_source_mac_len := 6,
      pdu_source_net := src_net h, pdu_dest_net := dest_net h, pdu_dest_mac := dest_mac h,
      pdu_dest_mac_len := dest_mac_len h\<rparr>)"
    have "length (source_mac remote) = 7" "length (dest_mac h) = 7"
      using assms(2) h by (simp_all add: source_mac_def endpoint_ok_def canonical_npdu_def mac_ok_def MAX_MAC_LEN_def)
    then have "pdu_ok ?p" by (intro set_data_ok True) (simp add: pdu_ok_def pdu_new_def)
    then have "channel_ok (snd (ring_push ?p ring)) \<and> pushed ?p ring (snd (ring_push ?p ring))"
      using push_channel [OF assms(1)] by (metis prod.collapse)
    then show ?thesis
      using d incoming_pdu_eq [OF h True, of remote] assms(1) \<open>pdu_ok ?p\<close>
      by (auto simp: handle_incoming_def)
  qed (use d assms(1) in \<open>simp add: handle_incoming_def\<close>)
qed (use decode_npdu_post [of "drop 4 data"] assms(1) in \<open>auto simp: handle_incoming_def\<close>)

lemma bip_incoming_safe_witness:
  "handle_incoming [0x81, 0x0A, 0, 7, 1, 0x20, 0xFF] \<lparr>ep_addr = [10, 0, 0, 1], ep_port = 47808\<rparr> (ring_new 8) \<noteq> Panic"
proof -
  have "channel_ok (ring_new 8)" using empty_ring_ok by (simp add: channel_ok_def) (simp add: ring_new_def)
  then show ?thesis
    using bip_incoming_safe [of "ring_new 8" "\<lparr>ep_addr = [10, 0, 0, 1], ep_port = 47808\<rparr>"
        "[0x81, 0x0A, 0, 7, 1, 0x20, 0xFF]"] by (auto simp: endpoint_ok_def)
qed

end
