(* ===== verification/Router_Answers.thy ===== *)
theory Router_Answers
  imports Router_Props
begin

text \<open>
  What the router answers and what it stores: the replies of \<open>handle_decoded_apdu\<close> as APDUs the
  requester can decode, the device table and point table after an I-Am, a ReadProperty-ACK, and
  the worlds the firmware reaches, where polling turns out never to send.
\<close>

section \<open>Replies\<close>

lemma i_am_pushed:
  assumes "world_ok s"
  shows "pushed i_am_pdu (w_mstp_to_ip s) (w_mstp_to_ip (send_i_am s))"
    "send_i_am s = s\<lparr>w_mstp_to_ip := w_mstp_to_ip (send_i_am s)\<rparr>"
  using push_world(1) [OF assms i_am_pdu_ok(1), of "fst (push_mstp_to_ip i_am_pdu s)" "send_i_am s"]
  unfolding send_i_am_push by simp_all

lemma decode_i_am_pdu: "6 \<le> w \<Longrightarrow> decode_apdu w (payload i_am_pdu) = Some (Ok (IAm our_i_am))"
proof -
  assume "6 \<le> w"
  then have "(2 :: nat) ^ 6 \<le> 2 ^ w" by (rule power_increasing) simp
  then have "length (wire_apdu (IAm our_i_am)) < 2 ^ w" using wire_our_i_am(1) by simp
  moreover have "good_apdu (IAm our_i_am)"
    by (simp add: our_i_am_def encodable_id_def object_id_new_def BRIDGE_DEVICE_ID_def)
  ultimately show ?thesis unfolding i_am_pdu_ok(2) by (rule decode_wire_apdu)
qed



lemma good_bridge_answer:
  assumes "rp_object_id req = object_id_new Device BRIDGE_DEVICE_ID"
  shows "good_apdu (bridge_answer req i)"
proof (cases "bridge_property (rp_property_id req)")
  case (Some v)
  then have "canonical_property (rp_property_id req)"
    by (auto simp: bridge_property_def canonical_property_def property_from_code_def split: PropertyId.splits)
  then show ?thesis
    using assms bridge_property_value(1) [OF Some] Some
    by (simp add: bridge_answer_def encodable_id_def object_id_new_def BRIDGE_DEVICE_ID_def)
qed (simp add: bridge_answer_def)

text \<open>
  A ReadProperty of the bridge's own device object is answered with one PDU, on the ring
  of the network it came from, addressed to its sender, that decodes to the property's value
  with the request's invoke identifier, or to an unknown-property error for a property the bridge does not have.
\<close>

theorem read_property_answered:
  assumes "world_ok s" and "pdu_ok src" and "8 \<le> w"
    and "rp_object_id req = object_id_new Device BRIDGE_DEVICE_ID"
  shows "\<exists>p. decode_apdu w (payload p) = Some (Ok (bridge_answer req i))
    \<and> pdu_dest_mac p = pdu_source_mac src \<and> pdu_dest_mac_len p = pdu_source_mac_len src
    \<and> (let s' = handle_decoded_apdu (ReadProperty req i) src s in
       if pdu_source_mac_len src = 1
       then pushed p (w_ip_to_mstp s) (w_ip_to_mstp s') \<and> s' = s\<lparr>w_ip_to_mstp := w_ip_to_mstp s'\<rparr>
       else pushed p (w_mstp_to_ip s) (w_mstp_to_ip s') \<and> s' = s\<lparr>w_mstp_to_ip := w_mstp_to_ip s'\<rparr>)"
proof -
  let ?a = "wire_apdu (bridge_answer req i)"
  let ?p = "reply_pdu ?a src"
  have l: "length ?a \<le> 128"
    using length_bridge_answer [of req i] by (auto split: option.splits)
  then have l': "length ?a \<le> PDU_MAX_DATA" by (simp add: PDU_MAX_DATA_def)
  have "(2 :: nat) ^ 8 \<le> 2 ^ w" by (rule power_increasing) (use assms(3) in auto)
  then have d: "decode_apdu w (payload ?p) = Some (Ok (bridge_answer req i))"
    using decode_wire_apdu [OF _ good_bridge_answer [OF assms(4)]] l reply_pdu_ok(2) [OF assms(2) l'] by simp
  have m: "pdu_dest_mac ?p = pdu_source_mac src" "pdu_dest_mac_len ?p = pdu_source_mac_len src"
    by (simp_all add: reply_pdu_def set_data_def)
  have h: "handle_decoded_apdu (ReadProperty req i) src s =
      (if pdu_source_mac_len src = 1 then snd (push_ip_to_mstp ?p s) else snd (push_mstp_to_ip ?p s))"
    using assms(4) by (simp add: handle_request_reply object_id_new_def send_reply_push [OF l'])
  note push = push_world [OF assms(1) reply_pdu_ok(1) [OF assms(2) l']]
  show ?thesis
    using d m push(1) [of "fst (push_mstp_to_ip ?p s)" "snd (push_mstp_to_ip ?p s)"]
      push(2) [of "fst (push_ip_to_mstp ?p s)" "snd (push_ip_to_mstp ?p s)"]
    unfolding h by (intro exI [of _ ?p]) (auto simp: Let_def simp del: wire_apdu.simps)
qed

lemma read_property_answered_witness:
  "\<exists>p. decode_apdu 32 (payload p) = Some (Ok (ReadPropertyAck
        \<lparr>ack_object_id = object_id_new Device BRIDGE_DEVICE_ID, ack_property_id = ObjectTypeP,
         ack_array_index = None, ack_value = Enumerated 8\<rparr> 7))"
  using read_property_answered [OF world_new_ok pdu_new_ok, of 32
      "\<lparr>rp_object_id = object_id_new Device BRIDGE_DEVICE_ID, rp_property_id = ObjectTypeP, rp_array_index = None\<rparr>" 7]
  by (auto simp: bridge_answer_def bridge_property_def)

section \<open>What is stored\<close>

text \<open>
  An I-Am from another device enters it in the bridge's table under the MAC address it came from;
  the rings, the configuration and, unless the table was full, the slots of the other devices
  stay as they were. The bridge's own I-Am is ignored.
\<close>

theorem i_am_registers:
  fixes iam :: IAmData and src :: BacnetPdu
  assumes "world_ok s"
  defines "s' \<equiv> handle_decoded_apdu (IAm iam) src s" and "dev \<equiv> instance_no (IAmData.device_id iam)"
  shows "(dev = BRIDGE_DEVICE_ID \<longrightarrow> s' = s) \<and> s' = s\<lparr>w_bridge := w_bridge s'\<rparr>
    \<and> (dev \<noteq> BRIDGE_DEVICE_ID \<longrightarrow>
        (\<exists>i. find_device (w_bridge s') dev = Some i \<and> de_mac (devices (w_bridge s') ! i) = pdu_source_mac src ! 0)
        \<and> (device_count (w_bridge s) < MAX_DEVICES \<longrightarrow>
            (\<forall>d. d \<noteq> dev \<longrightarrow> find_device (w_bridge s') d = find_device (w_bridge s) d)))"
proof -
  obtain i b where u: "upsert_device (w_bridge s) dev (pdu_source_mac src ! 0) [] = (i, b)"
    by (cases "upsert_device (w_bridge s) dev (pdu_source_mac src ! 0) []")
  have "state_ok (w_bridge s)" using assms(1) by (simp add: world_ok_def)
  from upsert_device_map [OF this u]
  show ?thesis using u by (auto simp: s'_def handle_i_am_def dev_def Let_def)
qed

lemma i_am_registers_witness:
  "\<exists>i. find_device (w_bridge (handle_decoded_apdu (IAm (our_i_am\<lparr>IAmData.device_id := object_id_new Device 7\<rparr>))
      pdu_new world_new)) 7 = Some i"
  using i_am_registers [OF world_new_ok, of "our_i_am\<lparr>IAmData.device_id := object_id_new Device 7\<rparr>" pdu_new]
  by (auto simp: BRIDGE_DEVICE_ID_def object_id_new_def)

text \<open>The value a point gets from a raw reading.\<close>

definition reading :: "PointMode \<Rightarrow> Processor list \<Rightarrow> BacnetValue \<Rightarrow> BacnetValue" where
  "reading mode ps raw = (if mode = Processed then process_value raw mode ps else raw)"

lemma device_of_mac_bound:
  "state_ok b \<Longrightarrow> device_of_mac b mac = Some d \<Longrightarrow> d < MAX_DEVICES \<and> de_mac (devices b ! d) = mac"
  using find_index_SomeD [of "\<lambda>d. de_mac d = mac" "take (device_count b) (devices b)" d]
  by (auto simp: device_of_mac_def state_ok_def)

text \<open>
  C15: a ReadProperty-ACK for the present value of a point is stored for the device it came from,
  passed through the rule of the configuration, with the unit the point already had; a point
  whose rule is \<open>Ignore\<close>, and a new point of a device with 64 points, are dropped. Nothing is
  stored when no device has the sender's address, and no other device changes.
\<close>

theorem present_value_stored:
  fixes ack :: ReadPropertyAck and src :: BacnetPdu and i :: u8
  assumes "world_ok s" and "ack_property_id ack = PresentValue"
  defines "s' \<equiv> handle_decoded_apdu (ReadPropertyAck ack i) src s" and "b \<equiv> w_bridge s"
    and "oid \<equiv> ack_object_id ack"
  shows "case device_of_mac b (pdu_source_mac src ! 0) of
      None \<Rightarrow> s' = s
    | Some d \<Rightarrow>
        (let (mode, ps) = rule_of s (de_device_id (devices b ! d)) oid in
         (\<forall>d'. d' \<noteq> d \<longrightarrow> point_of (w_bridge s') d' = point_of b d')
         \<and> point_of (w_bridge s') d =
            (if mode = Ignore \<or> point_of b d oid = None \<and> point_counts b ! d = MAX_POINTS_PER_DEVICE
             then point_of b d
             else (point_of b d)(oid \<mapsto> written (point_of b d oid) oid (reading mode ps (ack_value ack))
                                        (get_point_unit b d oid))))"
proof (cases "device_of_mac b (pdu_source_mac src ! 0)")
  case None
  then show ?thesis
    using assms(2) by (simp add: s'_def b_def handle_read_property_ack_def Let_def)
next
  case (Some d)
  have ok: "state_ok b" using assms(1) by (simp add: world_ok_def b_def)
  from device_of_mac_bound [OF ok Some] have d: "d < MAX_DEVICES" by simp
  obtain mode ps where r: "rule_of s (de_device_id (devices b ! d)) oid = (mode, ps)"
    by (cases "rule_of s (de_device_id (devices b ! d)) oid")
  have s': "w_bridge s' = update_point_with_pipeline b d oid (ack_value ack) (get_point_unit b d oid) mode ps"
    using assms(2) Some r by (simp add: s'_def b_def oid_def handle_read_property_ack_def Let_def)
  have u: "w_bridge s' = (if mode = Ignore then b
      else update_point b d oid (reading mode ps (ack_value ack)) (get_point_unit b d oid))"
    by (simp add: s' update_point_with_pipeline_def reading_def split: PointMode.split)
  show ?thesis
    using update_point_map [OF ok d, of oid "reading mode ps (ack_value ack)" "get_point_unit b d oid"] Some r u
    by (cases "mode = Ignore") simp_all
qed

text \<open>A world that knows device 7 at MAC address 5.\<close>

definition known_world :: World where
  "known_world = world_new\<lparr>w_bridge := snd (upsert_device bridge_new 7 5 [])\<rparr>"

lemma known_world_ok: "world_ok known_world"
  using world_new_ok upsert_ok [OF bridge_new_ok] by (simp add: world_ok_def known_world_def)

lemma known_world_mac: "device_of_mac (w_bridge known_world) 5 = Some 0"
  by (simp add: known_world_def device_of_mac_def upsert_device_def find_device_def bridge_new_def bridge_consts
      numeral_eq_Suc)

lemma present_value_stored_witness:
  "point_of (w_bridge (handle_decoded_apdu (ReadPropertyAck
        \<lparr>ack_object_id = object_id_new AnalogInput 3, ack_property_id = PresentValue, ack_array_index = None,
         ack_value = Real 0\<rparr> 1) (pdu_new\<lparr>pdu_source_mac := [5, 0, 0, 0, 0, 0, 0]\<rparr>) known_world)) 0
     (object_id_new AnalogInput 3) = Some (fresh_point (object_id_new AnalogInput 3) (Real 0) 0)"
proof -
  have p: "point_of (w_bridge known_world) 0 = Map.empty" "point_counts (w_bridge known_world) ! 0 = 0"
    "rule_of known_world d oid = (Passthrough, [])" "get_point_unit (w_bridge known_world) 0 oid = 0" for d oid
    by (simp_all add: known_world_def world_new_def upsert_device_def find_device_def bridge_new_def
        bridge_consts point_of_def entries_def rule_of_def get_point_unit_def find_point_def)
  show ?thesis
    using present_value_stored [OF known_world_ok, of "\<lparr>ack_object_id = object_id_new AnalogInput 3,
        ack_property_id = PresentValue, ack_array_index = None, ack_value = Real 0\<rparr>" 1
        "pdu_new\<lparr>pdu_source_mac := [5, 0, 0, 0, 0, 0, 0]\<rparr>"]
    by (simp add: known_world_mac p written_def reading_def bridge_consts)
qed

section \<open>The worlds the firmware reaches\<close>

text \<open>
  From power-on: a round of the router, and what the other tasks and core 1 do between two
  rounds. They put PDUs on either ring and take them off (\<open>bacnet_ip.rs\<close>, core 1), replace the
  configuration (\<open>http.rs\<close>, \<open>main.rs\<close>), clear dirty flags (\<open>mqtt.rs\<close>, \<open>sse.rs\<close>) and ask for the
  units of a device again (\<open>POST /api/v1/devices/{id}/refresh\<close>).
\<close>

definition unload_points :: "BridgeStateInner \<Rightarrow> u32 \<Rightarrow> BridgeStateInner" where
  "unload_points b dev =
     (case find_device b dev of
        Some i \<Rightarrow> b\<lparr>devices := (devices b)[i := (devices b ! i)\<lparr>de_points_loaded := False\<rparr>]\<rparr>
      | None \<Rightarrow> b)"

inductive reachable :: "nat \<Rightarrow> Router \<Rightarrow> bool" for w where
  start: "reachable w \<lparr>world = send_who_is_broadcast world_new, who_is_timer = 0, read_timer = 0\<rparr>"
| tick: "reachable w r \<Longrightarrow> router_tick w r = Some (Ok r') \<Longrightarrow> reachable w r'"
| from_core1: "reachable w r \<Longrightarrow> pdu_ok p \<Longrightarrow> reachable w (r\<lparr>world := snd (push_mstp_to_ip p (world r))\<rparr>)"
| from_ip: "reachable w r \<Longrightarrow> pdu_ok p \<Longrightarrow> reachable w (r\<lparr>world := snd (push_ip_to_mstp p (world r))\<rparr>)"
| to_ip: "reachable w r \<Longrightarrow>
    reachable w (r\<lparr>world := (world r)\<lparr>w_mstp_to_ip := snd (ring_pop (w_mstp_to_ip (world r)))\<rparr>\<rparr>)"
| to_core1: "reachable w r \<Longrightarrow>
    reachable w (r\<lparr>world := (world r)\<lparr>w_ip_to_mstp := snd (ring_pop (w_ip_to_mstp (world r)))\<rparr>\<rparr>)"
| configure: "reachable w r \<Longrightarrow> reachable w (r\<lparr>world := (world r)\<lparr>w_config := cfg\<rparr>\<rparr>)"
| clean: "reachable w r \<Longrightarrow>
    reachable w (r\<lparr>world := (world r)\<lparr>w_bridge := mark_clean (w_bridge (world r)) d i\<rparr>\<rparr>)"
| refresh: "reachable w r \<Longrightarrow>
    reachable w (r\<lparr>world := (world r)\<lparr>w_bridge := unload_points (w_bridge (world r)) dev\<rparr>\<rparr>)"

definition all_offline :: "BridgeStateInner \<Rightarrow> bool" where
  "all_offline b \<longleftrightarrow> (\<forall>d \<in> set (devices b). \<not> de_online d)"

lemma devices_points [simp]:
  "devices (set_point b d i p) = devices b" "devices (update_point b d oid v u) = devices b"
  "devices (update_point_with_pipeline b d oid v u mode ps) = devices b"
  "devices (update_point_unit b d oid u) = devices b" "devices (mark_clean b d i) = devices b"
proof -
  show s: "devices (set_point b d i p) = devices b" for i p by (simp add: set_point_def)
  show u: "devices (update_point b d oid v u) = devices b" for v
    by (simp add: update_point_def s Let_def split: option.split)
  show "devices (update_point_with_pipeline b d oid v u mode ps) = devices b"
    by (simp add: update_point_with_pipeline_def u split: PointMode.split)
  show "devices (update_point_unit b d oid u) = devices b"
    by (simp add: update_point_unit_def s split: option.split)
  show "devices (mark_clean b d i) = devices b" by (simp add: mark_clean_def s)
qed

lemma offline_update:
  assumes "all_offline b" and "i < length (devices b) \<Longrightarrow> \<not> de_online d"
  shows "all_offline (b\<lparr>devices := (devices b)[i := d]\<rparr>)"
  using assms set_update_subset_insert [of "devices b" i d]
  by (cases "i < length (devices b)") (auto simp: all_offline_def not_less list_update_beyond)

lemma all_offline_more [simp]:
  "all_offline (b\<lparr>bs_points := p\<rparr>) = all_offline b" "all_offline (b\<lparr>point_counts := c\<rparr>) = all_offline b"
  "all_offline (b\<lparr>device_count := n\<rparr>) = all_offline b"
  by (simp_all add: all_offline_def)

lemma offline_nth: "all_offline b \<Longrightarrow> i < length (devices b) \<Longrightarrow> \<not> de_online (devices b ! i)"
  by (simp add: all_offline_def)

lemma offline_devices:
  assumes "all_offline b"
  shows "all_offline (set_points_loaded i b)" "all_offline (unload_points b dev)"
    "all_offline (snd (upsert_device b dev mac name))"
proof -
  note off = offline_update [OF assms] offline_nth [OF assms]
  show "all_offline (set_points_loaded i b)" "all_offline (unload_points b dev)"
    using off assms by (auto simp: set_points_loaded_def unload_points_def split: option.split)
  show "all_offline (snd (upsert_device b dev mac name))"
  proof (cases "find_device b dev")
    case (Some i)
    then show ?thesis using off [of i] by (auto simp: upsert_device_def Let_def)
  next
    case None
    then show ?thesis
      using assms offline_update [of "b\<lparr>device_count := device_count b + 1\<rparr>"]
        offline_update [of "b\<lparr>point_counts := c, bs_points := p\<rparr>" for c p]
      by (auto simp: upsert_device_def Let_def device_empty_def)
  qed
qed

lemma bridge_push [simp]:
  "w_bridge (snd (push_mstp_to_ip p s)) = w_bridge s" "w_bridge (snd (push_ip_to_mstp p s)) = w_bridge s"
  by (simp_all add: push_mstp_to_ip_def push_ip_to_mstp_def split: prod.split)

lemma handle_offline:
  assumes "all_offline (w_bridge s)"
  shows "all_offline (w_bridge (handle_decoded_apdu d src s))"
proof (cases d)
  case (WhoIs r)
  then show ?thesis using assms by (simp add: send_i_am_push Let_def)
next
  case (ReadProperty r i)
  have "length (wire_apdu (bridge_answer r i)) \<le> PDU_MAX_DATA"
    using length_bridge_answer [of r i] by (auto simp: PDU_MAX_DATA_def split: option.splits)
  then show ?thesis using assms ReadProperty by (simp add: handle_request_reply send_reply_push)
next
  case (ReadPropertyAck r i)
  have "all_offline (update_point_unit b d oid u) = all_offline b"
    "all_offline (update_point_with_pipeline b d oid v u mode ps) = all_offline b" for b d oid u v mode ps
    by (simp_all add: all_offline_def)
  then show ?thesis
    using assms ReadPropertyAck offline_devices(1)
    by (auto simp: handle_read_property_ack_def Let_def split: PropertyId.split option.split prod.split)
next
  case (UnconfirmedCovNotification n)
  have "devices (foldl (\<lambda>b (prop, val). if prop = PresentValue
      then update_point_with_pipeline b i oid val 0 mode ps else b) b vs) = devices b" for i oid mode ps vs b
    by (rule foldl_inv [where P = "\<lambda>c. devices c = devices b"]) (auto split: prod.split)
  then show ?thesis
    using assms UnconfirmedCovNotification
    by (simp add: handle_cov_notification_def all_offline_def Let_def split: option.split prod.split)
qed (use assms offline_devices(3) in \<open>simp_all add: handle_i_am_def Let_def\<close>)

text \<open>A predicate on the bridge state that every handled APDU keeps is kept by both drains.\<close>

lemma process_bridge:
  assumes "\<And>d s. P (w_bridge s) \<Longrightarrow> P (w_bridge (handle_decoded_apdu d p s))" and "P (w_bridge s)"
  shows "process_mstp_pdu w p s = Some (Ok s') \<Longrightarrow> P (w_bridge s')"
    and "process_ip_pdu w p s = Some (Ok s') \<Longrightarrow> P (w_bridge s')"
  using assms
  by (auto simp: process_mstp_pdu_def process_ip_pdu_def dispatch_apdu_def Let_def
      split: if_splits result.splits option.splits)

lemma drain_cases:
  fixes h :: "BacnetPdu \<Rightarrow> RingBuffer \<Rightarrow> step" and f :: "World \<Rightarrow> step"
  assumes "(case pop of (None, r) \<Rightarrow> Some (Ok s) | (Some p, r) \<Rightarrow>
      (case h p r of None \<Rightarrow> None | Some (Ok s1) \<Rightarrow> f s1 | Some (Err e) \<Rightarrow> Some (Err e)
       | Some Panic \<Rightarrow> Some Panic)) = Some (Ok s')"
  obtains "s' = s" | p r s1 where "h p r = Some (Ok s1)" "f s1 = Some (Ok s')"
  using assms by (auto split: prod.splits option.splits result.splits)

lemma drain_bridge:
  assumes "\<And>d p s. P (w_bridge s) \<Longrightarrow> P (w_bridge (handle_decoded_apdu d p s))"
  shows "process_mstp_pdus w s = Some (Ok s') \<Longrightarrow> P (w_bridge s) \<Longrightarrow> P (w_bridge s')"
    and "process_ip_pdus w s = Some (Ok s') \<Longrightarrow> P (w_bridge s) \<Longrightarrow> P (w_bridge s')"
proof -
  have step: "process_mstp_pdu w p s = Some (Ok s') \<Longrightarrow> P (w_bridge s) \<Longrightarrow> P (w_bridge s')"
      "process_ip_pdu w p s = Some (Ok s') \<Longrightarrow> P (w_bridge s) \<Longrightarrow> P (w_bridge s')" for w p s s'
    using process_bridge [where P = P and p = p and s = s and s' = s'] assms by blast+
  let ?Q = "\<lambda>w s y. \<forall>s'. y = Ok s' \<longrightarrow> P (w_bridge s) \<longrightarrow> P (w_bridge s')"
  have "process_mstp_pdus w s = Some y \<Longrightarrow> ?Q w s y" for w s y
  proof (erule process_mstp_pdus.raw_induct [where P = ?Q, rotated], intro allI impI)
    fix f :: "nat \<Rightarrow> World \<Rightarrow> step" and w s y s'
    assume ih: "\<And>w s y. f w s = Some y \<Longrightarrow> ?Q w s y" and p: "P (w_bridge s)"
      and y: "y = Ok s'" "(case ring_pop (w_mstp_to_ip s) of (None, r) \<Rightarrow> Some (Ok s)
      | (Some pdu, r) \<Rightarrow> (case process_mstp_pdu w pdu (s\<lparr>w_mstp_to_ip := r\<rparr>) of
            None \<Rightarrow> None | Some (Ok s') \<Rightarrow> f w s' | Some (Err e) \<Rightarrow> Some (Err e)
          | Some Panic \<Rightarrow> Some Panic)) = Some y"
    from y(2) [unfolded y(1)] show "P (w_bridge s')"
    proof (rule drain_cases)
      fix pdu r s1
      assume a: "process_mstp_pdu w pdu (s\<lparr>w_mstp_to_ip := r\<rparr>) = Some (Ok s1)" "f w s1 = Some (Ok s')"
      from step(1) [OF a(1)] p have "P (w_bridge s1)" by simp
      with ih [OF a(2)] show "P (w_bridge s')" by blast
    qed (use p in simp)
  qed
  then show "process_mstp_pdus w s = Some (Ok s') \<Longrightarrow> P (w_bridge s) \<Longrightarrow> P (w_bridge s')" by blast
  have "process_ip_pdus w s = Some y \<Longrightarrow> ?Q w s y" for w s y
  proof (erule process_ip_pdus.raw_induct [where P = ?Q, rotated], intro allI impI)
    fix f :: "nat \<Rightarrow> World \<Rightarrow> step" and w s y s'
    assume ih: "\<And>w s y. f w s = Some y \<Longrightarrow> ?Q w s y" and p: "P (w_bridge s)"
      and y: "y = Ok s'" "(case ring_pop (w_ip_to_mstp s) of (None, r) \<Rightarrow> Some (Ok s)
      | (Some pdu, r) \<Rightarrow> (case process_ip_pdu w pdu (s\<lparr>w_ip_to_mstp := r\<rparr>) of
            None \<Rightarrow> None | Some (Ok s') \<Rightarrow> f w s' | Some (Err e) \<Rightarrow> Some (Err e)
          | Some Panic \<Rightarrow> Some Panic)) = Some y"
    from y(2) [unfolded y(1)] show "P (w_bridge s')"
    proof (rule drain_cases)
      fix pdu r s1
      assume a: "process_ip_pdu w pdu (s\<lparr>w_ip_to_mstp := r\<rparr>) = Some (Ok s1)" "f w s1 = Some (Ok s')"
      from step(2) [OF a(1)] p have "P (w_bridge s1)" by simp
      with ih [OF a(2)] show "P (w_bridge s')" by blast
    qed (use p in simp)
  qed
  then show "process_ip_pdus w s = Some (Ok s') \<Longrightarrow> P (w_bridge s) \<Longrightarrow> P (w_bridge s')" by blast
qed

lemma send_requests_bridge: "w_bridge (send_requests rs s) = w_bridge s"
proof (induction rs s rule: send_requests.induct)
  case (2 mac oid p rest s)
  have "w_bridge (snd (send_read_property mac oid p s)) = w_bridge s"
    by (simp add: send_read_property_push)
  with "2.IH" show ?case by (auto split: prod.split)
qed simp

lemma tick_offline:
  assumes "router_tick w r = Some (Ok r')" and "all_offline (w_bridge (world r))"
  shows "all_offline (w_bridge (world r')) \<and> timers_ok r'"
proof -
  obtain s s2 where d: "process_mstp_pdus w (world r) = Some (Ok s)" "process_ip_pdus w s = Some (Ok s2)"
    using assms(1) by (auto simp: router_tick_def split: option.splits result.splits)
  have "all_offline (w_bridge s2)"
    using drain_bridge [of all_offline, OF handle_offline] d assms(2) by blast
  then show ?thesis
    using assms(1) d by (auto simp: router_tick_def Let_def timers_ok_def send_who_is_push poll_device_points_def
        send_requests_bridge split: if_splits)
qed

lemma poll_offline:
  assumes "all_offline (w_bridge s)" and "device_count (w_bridge s) \<le> length (devices (w_bridge s))"
  shows "poll_device_points s = s"
proof -
  have "device_requests (w_bridge s) i = []" if "i < device_count (w_bridge s)" for i
    using offline_nth [OF assms(1), of i] assms(2) that by (simp add: device_requests_def)
  then have "concat (map (device_requests (w_bridge s)) [0..<device_count (w_bridge s)]) = []"
    by simp
  then show ?thesis by (simp add: poll_device_points_def Let_def del: concat_eq_Nil_conv)
qed

lemma world_updates:
  assumes "world_ok s"
  shows "pdu_ok p \<Longrightarrow> world_ok (snd (push_mstp_to_ip p s))" "pdu_ok p \<Longrightarrow> world_ok (snd (push_ip_to_mstp p s))"
    "world_ok (s\<lparr>w_mstp_to_ip := snd (ring_pop (w_mstp_to_ip s))\<rparr>)"
    "world_ok (s\<lparr>w_ip_to_mstp := snd (ring_pop (w_ip_to_mstp s))\<rparr>)"
    "world_ok (s\<lparr>w_config := c\<rparr>)" "state_ok b \<Longrightarrow> world_ok (s\<lparr>w_bridge := b\<rparr>)"
proof -
  show "pdu_ok p \<Longrightarrow> world_ok (snd (push_mstp_to_ip p s))" "pdu_ok p \<Longrightarrow> world_ok (snd (push_ip_to_mstp p s))"
    using push_world [OF assms] by (metis prod.collapse)+
  have "channel_ok r \<Longrightarrow> channel_ok (snd (ring_pop r))" for r
    using pop_channel [of r "fst (ring_pop r)" "snd (ring_pop r)"] by (metis prod.collapse)
  with assms show "world_ok (s\<lparr>w_mstp_to_ip := snd (ring_pop (w_mstp_to_ip s))\<rparr>)"
    "world_ok (s\<lparr>w_ip_to_mstp := snd (ring_pop (w_ip_to_mstp s))\<rparr>)" by (simp_all add: world_ok_def)
  show "world_ok (s\<lparr>w_config := c\<rparr>)" "state_ok b \<Longrightarrow> world_ok (s\<lparr>w_bridge := b\<rparr>)"
    using assms by (simp_all add: world_ok_def)
qed

lemma unload_points_ok: "state_ok b \<Longrightarrow> state_ok (unload_points b dev)"
proof -
  have "map de_device_id (take n ((devices b)[i := (devices b ! i)\<lparr>de_points_loaded := False\<rparr>])) =
      map de_device_id (take n (devices b))" for n i
    by (cases "i < length (devices b)"; rule nth_equalityI) (auto simp: nth_list_update)
  then show "state_ok b \<Longrightarrow> state_ok (unload_points b dev)"
    by (simp add: state_ok_def unload_points_def split: option.split)
qed

lemma mark_clean_ok: "state_ok b \<Longrightarrow> state_ok (mark_clean b d i)"
  using modify_ok [of b d "\<lambda>p. p\<lparr>pe_dirty := False\<rparr>" i] by (simp add: mark_clean_def)

lemma reachable_ok:
  assumes "reachable w r"
  shows "(35 \<le> w \<longrightarrow> world_ok (world r)) \<and> all_offline (w_bridge (world r)) \<and> timers_ok r"
  using assms
proof induction
  case start
  show ?case
    using send_who_is_ok [OF world_new_ok]
    by (simp add: timers_ok_def send_who_is_push)
      (simp add: world_new_def all_offline_def bridge_new_def device_empty_def)
next
  case (tick r r')
  then show ?case
    using tick_offline [of w r r'] tick_ok [of r w] by auto
next
  case (clean r d i)
  then show ?case using world_updates(6) mark_clean_ok by (simp add: timers_ok_def all_offline_def world_ok_def)
next
  case (refresh r dev)
  then show ?case
    using world_updates(6) unload_points_ok offline_devices(2) by (simp add: timers_ok_def world_ok_def)
qed (simp_all add: timers_ok_def world_updates)


lemma start_from_core1: "reachable w (\<lparr>world = send_who_is_broadcast world_new, who_is_timer = 0, read_timer = 0\<rparr>
    \<lparr>world := snd (push_mstp_to_ip who_is_pdu (send_who_is_broadcast world_new))\<rparr>)"
  using from_core1 [OF start who_is_pdu_ok(1), of w] by simp


text \<open>
  No reachable world has a device marked online, so the periodic poll never sends a single
  ReadProperty: points are learnt only from acknowledgements and notifications nobody asked for.
\<close>

theorem polling_never_sends:
  assumes "reachable w r" and "35 \<le> w"
  shows "poll_device_points (world r) = world r"
proof (rule poll_offline)
  from reachable_ok [OF assms(1)] assms(2) show "all_offline (w_bridge (world r))"
    "device_count (w_bridge (world r)) \<le> length (devices (w_bridge (world r)))"
    by (simp_all add: world_ok_def state_ok_def)
qed

lemma polling_never_sends_witness:
  "poll_device_points (snd (push_mstp_to_ip who_is_pdu (send_who_is_broadcast world_new))) =
   snd (push_mstp_to_ip who_is_pdu (send_who_is_broadcast world_new))"
  using polling_never_sends [OF start_from_core1, of 64] by simp

end
