(* ===== verification/Bip_Service.thy ===== *)
theory Bip_Service
  imports Bip Router_Answers
begin

text \<open>
  The BACnet/IP task and the router together: a request that arrives as a datagram, through the ring, the router and
  the other ring, to the datagram that answers it.
\<close>

section \<open>A request from the local network\<close>

text \<open>What a client sends: a unicast without routing information.\<close>

definition request_datagram :: "bytes \<Rightarrow> bytes" where
  "request_datagram apdu = wire_bvlc BVLC_ORIGINAL_UNICAST (wire_npdu (npdu_local True) apdu)"

definition request_pdu :: "bytes \<Rightarrow> Endpoint \<Rightarrow> BacnetPdu" where
  "request_pdu apdu remote = set_data apdu (pdu_new\<lparr>pdu_source_mac := source_mac remote, pdu_source_mac_len := 6\<rparr>)"

lemma local_canonical: "canonical_npdu (npdu_local e)"
  by (simp add: canonical_npdu_def npdu_local_def mac_ok_def)

lemma length_wire_local: "length (wire_npdu (npdu_local e) apdu) = 2 + length apdu"
  by (simp add: wire_npdu_def npdu_local_def)

lemma handle_request:
  assumes "length apdu \<le> PDU_MAX_DATA"
  shows "handle_incoming (request_datagram apdu) remote ring = Ok (snd (ring_push (request_pdu apdu remote) ring))"
proof -
  let ?n = "wire_npdu (npdu_local True) apdu"
  have l: "length ?n = 2 + length apdu" by (rule length_wire_local)
  then have s: "4 + length ?n < 65536" using assms by (simp add: PDU_MAX_DATA_def)
  have d: "request_datagram apdu = BVLC_TYPE # BVLC_ORIGINAL_UNICAST # be16 (of_nat (4 + length ?n)) @ ?n"
    by (simp add: request_datagram_def wire_bvlc_def BVLC_HEADER_SIZE_def)
  have u: "unat (of_be16 (request_datagram apdu ! 2) (request_datagram apdu ! 3)) = length (request_datagram apdu)"
    using s unfolding d by (simp add: be16_def unat_of_nat del: of_nat_add)
  have h: "drop 4 (request_datagram apdu) = ?n" "request_datagram apdu ! 0 = BVLC_TYPE"
    "request_datagram apdu ! 1 = BVLC_ORIGINAL_UNICAST" "\<not> length (request_datagram apdu) < 6"
    using l unfolding d by (simp_all add: be16_def)
  have "incoming_pdu (npdu_local True) apdu remote = Ok (request_pdu apdu remote)"
    unfolding incoming_pdu_eq [OF local_canonical assms]
    by (simp add: request_pdu_def npdu_local_def pdu_new_def set_data_def MAX_MAC_LEN_def)
  then show ?thesis
    using h u assms decode_wire_npdu [OF local_canonical] by (simp add: handle_incoming_def)
qed

lemma request_pdu_facts:
  assumes "length apdu \<le> PDU_MAX_DATA" and "endpoint_ok remote"
  shows "pdu_ok (request_pdu apdu remote)" "payload (request_pdu apdu remote) = apdu"
    "pdu_source_mac (request_pdu apdu remote) = source_mac remote" "pdu_source_mac_len (request_pdu apdu remote) = 6"
    "pdu_source_net (request_pdu apdu remote) = 0" "data_len (request_pdu apdu remote) = of_nat (length apdu)"
proof -
  have "length (source_mac remote) = 7" using assms(2) by (simp add: source_mac_def endpoint_ok_def)
  then have "pdu_ok (pdu_new\<lparr>pdu_source_mac := source_mac remote, pdu_source_mac_len := 6\<rparr>)" by (simp add: pdu_ok_def pdu_new_def)
  then show "pdu_ok (request_pdu apdu remote)" "payload (request_pdu apdu remote) = apdu"
    unfolding request_pdu_def by (rule set_data_ok [OF _ assms(1)])+
  show "pdu_source_mac (request_pdu apdu remote) = source_mac remote" "pdu_source_mac_len (request_pdu apdu remote) = 6"
    "pdu_source_net (request_pdu apdu remote) = 0" "data_len (request_pdu apdu remote) = of_nat (length apdu)"
    by (simp_all add: request_pdu_def set_data_def pdu_new_def)
qed

section \<open>Through the router\<close>

lemma empty_pop: "ring_ok r \<Longrightarrow> contents r = [] \<Longrightarrow> ring_pop r = (None, r)"
  by (cases rule: ring.pop_cases) auto

lemma one_pop:
  assumes "ring_ok r" and "contents r = [p]"
  obtains r' where "ring_pop r = (Some p, r')" "ring_ok r'" "contents r' = []"
  using assms(1) by (cases rule: ring.pop_cases) (use assms(2) in auto)

text \<open>The outgoing ring with one PDU on it is sent and empty.\<close>

lemma drain_one:
  assumes "ring_ok r" and "contents r = [p]" and "pdu_ok p" and "mac_lengths_ok p" and "length buf = 1024"
  shows "\<exists>r'. drain_outgoing (ring_len r) buf r = Ok ([(datagram p, destination p)], r') \<and> contents r' = []"
  using drain_outgoing_all [OF assms(1), of "ring_len r" buf] assms(2-5) by simp

lemma push_one:
  assumes "channel_ok r" and "contents r = []" and "pdu_ok p"
  shows "channel_ok (snd (ring_push p r))" "contents (snd (ring_push p r)) = [p]"
proof -
  obtain b r' where b: "ring_push p r = (b, r')" by (cases "ring_push p r")
  have "ring_len r = 0" using assms(2) length_contents [of r] by simp
  with push_channel [OF assms(1,3) b] assms(2) show "channel_ok (snd (ring_push p r))" "contents (snd (ring_push p r)) = [p]"
    by (simp_all add: b pushed_def)
qed

text \<open>One PDU on the ring, which the router handles without pushing onto the same ring again.\<close>

lemma process_one:
  assumes "channel_ok (w_ip_to_mstp s)" and "contents (w_ip_to_mstp s) = [p]" and "data_len p \<noteq> 0" and "pdu_ok p"
    and "decode_apdu w (payload p) = Some (Ok d)"
    and "\<And>r. w_ip_to_mstp (handle_decoded_apdu d p (s\<lparr>w_ip_to_mstp := r\<rparr>)) = r"
  obtains r where "process_ip_pdus w s = Some (Ok (handle_decoded_apdu d p (s\<lparr>w_ip_to_mstp := r\<rparr>)))"
    "ring_ok r" "contents r = []"
proof -
  have "ring_ok (w_ip_to_mstp s)" using assms(1) by (simp add: channel_ok_def)
  then obtain r where r: "ring_pop (w_ip_to_mstp s) = (Some p, r)" "ring_ok r" "contents r = []"
    by (rule one_pop [OF _ assms(2)])
  let ?s = "handle_decoded_apdu d p (s\<lparr>w_ip_to_mstp := r\<rparr>)"
  have "subslice (pdu_data p) 0 (unat (data_len p)) = (Ok (payload p) :: (unit, bytes) result)"
    using assms(4) by (simp add: subslice_def pdu_ok_def payload_def)
  then have "process_ip_pdu w p (s\<lparr>w_ip_to_mstp := r\<rparr>) = Some (Ok ?s)"
    using assms(3,5) by (simp add: process_ip_pdu_def dispatch_apdu_def)
  moreover have "process_ip_pdus w ?s = Some (Ok ?s)"
    using empty_pop [OF r(2,3)] assms(6) [of r] by (simp add: process_ip_pdus.simps [of w ?s])
  ultimately have "process_ip_pdus w s = Some (Ok ?s)" by (simp add: process_ip_pdus.simps [of w s] r(1))
  then show ?thesis using that r(2,3) by blast
qed

text \<open>The reply to a client on the local network, as a datagram.\<close>

lemma reply_canonical:
  assumes "length apdu \<le> PDU_MAX_DATA" and "length a \<le> PDU_MAX_DATA" and "endpoint_ok remote"
  shows "canonical_pdu (reply_pdu a (request_pdu apdu remote))" "destination (reply_pdu a (request_pdu apdu remote)) = remote"
proof -
  let ?p = "reply_pdu a (request_pdu apdu remote)"
  note f = request_pdu_facts [OF assms(1,3)]
  have p: "pdu_dest_mac ?p = source_mac remote" "pdu_dest_mac_len ?p = 6" "pdu_source_mac ?p = replicate 7 0"
    "pdu_source_mac_len ?p = 0" "pdu_source_net ?p = 0"
    using f(3,4) by (simp_all add: reply_pdu_def set_data_def pdu_new_def)
  have m: "length (source_mac remote) = 7" "drop 6 (source_mac remote) = [0]"
    using assms(3) by (simp_all add: source_mac_def endpoint_ok_def be16_def)
  then show "canonical_pdu ?p"
    using reply_pdu_ok(1) [OF f(1) assms(2)] p by (simp add: canonical_pdu_def mac_ok_def MAX_MAC_LEN_def)
  have "take 4 (source_mac remote) = ep_addr remote" "of_be16 (source_mac remote ! 4) (source_mac remote ! 5) = ep_port remote"
    using assms(3) of_be16_be16 [of "ep_port remote"] by (simp_all add: source_mac_def endpoint_ok_def be16_def nth_append)
  then show "destination ?p = remote" by (simp add: destination_def p)
qed

lemma datagram_npdu: "canonical_pdu p \<Longrightarrow> decode_npdu (drop 4 (datagram p)) = Ok (pdu_header p, payload p)"
  using decode_wire_npdu [OF canonical_header] by (simp add: datagram_def wire_bvlc_def be16_def)

lemma length_answer: "length (wire_apdu (bridge_answer req i)) \<le> PDU_MAX_DATA"
  using length_bridge_answer [of req i] by (auto simp: PDU_MAX_DATA_def simp del: wire_apdu.simps split: option.splits)

lemma decode_short:
  assumes "length (wire_apdu a) \<le> PDU_MAX_DATA" and "good_apdu a" and "9 \<le> w"
  shows "decode_apdu w (wire_apdu a) = Some (Ok a)"
proof -
  have "(2 :: nat) ^ 9 \<le> 2 ^ w" by (rule power_increasing) (use assms(3) in auto)
  with assms(1) have "length (wire_apdu a) < 2 ^ w" by (simp add: PDU_MAX_DATA_def del: wire_apdu.simps)
  then show ?thesis by (rule decode_wire_apdu [OF _ assms(2)])
qed

text \<open>What the router does with the request, and the reply it pushes.\<close>

lemma read_property_pushes:
  assumes "rp_object_id req = object_id_new Device BRIDGE_DEVICE_ID" and "pdu_source_mac_len q = 6"
  shows "handle_decoded_apdu (ReadProperty req i) q t =
    t\<lparr>w_mstp_to_ip := snd (ring_push (reply_pdu (wire_apdu (bridge_answer req i)) q) (w_mstp_to_ip t))\<rparr>"
  using assms by (simp add: handle_request_reply object_id_new_def send_reply_push [OF length_answer] push_mstp_to_ip_def
      split_beta del: wire_apdu.simps)

lemma bridge_reply:
  fixes req :: ReadPropertyRequest and i :: u8
  assumes "length apdu \<le> PDU_MAX_DATA" and "endpoint_ok remote"
  defines "r \<equiv> reply_pdu (wire_apdu (bridge_answer req i)) (request_pdu apdu remote)"
  shows "pdu_ok r" "mac_lengths_ok r" "destination r = remote"
    "decode_npdu (drop 4 (datagram r)) = Ok (pdu_header r, wire_apdu (bridge_answer req i))"
proof -
  have p: "pdu_ok r" "payload r = wire_apdu (bridge_answer req i)"
    unfolding r_def by (rule reply_pdu_ok [OF request_pdu_facts(1) [OF assms(1,2)] length_answer])+
  have c: "canonical_pdu r" "destination r = remote"
    unfolding r_def by (rule reply_canonical [OF assms(1) length_answer assms(2)])+
  show "pdu_ok r" "mac_lengths_ok r" "destination r = remote"
    "decode_npdu (drop 4 (datagram r)) = Ok (pdu_header r, wire_apdu (bridge_answer req i))"
    using p c canonical_lengths [OF c(1)] datagram_npdu [OF c(1)] by simp_all
qed



end
