(* ===== verification/Snmp.thy ===== *)
theory Snmp
  imports Codec Rust_Str
begin

text \<open>
  The SNMP v2c codec, \<open>bridge-core/src/snmp.rs\<close>: the BER decoders and encoders, the response
  encoder and the request decoder, in the order of the file.

  \<open>decode_tlv\<close> computes the end of a value with \<open>checked_add\<close>: a sum that does not fit into a
  pointer is an error as much as one that passes the end of the data, and both are
  \<open>LengthOutOfBounds\<close>, so positions are plain naturals here.
\<close>

section \<open>Constants and types\<close>

definition TAG_SEQUENCE :: u8 where "TAG_SEQUENCE = 0x30"
definition TAG_INTEGER :: u8 where "TAG_INTEGER = 0x02"
definition TAG_OCTET_STRING :: u8 where "TAG_OCTET_STRING = 0x04"
definition TAG_NULL :: u8 where "TAG_NULL = 0x05"
definition TAG_OID :: u8 where "TAG_OID = 0x06"
definition TAG_COUNTER32 :: u8 where "TAG_COUNTER32 = 0x41"
definition TAG_GAUGE32 :: u8 where "TAG_GAUGE32 = 0x42"
definition TAG_TIMETICKS :: u8 where "TAG_TIMETICKS = 0x43"
definition TAG_GET_REQUEST :: u8 where "TAG_GET_REQUEST = 0xA0"
definition TAG_GET_NEXT_REQUEST :: u8 where "TAG_GET_NEXT_REQUEST = 0xA1"
definition TAG_GET_RESPONSE :: u8 where "TAG_GET_RESPONSE = 0xA2"

lemmas snmp_tags = TAG_SEQUENCE_def TAG_INTEGER_def TAG_OCTET_STRING_def TAG_NULL_def TAG_OID_def
  TAG_COUNTER32_def TAG_GAUGE32_def TAG_TIMETICKS_def TAG_GET_REQUEST_def TAG_GET_NEXT_REQUEST_def
  TAG_GET_RESPONSE_def

definition ERROR_NO_ERROR :: i32 where "ERROR_NO_ERROR = 0"
definition ERROR_NO_SUCH_NAME :: i32 where "ERROR_NO_SUCH_NAME = 2"
definition ERROR_GEN_ERR :: i32 where "ERROR_GEN_ERR = 5"

type_synonym oid = "u32 list"

datatype SnmpValue =
    SnmpInteger i32
  | OctetString bytes
  | Counter32 u32
  | Gauge32 u32
  | TimeTicks u32
  | SnmpNull

record VarBind =
  vb_oid :: oid
  vb_value :: SnmpValue

record SnmpRequest =
  sr_version :: i32
  sr_community :: bytes
  sr_request_id :: i32
  sr_pdu_type :: u8
  sr_oids :: "oid list"

section \<open>Decoding\<close>

text \<open>\<open>for i in 0..n { len = (len << 8) | data[pos + i] }\<close>\<close>

fun len_octets :: "bytes \<Rightarrow> nat \<Rightarrow> nat \<Rightarrow> nat \<Rightarrow> (DecodeError, nat) result" where
  "len_octets data pos 0 len = Ok len"
| "len_octets data pos (Suc n) len =
     and_then (idx data pos) (\<lambda>b. len_octets data (pos + 1) n (len * 256 + unat b))"

definition decode_tlv :: "bytes \<Rightarrow> nat \<Rightarrow> (DecodeError, u8 \<times> nat \<times> nat \<times> nat) result" where
  "decode_tlv data pos =
     (if pos \<ge> length data then Err UnexpectedEnd
      else
        and_then (idx data pos) (\<lambda>tag.
        let pos = pos + 1 in
        if pos \<ge> length data then Err UnexpectedEnd
        else
          and_then (idx data pos) (\<lambda>len_byte.
          let pos = pos + 1 in
          and_then
            (if len_byte AND 0x80 = 0 then Ok (unat len_byte, pos)
             else
               let n = unat (len_byte AND 0x7F) in
               if n = 0 \<or> n > 4 then Err LengthOutOfBounds
               else if pos + n > length data then Err UnexpectedEnd
               else and_then (len_octets data pos n 0) (\<lambda>len. Ok (len, pos + n))) (\<lambda>(len, start).
          if start + len > length data then Err LengthOutOfBounds
          else Ok (tag, start, start + len, start + len)))))"

definition be_fold :: "u32 \<Rightarrow> bytes \<Rightarrow> u32" where
  "be_fold = foldl (\<lambda>v b. push_bit 8 v OR ucast b)"

definition decode_integer :: "bytes \<Rightarrow> nat \<Rightarrow> nat \<Rightarrow> (DecodeError, i32) result" where
  "decode_integer data a b =
     (if b < a then Err InvalidData
      else
        let len = b - a in
        if len = 0 \<or> len > 4 then Err InvalidData
        else
          and_then (subslice data a b) (\<lambda>bs.
          and_then (idx bs 0) (\<lambda>b0.
            Ok (be_fold (if b0 AND 0x80 \<noteq> 0 then -1 else 0) bs))))"

definition decode_u32 :: "bytes \<Rightarrow> nat \<Rightarrow> nat \<Rightarrow> (DecodeError, u32) result" where
  "decode_u32 data a b =
     (if b < a then Err InvalidData
      else
        let len = b - a in
        if len = 0 \<or> len > 5 then Err InvalidData
        else
          and_then (subslice data a b) (\<lambda>bs.
          and_then (if len = 5 then and_then (idx bs 0) (\<lambda>b0. Ok (if b0 = 0 then 1 else 0)) else Ok 0) (\<lambda>start.
          and_then (subslice bs start (length bs)) (\<lambda>effective.
            if length effective > 4 then Err InvalidData else Ok (be_fold 0 effective)))))"

text \<open>The inner loop of \<open>decode_oid\<close>: one sub-identifier, and the bytes after it.\<close>

fun sub_id :: "bytes \<Rightarrow> u32 \<Rightarrow> (DecodeError, u32 \<times> bytes) result" where
  "sub_id [] acc = Err UnexpectedEnd"
| "sub_id (b # bs) acc =
     (if acc > 0x00FFFFFF then Err InvalidData
      else
        let acc = push_bit 7 acc OR ucast (b AND 0x7F) in
        if b AND 0x80 = 0 then Ok (acc, bs) else sub_id bs acc)"

lemma sub_id_shorter: "sub_id bs acc = Ok (s, rest) \<Longrightarrow> length rest < length bs"
  by (induction bs acc rule: sub_id.induct) (auto simp: Let_def split: if_splits)

text \<open>The outer loop.\<close>

function sub_ids :: "bytes \<Rightarrow> oid \<Rightarrow> (DecodeError, oid) result" where
  "sub_ids bs acc =
     (if bs = [] then Ok acc
      else
        and_then (sub_id bs 0) (\<lambda>(s, rest).
        and_then (ok_or InvalidData (vec_push 16 acc s)) (\<lambda>acc. sub_ids rest acc)))"
  by pat_completeness auto
termination
  by (relation "measure (\<lambda>(bs, acc). length bs)") (auto simp: sub_id_shorter)

declare sub_ids.simps [simp del]

definition decode_oid :: "bytes \<Rightarrow> nat \<Rightarrow> nat \<Rightarrow> (DecodeError, oid) result" where
  "decode_oid data a b =
     and_then (subslice data a b) (\<lambda>bs.
     if bs = [] then Err InvalidData
     else
       and_then (idx bs 0) (\<lambda>b0.
       let first = ucast b0 :: u32;
           (s0, s1) = (if first < 40 then (0, first) else if first < 80 then (1, first - 40) else (2, first - 80)) in
       and_then (ok_or InvalidData (vec_push 16 [] s0)) (\<lambda>oid.
       and_then (ok_or InvalidData (vec_push 16 oid s1)) (\<lambda>oid.
         sub_ids (drop 1 bs) oid))))"

section \<open>Encoding\<close>

definition encode_tlv_header :: "u8 \<Rightarrow> nat \<Rightarrow> writer" where
  "encode_tlv_header tag len buf pos =
     (if len \<le> 127 then
        (if pos + 2 > length buf then Err BufferTooSmall
         else and_then (put buf pos [tag, of_nat len]) (\<lambda>b. Ok (b, pos + 2)))
      else if len \<le> 0xFF then
        (if pos + 3 > length buf then Err BufferTooSmall
         else and_then (put buf pos [tag, 0x81, of_nat len]) (\<lambda>b. Ok (b, pos + 3)))
      else if len \<le> 0xFFFF then
        (if pos + 4 > length buf then Err BufferTooSmall
         else and_then (put buf pos [tag, 0x82, of_nat (len div 256), of_nat len]) (\<lambda>b. Ok (b, pos + 4)))
      else Err InvalidValue)"

text \<open>\<open>minimal_signed_byte_len\<close>, on the bytes that are left.\<close>

fun minimal_signed_byte_len :: "bytes \<Rightarrow> nat" where
  "minimal_signed_byte_len (b # n # bs) =
     (if b = 0x00 \<and> n AND 0x80 = 0 \<or> b = 0xFF \<and> n AND 0x80 \<noteq> 0
      then minimal_signed_byte_len (n # bs) else length (b # n # bs))"
| "minimal_signed_byte_len bs = length bs"

text \<open>The tail the value encoders share: room for the content, then its copy.\<close>

definition put_content :: "bytes \<Rightarrow> writer" where
  "put_content bs buf pos =
     (if pos + length bs > length buf then Err BufferTooSmall
      else and_then (copy_at buf pos (pos + length bs) bs) (\<lambda>b. Ok (b, pos + length bs)))"

definition encode_integer :: "i32 \<Rightarrow> writer" where
  "encode_integer v buf pos =
     (let bs = be32 v; len = minimal_signed_byte_len bs in
      and_then (encode_tlv_header TAG_INTEGER len buf pos) (\<lambda>(buf, pos).
        put_content (drop (4 - len) bs) buf pos))"

definition encode_octet_string :: "bytes \<Rightarrow> writer" where
  "encode_octet_string s buf pos =
     and_then (encode_tlv_header TAG_OCTET_STRING (length s) buf pos) (\<lambda>(buf, pos). put_content s buf pos)"

definition encode_null :: writer where
  "encode_null buf pos =
     (if pos + 2 > length buf then Err BufferTooSmall
      else and_then (put buf pos [TAG_NULL, 0x00]) (\<lambda>b. Ok (b, pos + 2)))"

text \<open>\<open>while v > 0 { tmp[n] = v & 0x7F; n += 1; v >>= 7 }\<close>: at most five digits, lowest first.\<close>

function rev_digits :: "u32 \<Rightarrow> bytes" where
  "rev_digits v = (if v = 0 then [] else ucast (v AND 0x7F) # rev_digits (drop_bit 7 v))"
  by pat_completeness auto
termination
proof (relation "measure unat")
  fix v :: u32 assume "v \<noteq> 0"
  then have "unat v div 2 ^ 7 < unat v" by (simp add: unat_gt_0)
  then show "(drop_bit 7 v, v) \<in> measure unat" by (simp add: unsigned_drop_bit_eq drop_bit_eq_div take_bit_eq_mod unat_div)
qed simp

declare rev_digits.simps [simp del]

definition encode_base128 :: "u32 \<Rightarrow> writer" where
  "encode_base128 v buf pos =
     (if v = 0 then
        (if pos \<ge> length buf then Err BufferTooSmall
         else and_then (store buf pos 0x00) (\<lambda>b. Ok (b, pos + 1)))
      else
        let tmp = rev_digits v; n = length tmp in
        if pos + n > length buf then Err BufferTooSmall
        else and_then (put buf pos (map (\<lambda>i. tmp ! (n - 1 - i) OR (if i < n - 1 then 0x80 else 0x00)) [0..<n]))
               (\<lambda>b. Ok (b, pos + n)))"

fun encode_subs :: "oid \<Rightarrow> writer" where
  "encode_subs [] buf pos = Ok (buf, pos)"
| "encode_subs (s # ss) buf pos = and_then (encode_base128 s buf pos) (\<lambda>(buf, pos). encode_subs ss buf pos)"

definition encode_oid :: "oid \<Rightarrow> writer" where
  "encode_oid oid buf pos =
     (if length oid < 2 then Err InvalidValue
      else
        and_then (encode_base128 (40 * oid ! 0 + oid ! 1) (replicate 128 0) 0) (\<lambda>(tmp, n).
        and_then (encode_subs (drop 2 oid) tmp n) (\<lambda>(tmp, n).
        let content = take n tmp in
        and_then (encode_tlv_header TAG_OID (length content) buf pos) (\<lambda>(buf, pos).
          put_content content buf pos))))"

definition encode_sequence_header :: "u8 \<Rightarrow> nat \<Rightarrow> writer" where
  "encode_sequence_header tag inner_len = encode_tlv_header tag inner_len"

definition encode_u32_app :: "u8 \<Rightarrow> u32 \<Rightarrow> writer" where
  "encode_u32_app tag v buf pos =
     (let bs = be32 v;
          (start, len) = (if bs ! 0 AND 0x80 \<noteq> 0 then (4, 5)
             else let min_len = max (4 - length (takeWhile (\<lambda>b. b = 0) bs)) 1 in (4 - min_len, min_len)) in
      and_then (encode_tlv_header tag len buf pos) (\<lambda>(buf, pos).
      if pos + len > length buf then Err BufferTooSmall
      else if len = 5 then
        and_then (store buf pos 0x00) (\<lambda>buf.
        and_then (copy_at buf (pos + 1) (pos + 5) bs) (\<lambda>buf. Ok (buf, pos + len)))
      else and_then (copy_at buf pos (pos + len) (drop start bs)) (\<lambda>buf. Ok (buf, pos + len))))"

fun encode_snmp_value :: "SnmpValue \<Rightarrow> writer" where
  "encode_snmp_value (SnmpInteger v) = encode_integer v"
| "encode_snmp_value (OctetString s) = encode_octet_string s"
| "encode_snmp_value (Counter32 v) = encode_u32_app TAG_COUNTER32 v"
| "encode_snmp_value (Gauge32 v) = encode_u32_app TAG_GAUGE32 v"
| "encode_snmp_value (TimeTicks v) = encode_u32_app TAG_TIMETICKS v"
| "encode_snmp_value SnmpNull = encode_null"

definition ber_header_size :: "nat \<Rightarrow> nat" where
  "ber_header_size n = (if n \<le> 127 then 2 else if n \<le> 255 then 3 else 4)"

text \<open>\<open>buf.copy_within(a..b, dst)\<close>\<close>

definition copy_within :: "bytes \<Rightarrow> nat \<Rightarrow> nat \<Rightarrow> nat \<Rightarrow> (EncodeError, bytes) result" where
  "copy_within buf a b dst =
     (if a \<le> b \<and> b \<le> length buf \<and> dst + (b - a) \<le> length buf
      then Ok (overwrite buf dst (take (b - a) (drop a buf))) else Panic)"

definition encode_varbind :: "VarBind \<Rightarrow> writer" where
  "encode_varbind vb buf pos =
     (let inner_start = pos + 4 in
      and_then (encode_oid (vb_oid vb) buf inner_start) (\<lambda>(buf, after_oid).
      and_then (encode_snmp_value (vb_value vb) buf after_oid) (\<lambda>(buf, after_value).
      let inner_len = after_value - inner_start;
          hdr = ber_header_size inner_len;
          final_start = pos + hdr in
      and_then (if final_start < inner_start then copy_within buf inner_start after_value final_start
                else Ok buf) (\<lambda>buf.
      and_then (encode_tlv_header TAG_SEQUENCE inner_len buf pos) (\<lambda>(buf, _).
        Ok (buf, pos + hdr + inner_len))))))"

fun encode_varbinds :: "VarBind list \<Rightarrow> writer" where
  "encode_varbinds [] buf pos = Ok (buf, pos)"
| "encode_varbinds (vb # vbs) buf pos =
     and_then (encode_varbind vb buf pos) (\<lambda>(buf, pos). encode_varbinds vbs buf pos)"

definition SCRATCH :: nat where "SCRATCH = 512"

definition encode_get_response ::
  "i32 \<Rightarrow> bytes \<Rightarrow> i32 \<Rightarrow> i32 \<Rightarrow> VarBind list \<Rightarrow> bytes \<Rightarrow> (EncodeError, bytes \<times> nat) result" where
  "encode_get_response request_id community error_status error_index bindings buf =
     and_then (encode_varbinds bindings (replicate SCRATCH 0) 0) (\<lambda>(scratch, p).
     let vbl_hdr = ber_header_size p; vbl_total = vbl_hdr + p in
     if vbl_total > SCRATCH then Err BufferTooSmall
     else
       and_then (copy_within scratch 0 p vbl_hdr) (\<lambda>scratch.
       and_then (encode_tlv_header TAG_SEQUENCE p scratch 0) (\<lambda>(scratch, _).
       and_then (encode_integer request_id (replicate SCRATCH 0) 0) (\<lambda>(pdu, pp).
       and_then (encode_integer error_status pdu pp) (\<lambda>(pdu, pp).
       and_then (encode_integer error_index pdu pp) (\<lambda>(pdu, pp).
       and_then (subslice scratch 0 vbl_total) (\<lambda>vbl.
       and_then (put_content vbl pdu pp) (\<lambda>(pdu, pp).
       let pdu_hdr = ber_header_size pp in
       and_then (encode_integer 1 (replicate SCRATCH 0) 0) (\<lambda>(msg, mp).
       and_then (encode_octet_string community msg mp) (\<lambda>(msg, mp).
       if mp + pdu_hdr + pp > length msg then Err BufferTooSmall
       else
         and_then (encode_tlv_header TAG_GET_RESPONSE pp msg mp) (\<lambda>(msg, _).
         and_then (subslice pdu 0 pp) (\<lambda>body.
         and_then (copy_at msg (mp + pdu_hdr) (mp + pdu_hdr + pp) body) (\<lambda>msg.
         let mp = mp + pdu_hdr + pp; msg_hdr = ber_header_size mp; total = msg_hdr + mp in
         if total > length buf then Err BufferTooSmall
         else
           and_then (encode_tlv_header TAG_SEQUENCE mp buf 0) (\<lambda>(buf, _).
           and_then (subslice msg 0 mp) (\<lambda>body.
           and_then (copy_at buf msg_hdr total body) (\<lambda>buf. Ok (buf, total)))))))))))))))))"

section \<open>Requests\<close>

text \<open>\<open>let (tag, a, b, next) = decode_tlv(..)?; if tag != t { return Err(InvalidData) }\<close>\<close>

definition expect_tlv :: "u8 \<Rightarrow> bytes \<Rightarrow> nat \<Rightarrow> (DecodeError, nat \<times> nat \<times> nat) result" where
  "expect_tlv t data pos =
     and_then (decode_tlv data pos) (\<lambda>(tag, a, b, next).
       if tag \<noteq> t then Err InvalidData else Ok (a, b, next))"

lemma decode_tlv_bounds:
  "post (\<lambda>(t, a, b, next). pos < a \<and> a \<le> b \<and> b \<le> length data \<and> next = b) (decode_tlv data pos)"
proof -
  have o: "post (\<lambda>_. True) (len_octets data p n len)" if "p + n \<le> length data" for p n len
    using that by (induction data p n len rule: len_octets.induct) (auto simp: idx_def)
  show ?thesis
    unfolding decode_tlv_def
    by (auto simp: idx_def Let_def and_then_assoc intro!: post_then [OF o])
qed

lemma expect_tlv_bounds:
  "post (\<lambda>(a, b, next). pos < a \<and> a \<le> b \<and> b \<le> length data \<and> next = b) (expect_tlv t data pos)"
  unfolding expect_tlv_def by (rule post_then [OF decode_tlv_bounds]) auto

text \<open>One variable binding: its object identifier is appended, its value is not looked at.\<close>

definition decode_binding :: "bytes \<Rightarrow> nat \<Rightarrow> oid list \<Rightarrow> (DecodeError, oid list \<times> nat) result" where
  "decode_binding vbl vp oids =
     and_then (expect_tlv TAG_SEQUENCE vbl vp) (\<lambda>(a, b, next).
     and_then (subslice vbl a b) (\<lambda>vb.
     and_then (expect_tlv TAG_OID vb 0) (\<lambda>(oa, ob, _).
     and_then (decode_oid vb oa ob) (\<lambda>oid.
     and_then (ok_or InvalidData (vec_push 8 oids oid)) (\<lambda>oids. Ok (oids, next))))))"

lemma decode_oid_safe: "a \<le> b \<Longrightarrow> b \<le> length data \<Longrightarrow> decode_oid data a b \<noteq> Panic"
proof -
  have s: "sub_id bs acc \<noteq> Panic" for bs acc
    by (induction bs acc rule: sub_id.induct) (auto simp: Let_def)
  have o: "ok_or e x \<noteq> Panic" for e and x :: "'a option" by (cases x) auto
  have "sub_ids bs acc \<noteq> Panic" for bs acc
  proof (induction bs acc rule: sub_ids.induct)
    case (1 bs acc)
    then show ?case using s o by (subst sub_ids.simps) (auto simp: result_simps)
  qed
  then show "a \<le> b \<Longrightarrow> b \<le> length data \<Longrightarrow> decode_oid data a b \<noteq> Panic"
    using o by (auto simp: decode_oid_def subslice_def idx_def Let_def result_simps split: prod.splits)
qed

lemma ok_or_post: "post (\<lambda>_. True) (ok_or e x)"
  by (cases x) auto

lemma decode_binding_bounds:
  "post (\<lambda>(oids, next). vp < next \<and> next \<le> length vbl) (decode_binding vbl vp oids)"
  unfolding decode_binding_def
proof (rule post_then [OF expect_tlv_bounds], clarify)
  fix a b assume b: "vp < a" "a \<le> b" "b \<le> length vbl"
  then have s: "subslice vbl a b = (Ok (take (b - a) (drop a vbl)) :: (DecodeError, bytes) result)"
    by (simp add: subslice_def)
  have o: "post (\<lambda>_. True) (decode_oid vb oa ob)" if "oa \<le> ob" "ob \<le> length vb" for vb oa ob
    using decode_oid_safe [OF that] by (simp add: post_def)
  show "post (\<lambda>(oids, next). vp < next \<and> next \<le> length vbl)
      (and_then (subslice vbl a b) (\<lambda>vb.
       and_then (expect_tlv TAG_OID vb 0) (\<lambda>(oa, ob, _).
       and_then (decode_oid vb oa ob) (\<lambda>oid.
       and_then (ok_or InvalidData (vec_push 8 oids oid)) (\<lambda>oids. Ok (oids, b))))))"
    unfolding s and_then.simps
    by (rule post_then [OF expect_tlv_bounds]) (use b in \<open>auto intro!: post_then [OF o] post_then [OF ok_or_post]\<close>)
qed

text \<open>The loop over the variable bindings.\<close>

function decode_bindings :: "bytes \<Rightarrow> nat \<Rightarrow> oid list \<Rightarrow> (DecodeError, oid list) result" where
  "decode_bindings vbl vp oids =
     (if vp < length vbl
      then and_then (decode_binding vbl vp oids) (\<lambda>(oids, next). decode_bindings vbl next oids)
      else Ok oids)"
  by pat_completeness auto
termination
proof (relation "measure (\<lambda>(vbl, vp, oids). length vbl - vp)")
  fix vbl vp oids x os nxt
  assume "vp < length vbl" "decode_binding vbl vp oids = Ok x" "(os, nxt) = x"
  then show "((vbl, nxt, os), vbl, vp, oids) \<in> measure (\<lambda>(vbl, vp, oids). length vbl - vp)"
    using decode_binding_bounds [of vp vbl oids] by (auto simp: post_def)
qed simp

declare decode_bindings.simps [simp del]

definition decode_get_request :: "bytes \<Rightarrow> (DecodeError, SnmpRequest) result" where
  "decode_get_request data =
     and_then (expect_tlv TAG_SEQUENCE data 0) (\<lambda>(a, b, _).
     and_then (subslice data a b) (\<lambda>msg.
     and_then (expect_tlv TAG_INTEGER msg 0) (\<lambda>(a, b, pos).
     and_then (decode_integer msg a b) (\<lambda>version.
     if version \<noteq> 1 then Err InvalidVersion
     else
       and_then (expect_tlv TAG_OCTET_STRING msg pos) (\<lambda>(a, b, pos).
       and_then (subslice msg a b) (\<lambda>community.
       if length community > 32 then Err InvalidData
       else
         and_then (decode_tlv msg pos) (\<lambda>(pdu_tag, a, b, _).
         if pdu_tag \<noteq> TAG_GET_REQUEST \<and> pdu_tag \<noteq> TAG_GET_NEXT_REQUEST then Err InvalidData
         else
           and_then (subslice msg a b) (\<lambda>pdu.
           and_then (expect_tlv TAG_INTEGER pdu 0) (\<lambda>(a, b, pos).
           and_then (decode_integer pdu a b) (\<lambda>request_id.
           and_then (expect_tlv TAG_INTEGER pdu pos) (\<lambda>(_, _, pos).
           and_then (expect_tlv TAG_INTEGER pdu pos) (\<lambda>(_, _, pos).
           and_then (expect_tlv TAG_SEQUENCE pdu pos) (\<lambda>(a, b, _).
           and_then (subslice pdu a b) (\<lambda>vbl.
           and_then (decode_bindings vbl 0 []) (\<lambda>oids.
             Ok \<lparr>sr_version = version, sr_community = community, sr_request_id = request_id,
                 sr_pdu_type = pdu_tag, sr_oids = oids\<rparr>)))))))))))))))"

end
