(* ===== verification/Snmp_Wire.thy ===== *)
theory Snmp_Wire
  imports Snmp
begin

text \<open>
  The BER encoders of \<open>snmp.rs\<close> as writers of fixed byte strings, and the decoders as their
  inverses: headers, integers, object identifiers and values.
\<close>

section \<open>Tag, length, value\<close>

definition ber_len :: "nat \<Rightarrow> bytes" where
  "ber_len n = (if n \<le> 127 then [of_nat n] else if n \<le> 255 then [0x81, of_nat n]
     else [0x82, of_nat (n div 256), of_nat n])"

definition wire_tlv :: "u8 \<Rightarrow> bytes \<Rightarrow> bytes" where
  "wire_tlv t bs = t # ber_len (length bs) @ bs"

lemma ber_len_length: "Suc (length (ber_len n)) = ber_header_size n"
  by (simp add: ber_len_def ber_header_size_def)

lemma length_wire_tlv: "length (wire_tlv t bs) = ber_header_size (length bs) + length bs"
  using ber_len_length [of "length bs"] by (simp add: wire_tlv_def)

lemma wire_tlv_not_Nil [simp]: "wire_tlv t bs \<noteq> []"
  by (simp add: wire_tlv_def)

lemma encode_tlv_header_emit:
  "n \<le> 0xFFFF \<Longrightarrow> encode_tlv_header t n buf pos = emit (t # ber_len n) buf pos"
  by (auto simp: encode_tlv_header_def ber_len_def emit_def put_eq)

lemma put_content_emit: "pos \<le> length buf \<Longrightarrow> put_content bs buf pos = emit bs buf pos"
  by (auto simp: put_content_def emit_def copy_at_eq)

lemma tlv_emit:
  assumes "length bs \<le> 0xFFFF"
  shows "and_then (encode_tlv_header t (length bs) buf pos) (\<lambda>(b, p). put_content bs b p)
    = emit (wire_tlv t bs) buf pos"
proof (cases "pos + length (t # ber_len (length bs)) \<le> length buf")
  case True
  then show ?thesis
    using emit_step [of buf "put_content bs" pos "t # ber_len (length bs)" bs Ok] put_content_emit
    by (simp add: encode_tlv_header_emit [OF assms] wire_tlv_def)
qed (simp add: encode_tlv_header_emit [OF assms] emit_def wire_tlv_def)

lemma of_nat_bytes:
  assumes "n < 65536"
  shows "unat (of_nat n :: u8) = n mod 256" "unat (of_nat (n div 256) :: u8) = n div 256"
  using assms by (simp_all add: unat_of_nat)

lemma short_len: "n \<le> 127 \<Longrightarrow> (of_nat n :: u8) AND 0x80 = 0"
proof -
  assume "n \<le> 127"
  then have "take_bit 7 (of_nat n :: u8) = of_nat n"
    by (simp add: word_unat_eq_iff unsigned_take_bit_eq unat_of_nat take_bit_eq_mod unat_mod)
  moreover have "take_bit 7 w AND 0x80 = (0 :: u8)" for w
  proof (rule bit_word_eqI)
    have "(0x80 :: u8) = 2 ^ 7" by simp
    then show "bit (take_bit 7 w AND 0x80) k = bit (0 :: u8) k" for k
      by (simp only: bit_and_iff bit_take_bit_iff bit_exp_iff) auto
  qed
  ultimately show ?thesis by metis
qed

lemma len_octets_2: "len_octets data p 2 len = and_then (idx data p) (\<lambda>b. and_then (idx data (p + 1)) (\<lambda>c.
    Ok ((len * 256 + unat b) * 256 + unat c)))"
  by (simp add: numeral_2_eq_2)

lemma decode_tlv_at:
  assumes "at data pos (wire_tlv t bs)" and "length bs \<le> 0xFFFF"
  defines "s \<equiv> pos + ber_header_size (length bs)"
  shows "decode_tlv data pos = Ok (t, s, s + length bs, s + length bs)" "subslice data s (s + length bs) = Ok bs"
proof -
  let ?n = "length bs"
  have a: "pos < length data" "data ! pos = t" "at data (Suc pos) (ber_len ?n @ bs)"
    using assms(1) by (simp_all add: wire_tlv_def at_Cons)
  then have c: "at data (Suc pos) (ber_len ?n)" "at data s bs"
    using ber_len_length [of ?n] by (simp_all add: at_append s_def flip: add_Suc_right)
  then have e: "s + ?n \<le> length data" using at_length by blast
  show "subslice data s (s + ?n) = Ok bs" using c(2) at_slice by blast
  have b: "unat (of_nat ?n :: u8) = ?n mod 256" "unat (of_nat (?n div 256) :: u8) = ?n div 256"
    using of_nat_bytes [of ?n] assms(2) by simp_all
  consider "?n \<le> 127" | "127 < ?n" "?n \<le> 255" | "255 < ?n" by linarith
  then show "decode_tlv data pos = Ok (t, s, s + ?n, s + ?n)"
  proof cases
    case 1
    with a c e b short_len [OF 1] show ?thesis
      by (simp add: decode_tlv_def ber_len_def at_Cons idx_def s_def ber_header_size_def Let_def)
  next
    case 2
    with a c e b show ?thesis
      by (simp add: decode_tlv_def ber_len_def at_Cons idx_def s_def ber_header_size_def Let_def)
  next
    case 3
    with a c e b show ?thesis
      by (simp add: decode_tlv_def ber_len_def at_Cons idx_def s_def ber_header_size_def Let_def len_octets_2)
  qed
qed

lemma expect_tlv_at:
  assumes "at data pos (wire_tlv t bs)" and "length bs \<le> 0xFFFF"
  shows "\<exists>a b. expect_tlv t data pos = Ok (a, b, pos + length (wire_tlv t bs))
    \<and> subslice data a b = (Ok bs :: (DecodeError, bytes) result)
    \<and> b = a + length bs"
  using decode_tlv_at [OF assms] by (simp add: expect_tlv_def length_wire_tlv)

section \<open>Integers\<close>

definition int_bytes :: "i32 \<Rightarrow> bytes" where
  "int_bytes v = drop (4 - minimal_signed_byte_len (be32 v)) (be32 v)"

definition sext :: "bytes \<Rightarrow> u32" where
  "sext bs = (if hd bs AND 0x80 \<noteq> 0 then -1 else 0)"

fun trim_signed :: "bytes \<Rightarrow> bytes" where
  "trim_signed (b # n # bs) =
     (if b = 0x00 \<and> n AND 0x80 = 0 \<or> b = 0xFF \<and> n AND 0x80 \<noteq> 0 then trim_signed (n # bs) else b # n # bs)"
| "trim_signed bs = bs"

lemma trim_signed_drop:
  "minimal_signed_byte_len bs \<le> length bs"
  "trim_signed bs = drop (length bs - minimal_signed_byte_len bs) bs"
  "length (trim_signed bs) = minimal_signed_byte_len bs" "bs \<noteq> [] \<Longrightarrow> trim_signed bs \<noteq> []"
proof -
  show l: "length (trim_signed bs) = minimal_signed_byte_len bs" and "bs \<noteq> [] \<Longrightarrow> trim_signed bs \<noteq> []"
    by (induction bs rule: trim_signed.induct) auto
  have "\<exists>p. bs = p @ trim_signed bs"
  proof (induction bs rule: trim_signed.induct)
    case (1 b n bs)
    show ?case
    proof (cases "b = 0x00 \<and> n AND 0x80 = 0 \<or> b = 0xFF \<and> n AND 0x80 \<noteq> 0")
      case True
      with 1 obtain p where "n # bs = p @ trim_signed (n # bs)" by blast
      with True show ?thesis by (intro exI [of _ "b # p"]) simp
    qed auto
  qed auto
  then obtain p where p: "bs = p @ trim_signed bs" by blast
  then have "length bs = length p + minimal_signed_byte_len bs" using l by (metis length_append)
  then show "minimal_signed_byte_len bs \<le> length bs"
    "trim_signed bs = drop (length bs - minimal_signed_byte_len bs) bs"
    using p by (simp, metis append_eq_conv_conj diff_add_inverse2)
qed

lemma be_fold_Cons: "be_fold i (b # bs) = be_fold (push_bit 8 i OR ucast b) bs"
  by (simp add: be_fold_def)

lemma push_ones [simp]: "NOT (mask 8) OR 255 = (-1 :: u32)"
proof -
  have "(255 :: u32) = mask 8" by (simp add: mask_eq_exp_minus_1)
  then show ?thesis by (simp add: or.commute)
qed

lemma be_fold_pad: "be_fold (-1) (0xFF # bs) = be_fold (-1) bs" "be_fold 0 (0x00 # bs) = be_fold 0 bs"
  by (simp_all add: be_fold_Cons)

lemma be_fold_trim: "bs \<noteq> [] \<Longrightarrow> be_fold (sext (trim_signed bs)) (trim_signed bs) = be_fold (sext bs) bs"
proof (induction bs rule: trim_signed.induct)
  case (1 b n bs)
  show ?case
  proof (cases "b = 0x00 \<and> n AND 0x80 = 0 \<or> b = 0xFF \<and> n AND 0x80 \<noteq> 0")
    case True
    then have "be_fold (sext (n # bs)) (n # bs) = be_fold (sext (b # n # bs)) (b # n # bs)"
      using be_fold_pad [of "n # bs"] by (auto simp: sext_def)
    with 1 True show ?thesis by simp
  qed auto
qed auto

lemma be_fold4: "be_fold i [a, b, c, d] = of_be32 a b c d"
  by (rule bit_word_eqI) (auto simp: be_fold_def of_be32_def bit_simps)

lemma be_fold_be32: "be_fold i (be32 v) = v"
  by (simp add: be32_def be_fold4)

lemma int_bytes_trim: "int_bytes v = trim_signed (be32 v)"
  using trim_signed_drop(2) [of "be32 v"] by (simp add: int_bytes_def)

lemma int_bytes_length: "0 < length (int_bytes v)" "length (int_bytes v) \<le> 4"
  using trim_signed_drop [of "be32 v"] by (simp_all add: int_bytes_trim)

lemma encode_integer_emit: "encode_integer v buf pos = emit (wire_tlv TAG_INTEGER (int_bytes v)) buf pos"
proof -
  have "length (int_bytes v) = minimal_signed_byte_len (be32 v)"
    using trim_signed_drop(3) [of "be32 v"] by (simp add: int_bytes_trim)
  then show ?thesis
    using tlv_emit [of "int_bytes v" TAG_INTEGER buf pos] int_bytes_length(2) [of v]
    by (simp add: encode_integer_def Let_def int_bytes_def)
qed

lemma decode_integer_at:
  assumes "subslice data a (a + length (int_bytes v)) = (Ok (int_bytes v) :: (DecodeError, bytes) result)"
  shows "decode_integer data a (a + length (int_bytes v)) = Ok v"
proof -
  have n: "int_bytes v \<noteq> []" using int_bytes_length(1) [of v] by auto
  have "be_fold (sext (int_bytes v)) (int_bytes v) = v"
    using be_fold_trim [of "be32 v"] be_fold_be32 by (simp add: int_bytes_trim)
  then show ?thesis
    using assms int_bytes_length [of v] n
    by (simp add: decode_integer_def Let_def idx_def sext_def hd_conv_nth)
qed

section \<open>Unsigned values\<close>

definition u32_bytes :: "u32 \<Rightarrow> bytes" where
  "u32_bytes v =
     (if be32 v ! 0 AND 0x80 \<noteq> 0 then 0x00 # be32 v
      else drop (4 - max (4 - length (takeWhile (\<lambda>b. b = 0) (be32 v))) 1) (be32 v))"

lemma u32_bytes_length: "0 < length (u32_bytes v)" "length (u32_bytes v) \<le> 5"
  by (auto simp: u32_bytes_def max_def)

lemma encode_u32_app_emit: "encode_u32_app t v buf pos = emit (wire_tlv t (u32_bytes v)) buf pos"
proof (cases "be32 v ! 0 AND 0x80 \<noteq> 0")
  case True
  have e: "and_then (encode_tlv_header t 5 buf pos) (\<lambda>(b, p).
      if p + 5 > length b then Err BufferTooSmall
      else and_then (store b p 0x00) (\<lambda>b. and_then (copy_at b (p + 1) (p + 5) (be32 v)) (\<lambda>b. Ok (b, p + 5))))
    = and_then (encode_tlv_header t 5 buf pos) (\<lambda>(b, p). put_content (0x00 # be32 v) b p)"
  proof -
    have "(if p + 5 > length b then Err BufferTooSmall
        else and_then (store b p 0x00) (\<lambda>b. and_then (copy_at b (p + 1) (p + 5) (be32 v)) (\<lambda>b. Ok (b, p + 5))))
      = put_content (0x00 # be32 v) b p" for b p
      using overwrite_Cons [of p "be32 v" b "0x00"]
      by (auto simp: put_content_def store_def copy_at_eq)
    then show ?thesis by simp
  qed
  have "encode_u32_app t v buf pos = and_then (encode_tlv_header t 5 buf pos) (\<lambda>(b, p). put_content (0x00 # be32 v) b p)"
    by (simp only: encode_u32_app_def Let_def True if_True prod.case refl e simp_thms not_True_eq_False)
  with True tlv_emit [of "0x00 # be32 v" t buf pos] show ?thesis
    by (simp add: u32_bytes_def)
next
  case False
  define m where "m = max (4 - length (takeWhile (\<lambda>b. b = 0) (be32 v))) 1"
  have m: "m \<le> 4" "length (drop (4 - m) (be32 v)) = m" "m \<noteq> 5" by (simp_all add: m_def)
  have "encode_u32_app t v buf pos = and_then (encode_tlv_header t m buf pos)
      (\<lambda>(b, p). put_content (drop (4 - m) (be32 v)) b p)"
    by (simp only: encode_u32_app_def Let_def if_not_P [OF False] prod.case m_def [symmetric]
        if_not_P [OF m(3)] put_content_def m(2))
  with False m(1,2) tlv_emit [of "drop (4 - m) (be32 v)" t buf pos] show ?thesis
    by (simp add: u32_bytes_def m_def)
qed

lemma be_fold_zeros: "\<forall>b \<in> set z. b = 0 \<Longrightarrow> be_fold 0 (z @ bs) = be_fold 0 bs"
  by (induction z) (auto simp: be_fold_pad)

lemma subslice_whole [simp]: "subslice bs 0 (length bs) = Ok bs" "subslice (b # bs) (Suc 0) (Suc (length bs)) = Ok bs"
  by (simp_all add: subslice_def)

lemma decode_u32_at:
  assumes "subslice data a (a + length (u32_bytes v)) = (Ok (u32_bytes v) :: (DecodeError, bytes) result)"
  shows "decode_u32 data a (a + length (u32_bytes v)) = Ok v"
proof (cases "be32 v ! 0 AND 0x80 \<noteq> 0")
  case True
  then have "u32_bytes v = 0x00 # be32 v" by (simp add: u32_bytes_def)
  with assms show ?thesis
    by (simp add: decode_u32_def Let_def idx_def be_fold_be32
        subslice_whole(2) [of "0x00" "be32 v", simplified])
next
  case False
  define k where "k = 4 - max (4 - length (takeWhile (\<lambda>b. b = 0) (be32 v))) 1"
  have b: "u32_bytes v = drop k (be32 v)" "length (u32_bytes v) \<le> 4" "0 < length (u32_bytes v)"
    using False u32_bytes_length(1) [of v] by (simp_all add: u32_bytes_def k_def)
  have "k \<le> length (takeWhile (\<lambda>b. b = 0) (be32 v))" by (simp add: k_def)
  then have "take k (be32 v) = take k (takeWhile (\<lambda>b. b = 0) (be32 v))"
    by (metis append_take_drop_id take_append takeWhile_eq_take le_trans min.absorb1 take_take)
  then have "\<forall>x \<in> set (take k (be32 v)). x = 0" by (metis in_set_takeD set_takeWhileD)
  from be_fold_zeros [OF this, of "drop k (be32 v)"] have "be_fold 0 (u32_bytes v) = v"
    by (simp add: b(1) be_fold_be32)
  moreover have "u32_bytes v \<noteq> []" "length (u32_bytes v) \<noteq> 5" using b(2,3) by auto
  ultimately show ?thesis using assms b(2) by (simp add: decode_u32_def Let_def)
qed

section \<open>Object identifiers\<close>

text \<open>All digits of a number marked as continued, and the digits with the last one unmarked.\<close>

definition cont_digits :: "u32 \<Rightarrow> bytes" where
  "cont_digits v = map (\<lambda>d. d OR 0x80) (rev (rev_digits v))"

definition wire_base128 :: "u32 \<Rightarrow> bytes" where
  "wire_base128 v = cont_digits (drop_bit 7 v) @ [ucast (v AND 0x7F)]"

lemma digits_length: "length (rev_digits v) \<le> k" if "unat v < 2 ^ (7 * k)"
  using that
proof (induction k arbitrary: v)
  case 0
  then show ?case by (simp add: rev_digits.simps unat_eq_0)
next
  case (Suc k)
  have "unat (drop_bit 7 v) = unat v div 2 ^ 7"
    by (simp add: unsigned_drop_bit_eq drop_bit_eq_div take_bit_eq_mod unat_div)
  moreover have "(2 :: nat) ^ (7 * Suc k) = 2 ^ 7 * 2 ^ (7 * k)" by (simp add: power_add)
  ultimately have "unat (drop_bit 7 v) < 2 ^ (7 * k)"
    using Suc.prems by (simp add: less_mult_imp_div_less mult.commute)
  from Suc.IH [OF this] show ?case by (subst rev_digits.simps) simp
qed

lemma wire_base128_length: "0 < length (wire_base128 v)" "length (wire_base128 v) \<le> 5"
proof -
  have "unat (drop_bit 7 v) < 2 ^ (7 * 4)"
    using unsigned_less [of v, where ?'a = nat]
    by (simp add: unsigned_drop_bit_eq drop_bit_eq_div take_bit_eq_mod unat_div)
  from digits_length [OF this] show "0 < length (wire_base128 v)" "length (wire_base128 v) \<le> 5"
    by (simp_all add: wire_base128_def cont_digits_def)
qed

lemma encode_base128_emit: "encode_base128 v buf pos = emit (wire_base128 v) buf pos"
proof (cases "v = 0")
  case True
  then show ?thesis
    by (auto simp: encode_base128_def wire_base128_def cont_digits_def rev_digits.simps store_def emit_def
        overwrite_def upd_conv_take_nth_drop)
next
  case False
  define ds where "ds = rev_digits (drop_bit 7 v)"
  let ?d = "ucast (v AND 0x7F) :: u8"
  have r: "rev_digits v = ?d # ds" using False by (subst rev_digits.simps) (simp add: ds_def)
  have "map (\<lambda>i. (?d # ds) ! (length ds - i) OR (if i < length ds then 0x80 else 0x00)) [0..<Suc (length ds)]
    = map (\<lambda>d. d OR 0x80) (rev ds) @ [?d]"
    by (rule nth_equalityI) (auto simp: nth_append rev_nth nth_Cons' less_Suc_eq Suc_diff_Suc)
  then show ?thesis
    using False by (simp add: encode_base128_def r put_eq emit_def wire_base128_def cont_digits_def ds_def [symmetric]
        del: upt_Suc)
qed

lemma bit_80: "bit (0x80 :: int) n \<longleftrightarrow> n = 7"
proof -
  have "(0x80 :: int) = 2 ^ 7" by simp
  then show ?thesis by (simp only: bit_exp_iff possible_bit_def) auto
qed

lemma bit_7F: "bit (0x7F :: int) n \<longleftrightarrow> n < 7"
proof -
  have "(0x7F :: int) = mask 7" by (simp add: mask_eq_exp_minus_1)
  then show ?thesis by (simp only: bit_mask_iff possible_bit_def) auto
qed

lemma cont_bits:
  fixes d :: u8
  shows "(d OR 0x80) AND 0x80 \<noteq> 0" "(d OR 0x80) AND 0x7F = d AND 0x7F"
proof -
  have "bit ((d OR 0x80) AND 0x80) 7" by (simp add: bit_simps bit_80)
  then show "(d OR 0x80) AND 0x80 \<noteq> 0" by auto
  show "(d OR 0x80) AND 0x7F = d AND 0x7F"
    by (rule bit_word_eqI) (auto simp: bit_simps bit_80 bit_7F)
qed

lemma low_digit:
  fixes v :: u32
  shows "ucast (ucast (v AND 0x7F) AND 0x7F :: u8) = v AND 0x7F" "(ucast (v AND 0x7F) :: u8) AND 0x80 = 0"
    "push_bit 7 (drop_bit 7 v) OR (v AND 0x7F) = v"
  by (rule bit_word_eqI; auto simp: bit_simps bit_80 bit_7F)+

lemma high_small: "unat v < 2 ^ 31 \<Longrightarrow> drop_bit 7 v \<le> (0x00FFFFFF :: u32)"
  by (simp add: word_le_nat_alt unsigned_drop_bit_eq drop_bit_eq_div take_bit_eq_mod unat_div)

lemma sub_id_cont:
  "unat v < 2 ^ 31 \<Longrightarrow> sub_id (cont_digits v @ rest) 0 = sub_id rest v"
proof (induction v arbitrary: rest rule: rev_digits.induct)
  case (1 v)
  show ?case
  proof (cases "v = 0")
    case True
    then show ?thesis by (simp add: cont_digits_def rev_digits.simps)
  next
    case False
    let ?h = "drop_bit 7 v" and ?d = "ucast (v AND 0x7F) :: u8"
    have c: "cont_digits v = cont_digits ?h @ [?d OR 0x80]"
      using False by (subst cont_digits_def, subst rev_digits.simps) (simp add: cont_digits_def)
    have "unat ?h \<le> unat v" by (simp add: unsigned_drop_bit_eq drop_bit_eq_div take_bit_eq_mod unat_div)
    then have "sub_id (cont_digits v @ rest) 0 = sub_id ((?d OR 0x80) # rest) ?h"
      using "1.IH" [OF False, of "(?d OR 0x80) # rest"] "1.prems" by (simp add: c)
    also have "\<dots> = sub_id rest v"
      using high_small [OF "1.prems"] cont_bits [of ?d] low_digit [of v] by (simp add: not_less [symmetric])
    finally show ?thesis .
  qed
qed

lemma sub_id_at: "unat v < 2 ^ 31 \<Longrightarrow> sub_id (wire_base128 v @ rest) 0 = Ok (v, rest)"
proof -
  assume v: "unat v < 2 ^ 31"
  then have "unat (drop_bit 7 v) < 2 ^ 31"
    by (simp add: unsigned_drop_bit_eq drop_bit_eq_div take_bit_eq_mod unat_div)
  from sub_id_cont [OF this] show ?thesis
    using high_small [OF v] low_digit [of v] by (simp add: wire_base128_def not_less [symmetric])
qed

lemma sub_ids_at:
  assumes "\<forall>s \<in> set ss. unat s < 2 ^ 31" and "length acc + length ss \<le> 16"
  shows "sub_ids (concat (map wire_base128 ss)) acc = Ok (acc @ ss)"
  using assms
proof (induction ss arbitrary: acc)
  case Nil
  then show ?case by (simp add: sub_ids.simps)
next
  case (Cons s ss)
  have n: "wire_base128 s \<noteq> []" using wire_base128_length(1) [of s] by auto
  with Cons show ?case
    by (subst sub_ids.simps) (simp add: sub_id_at vec_push_def)
qed

definition oid_ok :: "oid \<Rightarrow> bool" where
  "oid_ok oid \<longleftrightarrow> 2 \<le> length oid \<and> length oid \<le> 16
     \<and> (oid ! 0 < 2 \<and> oid ! 1 < 40 \<or> oid ! 0 = 2 \<and> oid ! 1 < 48) \<and> (\<forall>s \<in> set (drop 2 oid). unat s < 2 ^ 31)"

definition oid_content :: "oid \<Rightarrow> bytes" where
  "oid_content oid = wire_base128 (40 * oid ! 0 + oid ! 1) @ concat (map wire_base128 (drop 2 oid))"

lemma encode_base128_emit': "encode_base128 v = emit (wire_base128 v)"
  by (simp add: fun_eq_iff encode_base128_emit)

lemma encode_subs_emit: "encode_subs ss = emit (concat (map wire_base128 ss))"
proof (induction ss)
  case (Cons s ss)
  show ?case by (simp add: fun_eq_iff encode_base128_emit' Cons.IH emit_emit)
qed (simp add: fun_eq_iff)

lemma concat_base128_length: "length (concat (map wire_base128 ss)) \<le> 5 * length ss"
proof (induction ss)
  case (Cons s ss)
  then show ?case using wire_base128_length(2) [of s] by simp
qed simp

lemma oid_content_length: "length oid \<le> 16 \<Longrightarrow> length (oid_content oid) \<le> 75"
  using wire_base128_length(2) [of "40 * oid ! 0 + oid ! 1"] concat_base128_length [of "drop 2 oid"]
  by (simp add: oid_content_def)

lemma encode_oid_emit:
  assumes "2 \<le> length oid" and "length oid \<le> 16"
  shows "encode_oid oid buf pos = emit (wire_tlv TAG_OID (oid_content oid)) buf pos"
proof -
  have l: "length (oid_content oid) \<le> 75" using oid_content_length [OF assms(2)] .
  have "and_then (encode_base128 (40 * oid ! 0 + oid ! 1) (replicate 128 0) 0) (\<lambda>(tmp, n).
      and_then (encode_subs (drop 2 oid) tmp n) k) = and_then (emit (oid_content oid) (replicate 128 0) 0) k" for k :: "_ \<Rightarrow> (EncodeError, bytes \<times> nat) result"
    using emit_emit_then [of "wire_base128 (40 * oid ! 0 + oid ! 1)" "replicate 128 0" 0
        "concat (map wire_base128 (drop 2 oid))" "\<lambda>b p. k (b, p)"]
    by (simp add: encode_base128_emit encode_subs_emit oid_content_def)
  moreover have "emit (oid_content oid) (replicate 128 0) 0 =
      Ok (overwrite (replicate 128 0) 0 (oid_content oid), length (oid_content oid))"
    using l by (simp add: emit_def)
  ultimately show ?thesis
    using assms l tlv_emit [of "oid_content oid" TAG_OID buf pos] by (simp add: encode_oid_def Let_def)
qed

end
