(* ===== verification/Snmp_Props.thy ===== *)
theory Snmp_Props
  imports Snmp_Wire
begin

text \<open>
  The SNMP codec, proved: the codec interface for its integers, object identifiers and values,
  the message \<open>encode_get_response\<close> builds, and \<open>decode_get_request\<close> on well-formed requests
  and on arbitrary bytes.
\<close>

section \<open>Object identifiers read back\<close>

lemma small_first:
  assumes "oid_ok oid"
  shows "oid = oid ! 0 # oid ! 1 # drop 2 oid"
    "wire_base128 (40 * oid ! 0 + oid ! 1) = [ucast (40 * oid ! 0 + oid ! 1)]"
    "(let first = ucast (ucast (40 * oid ! 0 + oid ! 1) :: u8) :: u32 in
      if first < 40 then (0, first) else if first < 80 then (1, first - 40) else (2, first - 80)) = (oid ! 0, oid ! 1)"
proof -
  show "oid = oid ! 0 # oid ! 1 # drop 2 oid"
    using assms by (cases oid; cases "tl oid") (auto simp: oid_ok_def)
  define a b where "a = oid ! 0" and "b = oid ! 1"
  have "a < 2 \<and> b < 40 \<or> a = 2 \<and> b < 48" using assms by (simp add: oid_ok_def a_def b_def)
  moreover have "a < 2 \<Longrightarrow> a = 0 \<or> a = 1"
    by (auto simp: word_less_nat_alt word_unat_eq_iff less_2_cases_iff)
  ultimately have c: "a = 0 \<and> b < 40 \<or> a = 1 \<and> b < 40 \<or> a = 2 \<and> b < 48" by blast
  then have n: "unat (40 * a + b) = 40 * unat a + unat b" "unat (40 * a + b) < 128"
    by (auto simp: word_less_nat_alt unat_word_ariths)
  then have u: "ucast (ucast (40 * a + b) :: u8) = 40 * a + b"
    by (simp add: word_unat_eq_iff unsigned_ucast_eq take_bit_eq_mod unat_mod)
  have "drop_bit 7 (40 * a + b) = 0" "(40 * a + b) AND 0x7F = 40 * a + b"
  proof -
    show "drop_bit 7 (40 * a + b) = 0"
      using n(2) by (simp add: word_unat_eq_iff unsigned_drop_bit_eq drop_bit_eq_div take_bit_eq_mod unat_div)
    with low_digit(3) [of "40 * a + b"] show "(40 * a + b) AND 0x7F = 40 * a + b" by simp
  qed
  then show "wire_base128 (40 * oid ! 0 + oid ! 1) = [ucast (40 * oid ! 0 + oid ! 1)]"
    by (simp add: wire_base128_def cont_digits_def rev_digits.simps a_def b_def)
  show "(let first = ucast (ucast (40 * oid ! 0 + oid ! 1) :: u8) :: u32 in
      if first < 40 then (0, first) else if first < 80 then (1, first - 40) else (2, first - 80)) = (oid ! 0, oid ! 1)"
    unfolding a_def [symmetric] b_def [symmetric] u Let_def using c
    by (auto simp: word_less_nat_alt unat_word_ariths)
qed

lemma decode_oid_at:
  assumes "subslice data a b = (Ok (oid_content oid) :: (DecodeError, bytes) result)" and "oid_ok oid"
  shows "decode_oid data a b = Ok oid"
proof -
  have s: "sub_ids (concat (map wire_base128 (drop 2 oid))) [oid ! 0, oid ! 1] = Ok ([oid ! 0, oid ! 1] @ drop 2 oid)"
    using assms(2) by (intro sub_ids_at) (auto simp: oid_ok_def)
  note f = small_first [OF assms(2)]
  then show ?thesis
    using s f(3) by (simp add: decode_oid_def assms(1) oid_content_def idx_def vec_push_def Let_def
        flip: f(1))
qed

section \<open>The codec interface\<close>

text \<open>Reading one value of a type: its TLV, then its content.\<close>

definition read_tlv :: "u8 \<Rightarrow> (bytes \<Rightarrow> nat \<Rightarrow> nat \<Rightarrow> (DecodeError, 'a) result) \<Rightarrow>
    bytes \<Rightarrow> nat \<Rightarrow> (DecodeError, 'a \<times> nat) result" where
  "read_tlv t dec data pos =
     and_then (expect_tlv t data pos) (\<lambda>(a, b, next). and_then (dec data a b) (\<lambda>v. Ok (v, next)))"

lemma read_tlv_at:
  assumes "at data pos (wire_tlv t bs)" and "length bs \<le> 0xFFFF"
    and "\<And>a b. subslice data a b = (Ok bs :: (DecodeError, bytes) result) \<Longrightarrow> b = a + length bs \<Longrightarrow> dec data a b = Ok v"
  shows "read_tlv t dec data pos = Ok (v, pos + length (wire_tlv t bs))"
  using expect_tlv_at [OF assms(1,2)] assms(3) [OF _ refl] by (auto simp: read_tlv_def)

interpretation snmp_integer: codec encode_integer "\<lambda>v. wire_tlv TAG_INTEGER (int_bytes v)" "\<lambda>_. True"
  "read_tlv TAG_INTEGER decode_integer" 32
proof unfold_locales
  fix v data pos
  assume "at data pos (wire_tlv TAG_INTEGER (int_bytes v))"
  then show "read_tlv TAG_INTEGER decode_integer data pos = Ok (v, pos + length (wire_tlv TAG_INTEGER (int_bytes v)))"
    by (rule read_tlv_at) (use int_bytes_length(2) [of v] decode_integer_at in auto)
qed (rule encode_integer_emit)

interpretation snmp_u32: codec "encode_u32_app t" "\<lambda>v. wire_tlv t (u32_bytes v)" "\<lambda>_. True"
  "read_tlv t decode_u32" 32 for t
proof unfold_locales
  fix v data pos
  assume "at data pos (wire_tlv t (u32_bytes v))"
  then show "read_tlv t decode_u32 data pos = Ok (v, pos + length (wire_tlv t (u32_bytes v)))"
    by (rule read_tlv_at) (use u32_bytes_length(2) [of v] decode_u32_at in auto)
qed (rule encode_u32_app_emit)

interpretation snmp_oid: codec encode_oid "\<lambda>oid. wire_tlv TAG_OID (oid_content oid)" oid_ok
  "read_tlv TAG_OID decode_oid" 32
proof unfold_locales
  fix oid data pos
  assume "oid_ok oid" and "at data pos (wire_tlv TAG_OID (oid_content oid))"
  then show "read_tlv TAG_OID decode_oid data pos = Ok (oid, pos + length (wire_tlv TAG_OID (oid_content oid)))"
    using oid_content_length [of oid] decode_oid_at by (intro read_tlv_at) (auto simp: oid_ok_def)
qed (rule encode_oid_emit, simp_all add: oid_ok_def)

text \<open>
  Every signed and unsigned 32-bit integer, and every object identifier whose first two arcs fit
  into one byte and whose others are below \<open>2 ^ 31\<close>, is read back by the BER decoders at the
  position it was written to.
\<close>

theorem ber_roundtrip:
  assumes "pos \<le> length buf" and "length buf < 2 ^ 32"
  shows "(\<forall>b p. encode_integer i buf pos = Ok (b, p) \<longrightarrow>
      and_then (expect_tlv TAG_INTEGER b pos) (\<lambda>(x, y, _). decode_integer b x y) = Ok i)
    \<and> (\<forall>b p. encode_u32_app t v buf pos = Ok (b, p) \<longrightarrow>
      and_then (expect_tlv t b pos) (\<lambda>(x, y, _). decode_u32 b x y) = Ok v)
    \<and> (\<forall>b p. oid_ok oid \<and> encode_oid oid buf pos = Ok (b, p) \<longrightarrow>
      and_then (expect_tlv TAG_OID b pos) (\<lambda>(x, y, _). decode_oid b x y) = Ok oid)"
proof -
  have r: "and_then (expect_tlv t d pos) (\<lambda>(a, b, _). dec d a b) = Ok v" if "read_tlv t dec d pos = Ok (v, p)"
    for t d dec v p
    using that by (auto simp: read_tlv_def result_simps split: prod.splits)
  show ?thesis
    using snmp_integer.roundtrip [OF TrueI assms(2,1), THEN r] snmp_u32.roundtrip [OF TrueI assms(2,1), THEN r]
      snmp_oid.roundtrip [OF _ assms(2,1), THEN r] by blast
qed

lemma ber_roundtrip_witness:
  "and_then (expect_tlv TAG_INTEGER [0x02, 0x02, 0xFF, 0x7F] 0)
     (\<lambda>(x, y, _). decode_integer [0x02, 0x02, 0xFF, 0x7F] x y) = Ok (-129)"
proof -
  have "encode_integer (-129) [0, 0, 0, 0] 0 = Ok ([0x02, 0x02, 0xFF, 0x7F], 4)"
    by (simp add: encode_integer_emit emit_def wire_tlv_def int_bytes_def be32_def TAG_INTEGER_def ber_len_def
        overwrite_def)
  with ber_roundtrip [of 0 "[0, 0, 0, 0]" "-129"] show ?thesis by fastforce
qed

section \<open>Values and variable bindings\<close>

fun wire_snmp_value :: "SnmpValue \<Rightarrow> bytes" where
  "wire_snmp_value (SnmpInteger v) = wire_tlv TAG_INTEGER (int_bytes v)"
| "wire_snmp_value (OctetString s) = wire_tlv TAG_OCTET_STRING s"
| "wire_snmp_value (Counter32 v) = wire_tlv TAG_COUNTER32 (u32_bytes v)"
| "wire_snmp_value (Gauge32 v) = wire_tlv TAG_GAUGE32 (u32_bytes v)"
| "wire_snmp_value (TimeTicks v) = wire_tlv TAG_TIMETICKS (u32_bytes v)"
| "wire_snmp_value SnmpNull = wire_tlv TAG_NULL []"

text \<open>The capacity of the code's \<open>Vec<u8, 64>\<close> and \<open>Vec<u32, 16>\<close>.\<close>

definition value_ok :: "SnmpValue \<Rightarrow> bool" where
  "value_ok v = (case v of OctetString s \<Rightarrow> length s \<le> 64 | _ \<Rightarrow> True)"

definition varbind_ok :: "VarBind \<Rightarrow> bool" where
  "varbind_ok vb \<longleftrightarrow> 2 \<le> length (vb_oid vb) \<and> length (vb_oid vb) \<le> 16 \<and> value_ok (vb_value vb)"

lemma encode_octet_string_emit:
  "length s \<le> 0xFFFF \<Longrightarrow> encode_octet_string s buf pos = emit (wire_tlv TAG_OCTET_STRING s) buf pos"
  by (simp add: encode_octet_string_def tlv_emit)

interpretation snmp_value: encoder encode_snmp_value wire_snmp_value value_ok
proof
  fix v buf pos assume "value_ok v"
  then show "encode_snmp_value v buf pos = emit (wire_snmp_value v) buf pos"
    by (cases v) (auto simp: value_ok_def encode_integer_emit encode_octet_string_emit encode_u32_app_emit
        encode_null_def emit_def put_eq wire_tlv_def ber_len_def)
qed

lemma wire_snmp_value_not_Nil [simp]: "wire_snmp_value v \<noteq> []"
  by (cases v) simp_all

lemma length_wire_snmp_value: "value_ok v \<Longrightarrow> length (wire_snmp_value v) \<le> 66"
proof -
  have "length (int_bytes i) \<le> n" "length (u32_bytes u) \<le> n" if "5 \<le> n" for i u n
    using that int_bytes_length(2) [of i] u32_bytes_length(2) [of u] by simp_all
  then show "value_ok v \<Longrightarrow> length (wire_snmp_value v) \<le> 66"
    by (cases v) (simp_all add: length_wire_tlv ber_header_size_def value_ok_def)
qed

definition varbind_inner :: "VarBind \<Rightarrow> bytes" where
  "varbind_inner vb = wire_tlv TAG_OID (oid_content (vb_oid vb)) @ wire_snmp_value (vb_value vb)"

definition wire_varbind :: "VarBind \<Rightarrow> bytes" where
  "wire_varbind vb = wire_tlv TAG_SEQUENCE (varbind_inner vb)"

lemma varbind_inner_length: "varbind_ok vb \<Longrightarrow> length (varbind_inner vb) \<le> 143"
  using length_wire_snmp_value [of "vb_value vb"] oid_content_length [of "vb_oid vb"]
  by (simp add: varbind_inner_def varbind_ok_def length_wire_tlv ber_header_size_def)

text \<open>The content written four bytes ahead and moved back behind a header of at most four bytes.\<close>

lemma move_back:
  assumes "length h \<le> 4" and "h \<noteq> []" and "pos + 4 + length inner \<le> length buf"
  defines "b1 \<equiv> overwrite buf (pos + 4) inner"
  shows "\<exists>b2 b3. (if pos + length h < pos + 4 then copy_within b1 (pos + 4) (pos + 4 + length inner) (pos + length h)
        else Ok b1) = Ok b2
      \<and> emit h b2 pos = Ok (b3, pos + length h) \<and> length b3 = length buf
      \<and> take (pos + length h + length inner) b3 = take pos buf @ h @ inner"
proof -
  define b2 where "b2 = (if length h < 4 then overwrite b1 (pos + length h) inner else b1)"
  have l: "length b1 = length buf" "length b2 = length buf"
    using assms(1,3) by (auto simp: b1_def b2_def)
  have "take (length inner) (drop (pos + 4) b1) = inner"
    using assms(3) by (simp add: b1_def overwrite_def)
  then have c: "(if pos + length h < pos + 4 then copy_within b1 (pos + 4) (pos + 4 + length inner) (pos + length h)
      else Ok b1) = Ok b2"
    using assms(1,3) l by (auto simp: copy_within_def b2_def)
  have p: "take pos b2 = take pos buf" "take (length inner) (drop (pos + length h) b2) = inner"
    using assms(1,3) by (auto simp: b2_def b1_def overwrite_def min_def)
  have e: "emit h b2 pos = Ok (overwrite b2 pos h, pos + length h)"
    using assms(1,3) l by (simp add: emit_def)
  have "take (pos + length h + length inner) (overwrite b2 pos h) = take pos buf @ h @ inner"
    using p assms(1,3) l by (simp add: overwrite_def min_def)
  then show ?thesis
    using c e l assms(1,3) by (intro exI [of _ b2] exI [of _ "overwrite b2 pos h"]) simp
qed

lemma encode_varbind_writes:
  assumes "varbind_ok vb" and "pos + 4 + length (varbind_inner vb) \<le> length buf"
  shows "\<exists>b. encode_varbind vb buf pos = Ok (b, pos + length (wire_varbind vb)) \<and> length b = length buf
    \<and> take (pos + length (wire_varbind vb)) b = take pos buf @ wire_varbind vb"
proof -
  let ?i = "varbind_inner vb" and ?o = "wire_tlv TAG_OID (oid_content (vb_oid vb))"
  define h where "h = TAG_SEQUENCE # ber_len (length ?i)"
  have h: "length h = ber_header_size (length ?i)" "h \<noteq> []" "length h \<le> 4"
    "encode_tlv_header TAG_SEQUENCE (length ?i) b p = emit h b p" for b p
    using ber_len_length [of "length ?i"] varbind_inner_length [OF assms(1)]
    by (simp_all add: h_def encode_tlv_header_emit ber_header_size_def)
  have w: "wire_varbind vb = h @ ?i" by (simp add: wire_varbind_def wire_tlv_def h_def)
  have "encode_oid (vb_oid vb) buf (pos + 4) = emit ?o buf (pos + 4)"
    using assms(1) by (intro encode_oid_emit) (simp_all add: varbind_ok_def)
  moreover have "and_then (emit ?o buf (pos + 4)) (\<lambda>(b, p). and_then (encode_snmp_value (vb_value vb) b p) k)
      = and_then (emit ?i buf (pos + 4)) k" for k :: "_ \<Rightarrow> (EncodeError, bytes \<times> nat) result"
    using emit_emit_then [of ?o buf "pos + 4" "wire_snmp_value (vb_value vb)" "\<lambda>b p. k (b, p)"] assms(1)
    by (simp add: snmp_value.enc_emit varbind_ok_def varbind_inner_def)
  ultimately have e: "and_then (encode_oid (vb_oid vb) buf (pos + 4)) (\<lambda>(b, p).
      and_then (encode_snmp_value (vb_value vb) b p) k) = k (overwrite buf (pos + 4) ?i, pos + 4 + length ?i)"
    for k :: "_ \<Rightarrow> (EncodeError, bytes \<times> nat) result"
    using assms(2) by (simp add: emit_def)
  from move_back [OF h(3,2) assms(2)] obtain b2 b3 where b:
    "(if pos + length h < pos + 4 then copy_within (overwrite buf (pos + 4) ?i) (pos + 4) (pos + 4 + length ?i)
        (pos + length h) else Ok (overwrite buf (pos + 4) ?i)) = Ok b2"
    "emit h b2 pos = Ok (b3, pos + length h)" "length b3 = length buf"
    "take (pos + length h + length ?i) b3 = take pos buf @ h @ ?i" by blast
  have n: "pos + 4 + length ?i - (pos + 4) = length ?i" by simp
  have "encode_varbind vb buf pos = Ok (b3, pos + length h + length ?i)"
    unfolding encode_varbind_def Let_def e prod.case n h(1) [symmetric] b(1) and_then.simps h(4) b(2)
    by (rule refl)
  then show ?thesis using b(3,4) by (simp add: w add.assoc)
qed

section \<open>The response\<close>

definition wire_bindings :: "VarBind list \<Rightarrow> bytes" where
  "wire_bindings vbs = concat (map wire_varbind vbs)"

definition wire_pdu :: "i32 \<Rightarrow> i32 \<Rightarrow> i32 \<Rightarrow> VarBind list \<Rightarrow> bytes" where
  "wire_pdu request_id status index vbs =
     wire_tlv TAG_INTEGER (int_bytes request_id) @ wire_tlv TAG_INTEGER (int_bytes status)
     @ wire_tlv TAG_INTEGER (int_bytes index) @ wire_tlv TAG_SEQUENCE (wire_bindings vbs)"

definition wire_message :: "u8 \<Rightarrow> bytes \<Rightarrow> bytes \<Rightarrow> bytes" where
  "wire_message pdu_tag community pdu =
     wire_tlv TAG_SEQUENCE (wire_tlv TAG_INTEGER (int_bytes 1) @ wire_tlv TAG_OCTET_STRING community
       @ wire_tlv pdu_tag pdu)"

lemma wire_varbind_room: "varbind_ok vb \<Longrightarrow> 4 + length (varbind_inner vb) \<le> length (wire_varbind vb) + 2"
  by (simp add: wire_varbind_def length_wire_tlv ber_header_size_def)

lemma encode_varbinds_writes:
  assumes "\<forall>vb \<in> set vbs. varbind_ok vb" and "pos + length (wire_bindings vbs) + 2 \<le> length buf"
  shows "\<exists>b. encode_varbinds vbs buf pos = Ok (b, pos + length (wire_bindings vbs)) \<and> length b = length buf
    \<and> take (pos + length (wire_bindings vbs)) b = take pos buf @ wire_bindings vbs"
  using assms
proof (induction vbs arbitrary: buf pos)
  case Nil
  then show ?case by (simp add: wire_bindings_def)
next
  case (Cons vb vbs)
  have l: "length (wire_bindings (vb # vbs)) = length (wire_varbind vb) + length (wire_bindings vbs)"
    by (simp add: wire_bindings_def)
  have v: "varbind_ok vb" using Cons.prems(1) by simp
  then obtain b where b: "encode_varbind vb buf pos = Ok (b, pos + length (wire_varbind vb))" "length b = length buf"
    "take (pos + length (wire_varbind vb)) b = take pos buf @ wire_varbind vb"
    using encode_varbind_writes [OF v, of pos buf] wire_varbind_room [OF v] Cons.prems(2) l by auto
  have "\<exists>c. encode_varbinds vbs b (pos + length (wire_varbind vb)) =
      Ok (c, pos + length (wire_varbind vb) + length (wire_bindings vbs)) \<and> length c = length b
    \<and> take (pos + length (wire_varbind vb) + length (wire_bindings vbs)) c
      = take (pos + length (wire_varbind vb)) b @ wire_bindings vbs"
    by (rule Cons.IH) (use Cons.prems l b(2) in auto)
  then show ?case using b l by (auto simp: wire_bindings_def add.assoc)
qed

lemma header_before:
  assumes "length c \<le> 512" and "length h = 4 \<or> length h = 3 \<or> length h = 2" and "take (length c) b = c"
    and "length h + length c \<le> length b"
  shows "\<exists>b2. copy_within b 0 (length c) (length h) = Ok b2 \<and> length b2 = length b
    \<and> (\<exists>b3. emit h b2 0 = Ok (b3, length h) \<and> subslice b3 0 (length h + length c) = (Ok (h @ c) :: (EncodeError, bytes) result))"
proof -
  let ?b2 = "overwrite b (length h) c"
  have "copy_within b 0 (length c) (length h) = Ok ?b2" "length ?b2 = length b"
    using assms by (auto simp: copy_within_def)
  moreover have "take (length c) (drop (length h) ?b2) = c"
    using assms by (auto simp: overwrite_def)
  then have "take (length h + length c) (overwrite ?b2 0 h) = h @ c"
    using assms by (simp add: overwrite_def)
  ultimately show ?thesis
    using assms by (auto simp: emit_def subslice_def)
qed

text \<open>Content written to a buffer from a position on, behind what is already there.\<close>

definition written :: "bytes \<Rightarrow> bytes \<times> nat \<Rightarrow> bool" where
  "written bs r \<longleftrightarrow> (case r of (b, p) \<Rightarrow> length b = 512 \<and> p = length bs \<and> take p b = bs)"

lemma written_start: "written [] (replicate 512 0, 0)"
  by (simp add: written_def)

lemma written_emit:
  assumes "written as (b, p)" and "length as + length bs \<le> 512"
  shows "\<exists>c. emit bs b p = Ok (c, p + length bs) \<and> written (as @ bs) (c, p + length bs)"
  using assms by (auto simp: written_def emit_def overwrite_def)

lemma written_content:
  assumes "written as (b, p)" and "length as + length bs \<le> 512"
  shows "\<exists>c. put_content bs b p = Ok (c, p + length bs) \<and> written (as @ bs) (c, p + length bs)"
  using written_emit [OF assms] assms put_content_emit [of p b bs] by (simp add: written_def)

lemma encode_get_response_writes:
  assumes vbs: "\<forall>vb \<in> set vbs. varbind_ok vb"
    and fits: "length (wire_message TAG_GET_RESPONSE community (wire_pdu rid status index vbs)) \<le> 512"
      "length (wire_message TAG_GET_RESPONSE community (wire_pdu rid status index vbs)) \<le> length buf"
  defines "w \<equiv> wire_message TAG_GET_RESPONSE community (wire_pdu rid status index vbs)"
  shows "\<exists>buf'. encode_get_response rid community status index vbs buf = Ok (buf', length w) \<and> take (length w) buf' = w"
proof -
  let ?c = "wire_bindings vbs"
  define h1 where "h1 = TAG_SEQUENCE # ber_len (length ?c)"
  define pdu where "pdu = wire_pdu rid status index vbs"
  define h2 where "h2 = TAG_GET_RESPONSE # ber_len (length pdu)"
  define pre where "pre = wire_tlv TAG_INTEGER (int_bytes 1) @ wire_tlv TAG_OCTET_STRING community"
  define msg where "msg = pre @ h2 @ pdu"
  define h3 where "h3 = TAG_SEQUENCE # ber_len (length msg)"
  let ?i1 = "wire_tlv TAG_INTEGER (int_bytes rid)" and ?i2 = "wire_tlv TAG_INTEGER (int_bytes status)"
    and ?i3 = "wire_tlv TAG_INTEGER (int_bytes index)"
  have h: "length h1 = ber_header_size (length ?c)" "length h2 = ber_header_size (length pdu)"
    "length h3 = ber_header_size (length msg)" "h1 \<noteq> []" "h2 \<noteq> []" "h3 \<noteq> []"
    by (simp_all add: h1_def h2_def h3_def ber_len_length)
  have hs: "length h1 = 4 \<or> length h1 = 3 \<or> length h1 = 2"
    by (simp add: h(1) ber_header_size_def)
  have w: "w = h3 @ msg" "pdu = ?i1 @ ?i2 @ ?i3 @ h1 @ ?c"
    by (simp_all add: w_def wire_message_def wire_tlv_def h3_def msg_def pre_def h2_def pdu_def wire_pdu_def h1_def)
  have i: "4 \<le> length ?i1 + length ?i2" using int_bytes_length(1) by (simp add: length_wire_tlv ber_header_size_def)
  have l: "length h3 + length msg \<le> 512" "length h3 + length msg \<le> length buf"
    using fits w(1) by (simp_all add: w_def)
  have m: "length msg = length pre + length h2 + length pdu"
    "length pdu = length ?i1 + length ?i2 + length ?i3 + length h1 + length ?c"
    "length pre = length (wire_tlv TAG_INTEGER (int_bytes 1)) + length (wire_tlv TAG_OCTET_STRING community)"
    by (simp_all add: msg_def w(2) pre_def)
  have hdr: "length ?c \<le> 0xFFFF" "length pdu \<le> 0xFFFF" "length msg \<le> 0xFFFF" "length community \<le> 0xFFFF"
    using l m by (simp_all add: length_wire_tlv)
  have room: "length ?c + 2 \<le> 512" "length h1 + length ?c \<le> 512"
    using i l(1) m by simp_all
  obtain b where b: "encode_varbinds vbs (replicate SCRATCH 0) 0 = Ok (b, length ?c)" "length b = 512" "take (length ?c) b = ?c"
    using encode_varbinds_writes [OF vbs, of 0 "replicate SCRATCH 0"] room(1) by (auto simp: SCRATCH_def)
  from header_before [of ?c h1 b] b room hs obtain b2 b3 where b2: "copy_within b 0 (length ?c) (length h1) = Ok b2"
    "emit h1 b2 0 = Ok (b3, length h1)"
    "subslice b3 0 (length h1 + length ?c) = (Ok (h1 @ ?c) :: (EncodeError, bytes) result)" by auto
  have z: "replicate SCRATCH 0 = (replicate 512 0 :: bytes)" by (simp add: SCRATCH_def)
  from written_emit [OF written_start, of ?i1] m l obtain c1 where c1:
    "emit ?i1 (replicate 512 0) 0 = Ok (c1, length ?i1)" "written ?i1 (c1, length ?i1)" by auto
  from written_emit [OF c1(2), of ?i2] m l obtain c2 where c2:
    "emit ?i2 c1 (length ?i1) = Ok (c2, length ?i1 + length ?i2)" "written (?i1 @ ?i2) (c2, length ?i1 + length ?i2)" by auto
  from written_emit [OF c2(2), of ?i3] m l obtain c3 where c3:
    "emit ?i3 c2 (length ?i1 + length ?i2) = Ok (c3, length ?i1 + length ?i2 + length ?i3)"
    "written (?i1 @ ?i2 @ ?i3) (c3, length ?i1 + length ?i2 + length ?i3)" by auto
  have p: "length ?i1 + length ?i2 + length ?i3 + length (h1 @ ?c) = length pdu" using m(2) by simp
  from written_content [OF c3(2), of "h1 @ ?c"] m l obtain c4 where c4:
    "put_content (h1 @ ?c) c3 (length ?i1 + length ?i2 + length ?i3) = Ok (c4, length pdu)"
    "written pdu (c4, length pdu)" unfolding p by (auto simp: w(2))
  let ?v = "wire_tlv TAG_INTEGER (int_bytes 1)" and ?s = "wire_tlv TAG_OCTET_STRING community"
  from written_emit [OF written_start, of ?v] m l obtain d1 where d1:
    "emit ?v (replicate 512 0) 0 = Ok (d1, length ?v)" "written ?v (d1, length ?v)" by auto
  from written_emit [OF d1(2), of ?s] m l obtain d2 where d2:
    "emit ?s d1 (length ?v) = Ok (d2, length pre)" "written pre (d2, length pre)"
    unfolding m(3) [symmetric] pre_def [symmetric] by auto
  from written_emit [OF d2(2), of h2] m l obtain d3 where d3:
    "emit h2 d2 (length pre) = Ok (d3, length pre + length h2)" "written (pre @ h2) (d3, length pre + length h2)" by auto
  have body: "subslice c4 0 (length pdu) = (Ok pdu :: (EncodeError, bytes) result)"
    using c4(2) m l by (simp add: written_def subslice_def)
  obtain d4 where d4: "copy_at d3 (length pre + length h2) (length pre + length h2 + length pdu) pdu = (Ok d4 :: (EncodeError, bytes) result)"
    "subslice d4 0 (length msg) = (Ok msg :: (EncodeError, bytes) result)"
    using d3(2) m l by (auto simp: written_def copy_at_def subslice_def msg_def)
  have n: "\<not> length h1 + length ?c > SCRATCH" "\<not> length pre + length h2 + length pdu > length d2"
    "\<not> length h3 + length msg > length buf"
    using room d2(2) m l by (simp_all add: SCRATCH_def written_def)
  have e: "emit h3 buf 0 = Ok (h3 @ drop (length h3) buf, length h3)"
    "copy_at (h3 @ drop (length h3) buf) (length h3) (length h3 + length msg) msg
      = (Ok (w @ drop (length w) buf) :: (EncodeError, bytes) result)"
    using l(2) by (simp_all add: emit_def overwrite_def copy_at_def w(1) add.commute)
  have "encode_get_response rid community status index vbs buf = Ok (w @ drop (length w) buf, length h3 + length msg)"
    unfolding encode_get_response_def z b(1) [unfolded z] Let_def
    by (simp only: and_then.simps prod.case h(1-3) [symmetric] n [unfolded m(1) [symmetric]] if_False b2 encode_tlv_header_emit hdr
        h1_def [symmetric] h2_def [symmetric] h3_def [symmetric] encode_integer_emit c1 c2 c3 c4 body d1 d2 d3 d4 [unfolded m(1) [symmetric]]
        encode_octet_string_emit m(1) [symmetric] e)
  then show ?thesis using w(1) by auto
qed

text \<open>
  For bindings within the code's capacities, when the response fits into 512 bytes and the caller's
  buffer, \<open>encode_get_response\<close> succeeds and writes exactly the BER message: version 1, the community, and the
  response PDU with the request identifier, the error fields and every binding in order; the moves of
  half-built content inside the three scratch buffers leave no trace.
\<close>

theorem snmp_response:
  assumes "\<forall>vb \<in> set vbs. varbind_ok vb"
    and "length (wire_message TAG_GET_RESPONSE community (wire_pdu rid status index vbs)) \<le> min 512 (length buf)"
  shows "\<exists>buf' n. encode_get_response rid community status index vbs buf = Ok (buf', n)
    \<and> take n buf' = wire_message TAG_GET_RESPONSE community (wire_pdu rid status index vbs)"
proof -
  have "length (wire_message TAG_GET_RESPONSE community (wire_pdu rid status index vbs)) \<le> 512"
    "length (wire_message TAG_GET_RESPONSE community (wire_pdu rid status index vbs)) \<le> length buf"
    using assms(2) by simp_all
  from encode_get_response_writes [OF assms(1) this] show ?thesis by blast
qed

lemma snmp_response_witness:
  "\<exists>buf' n. encode_get_response 7 [112] 0 0 [\<lparr>vb_oid = [1, 3, 6], vb_value = Counter32 300\<rparr>] (replicate 512 0) = Ok (buf', n)
    \<and> take n buf' = wire_message TAG_GET_RESPONSE [112] (wire_pdu 7 0 0 [\<lparr>vb_oid = [1, 3, 6], vb_value = Counter32 300\<rparr>])"
proof -
  let ?vb = "\<lparr>vb_oid = [1, 3, 6], vb_value = Counter32 300\<rparr>"
  have v: "\<forall>vb \<in> set [?vb]. varbind_ok vb" by (simp add: varbind_ok_def value_ok_def)
  have "length (varbind_inner ?vb) \<le> 143" using varbind_inner_length [of ?vb] v by simp
  then have "length (wire_message TAG_GET_RESPONSE [112] (wire_pdu 7 0 0 [?vb])) \<le> 512"
    using int_bytes_length(2) [of 7] int_bytes_length(2) [of 0] int_bytes_length(2) [of 1]
    by (auto simp: wire_message_def wire_pdu_def wire_bindings_def wire_varbind_def length_wire_tlv ber_header_size_def)
  with snmp_response [OF v, of "[112]" 7 0 0 "replicate 512 0"] show ?thesis by simp
qed

end
