(* ===== verification/Snmp_Request.thy ===== *)
theory Snmp_Request
  imports Snmp_Props
begin

text \<open>
  \<open>decode_get_request\<close>: it never panics, whatever arrives on the UDP port, and it reads every
  well-formed request, whatever the values and error fields it carries.
\<close>

section \<open>Arbitrary bytes\<close>

lemma decode_integer_safe: "a \<le> b \<Longrightarrow> b \<le> length data \<Longrightarrow> post (\<lambda>_. True) (decode_integer data a b)"
  by (auto simp: decode_integer_def Let_def subslice_def idx_def)

text \<open>The lists of the request have the capacities of the code: 16 sub-identifiers, 8 object identifiers.\<close>

definition oid_fits :: "oid \<Rightarrow> bool" where
  "oid_fits oid \<longleftrightarrow> 2 \<le> length oid \<and> length oid \<le> 16"

definition oids_fit :: "oid list \<Rightarrow> bool" where
  "oids_fit oids \<longleftrightarrow> length oids \<le> 8 \<and> (\<forall>oid \<in> set oids. oid_fits oid)"

lemma post_ok_or: "(\<And>x. v = Some x \<Longrightarrow> post P (k x)) \<Longrightarrow> post P (and_then (ok_or e v) k)"
  by (cases v) auto

lemma vec_push_Some: "vec_push n v x = Some v' \<Longrightarrow> v' = v @ [x] \<and> length v < n"
  by (simp add: vec_push_def split: if_splits)

lemma sub_ids_fit: "oid_fits acc \<Longrightarrow> post oid_fits (sub_ids bs acc)"
proof (induction bs acc rule: sub_ids.induct)
  case (1 bs acc)
  have s: "post (\<lambda>_. True) (sub_id bs acc)" for bs acc
    by (induction bs acc rule: sub_id.induct) (auto simp: Let_def)
  show ?case
  proof (cases "bs = []")
    case False
    show ?thesis
    proof (cases "sub_id bs 0")
      case (Ok x)
      obtain s rest where x: "x = (s, rest)" by (cases x)
      have "post oid_fits (sub_ids rest v)" if "vec_push 16 acc s = Some v" for v
        proof -
        have "oid_fits v" using 1(2) vec_push_Some [OF that] by (simp add: oid_fits_def)
        then show ?thesis using 1(1) [OF False Ok x [symmetric], of v] that by simp
      qed
      then show ?thesis
        using Ok x by (subst sub_ids.simps) (auto simp: False intro!: post_ok_or)
    next
      case Panic
      then show ?thesis using s [of bs 0] by simp
    qed (subst sub_ids.simps, simp add: False)
  qed (use 1 in \<open>simp add: sub_ids.simps\<close>)
qed

lemma decode_oid_fits: "a \<le> b \<Longrightarrow> b \<le> length data \<Longrightarrow> post oid_fits (decode_oid data a b)"
  unfolding decode_oid_def
  by (auto simp: subslice_def idx_def Let_def vec_push_def oid_fits_def intro!: post_weaken [OF sub_ids_fit])

lemma post_slice:
  "a \<le> b \<Longrightarrow> b \<le> length data \<Longrightarrow> (\<And>s. post P (k s)) \<Longrightarrow> post P (and_then (subslice data a b) k)"
  by (simp add: subslice_def)

lemma decode_binding_fits:
  assumes "oids_fit oids"
  shows "post (\<lambda>(oids, _). oids_fit oids) (decode_binding vbl vp oids)"
proof -
  have *: "oids_fit v" if "oid_fits oid" "vec_push 8 oids oid = Some v" for oid v
    using that assms vec_push_Some [OF that(2)] by (simp add: oids_fit_def)
  show ?thesis
    unfolding decode_binding_def
    by (rule post_then [OF expect_tlv_bounds] | rule post_then [OF decode_oid_fits] | rule post_slice | rule post_ok_or
        | simp only: split_paired_all prod.case | erule conjE | (simp add: *; fail))+
qed

lemma decode_bindings_fit: "oids_fit oids \<Longrightarrow> post oids_fit (decode_bindings vbl vp oids)"
proof (induction vbl vp oids rule: decode_bindings.induct)
  case (1 vbl vp oids)
  note f = decode_binding_fits [OF 1(2), of vbl vp]
  show ?case
  proof (cases "decode_binding vbl vp oids")
    case (Ok x)
    obtain os nxt where x: "x = (os, nxt)" by (cases x)
    show ?thesis
      using 1(1) [OF _ Ok x [symmetric]] 1(2) f Ok x by (subst decode_bindings.simps) simp
  next
    case Panic
    then show ?thesis using f by simp
  qed (use 1 in \<open>subst decode_bindings.simps, simp\<close>)
qed

lemma decode_get_request_post: "post (\<lambda>r. sr_version r = 1 \<and> length (sr_community r) \<le> 32
    \<and> (sr_pdu_type r = TAG_GET_REQUEST \<or> sr_pdu_type r = TAG_GET_NEXT_REQUEST) \<and> oids_fit (sr_oids r))
    (decode_get_request data)"
  unfolding decode_get_request_def
  by (rule post_then [OF expect_tlv_bounds] | rule post_then [OF decode_tlv_bounds]
      | rule post_then [OF decode_integer_safe] | rule post_then [OF decode_bindings_fit] | rule post_if
      | rule post_slice | simp only: split_paired_all prod.case | erule conjE | (simp; fail) | (auto simp: oids_fit_def; fail))+

text \<open>
  C32: no packet makes \<open>decode_get_request\<close> panic, and a request it accepts is a version-2c Get or
  GetNext with a community of at most 32 bytes and at most 8 object identifiers of 2 to 16 sub-identifiers.
\<close>

theorem snmp_request_safe:
  "decode_get_request data \<noteq> Panic
   \<and> (\<forall>r. decode_get_request data = Ok r \<longrightarrow> sr_version r = 1 \<and> length (sr_community r) \<le> 32
        \<and> (sr_pdu_type r = TAG_GET_REQUEST \<or> sr_pdu_type r = TAG_GET_NEXT_REQUEST)
        \<and> length (sr_oids r) \<le> 8 \<and> (\<forall>oid \<in> set (sr_oids r). 2 \<le> length oid \<and> length oid \<le> 16))"
  using decode_get_request_post [of data] by (auto simp: post_def oids_fit_def oid_fits_def)

section \<open>Well-formed requests\<close>

text \<open>A requested binding: an object identifier and the bytes of any value.\<close>

definition wire_request_binding :: "oid \<times> bytes \<Rightarrow> bytes" where
  "wire_request_binding = (\<lambda>(oid, v). wire_tlv TAG_SEQUENCE (wire_tlv TAG_OID (oid_content oid) @ v))"

lemma decode_binding_at:
  assumes "at vbl vp (wire_request_binding (oid, v))" and "length (wire_request_binding (oid, v)) \<le> 0xFFFF"
    and "oid_ok oid" and "length oids < 8"
  shows "decode_binding vbl vp oids = Ok (oids @ [oid], vp + length (wire_request_binding (oid, v)))"
proof -
  let ?b = "wire_tlv TAG_OID (oid_content oid) @ v"
  have w: "wire_request_binding (oid, v) = wire_tlv TAG_SEQUENCE ?b" by (simp add: wire_request_binding_def)
  have l: "length ?b \<le> 0xFFFF" "length (oid_content oid) \<le> 0xFFFF"
    using assms(2) unfolding w by (simp_all add: length_wire_tlv)
  obtain a b where ab: "expect_tlv TAG_SEQUENCE vbl vp = Ok (a, b, vp + length (wire_tlv TAG_SEQUENCE ?b))"
    "subslice vbl a b = (Ok ?b :: (DecodeError, bytes) result)"
    using expect_tlv_at [OF assms(1) [unfolded w] l(1)] by blast
  have "at ?b 0 (wire_tlv TAG_OID (oid_content oid))" by (rule at_prefix)
  from expect_tlv_at [OF this l(2)] obtain c d where cd: "expect_tlv TAG_OID ?b 0 = Ok (c, d, length (wire_tlv TAG_OID (oid_content oid)))"
    "subslice ?b c d = (Ok (oid_content oid) :: (DecodeError, bytes) result)" by auto
  show ?thesis
    using ab cd decode_oid_at [OF cd(2) assms(3)] assms(4)
    by (simp add: decode_binding_def w vec_push_def)
qed

lemma decode_bindings_at:
  assumes "at vbl vp (concat (map wire_request_binding bs))" and "vp + length (concat (map wire_request_binding bs)) = length vbl"
    and "length vbl \<le> 0xFFFF" and "\<forall>b \<in> set bs. oid_ok (fst b)" and "length oids + length bs \<le> 8"
  shows "decode_bindings vbl vp oids = Ok (oids @ map fst bs)"
  using assms
proof (induction bs arbitrary: vp oids)
  case Nil
  then show ?case by (simp add: decode_bindings.simps)
next
  case (Cons b bs)
  obtain oid v where b: "b = (oid, v)" by (cases b)
  let ?w = "wire_request_binding (oid, v)"
  have a: "at vbl vp ?w" "at vbl (vp + length ?w) (concat (map wire_request_binding bs))"
    using Cons.prems(1) by (simp_all add: b at_append)
  have l: "0 < length ?w" "length ?w \<le> 0xFFFF"
    using Cons.prems(2,3) by (simp_all add: b wire_request_binding_def length_wire_tlv ber_header_size_def)
  have d: "decode_binding vbl vp oids = Ok (oids @ [oid], vp + length ?w)"
    using decode_binding_at [OF a(1) l(2)] Cons.prems(4,5) by (simp add: b)
  have "decode_bindings vbl (vp + length ?w) (oids @ [oid]) = Ok ((oids @ [oid]) @ map fst bs)"
    by (rule Cons.IH [OF a(2)]) (use Cons.prems b in auto)
  moreover have "vp < length vbl" using l(1) at_length [OF a(1)] by linarith
  ultimately show ?case
    using d by (subst decode_bindings.simps) (simp add: b)
qed

definition wire_request :: "u8 \<Rightarrow> bytes \<Rightarrow> i32 \<Rightarrow> i32 \<Rightarrow> i32 \<Rightarrow> (oid \<times> bytes) list \<Rightarrow> bytes" where
  "wire_request t community rid status index bs =
     wire_message t community (wire_tlv TAG_INTEGER (int_bytes rid) @ wire_tlv TAG_INTEGER (int_bytes status)
       @ wire_tlv TAG_INTEGER (int_bytes index) @ wire_tlv TAG_SEQUENCE (concat (map wire_request_binding bs)))"

lemma decode_wire_request:
  assumes "t = TAG_GET_REQUEST \<or> t = TAG_GET_NEXT_REQUEST" and "length community \<le> 32"
    and "\<forall>b \<in> set bs. oid_ok (fst b)" and "length bs \<le> 8"
    and "length (wire_request t community rid status index bs) \<le> 0xFFFF"
  shows "decode_get_request (wire_request t community rid status index bs @ rest) =
    Ok \<lparr>sr_version = 1, sr_community = community, sr_request_id = rid, sr_pdu_type = t, sr_oids = map fst bs\<rparr>"
proof -
  let ?v = "wire_tlv TAG_INTEGER (int_bytes 1)" and ?s = "wire_tlv TAG_OCTET_STRING community"
    and ?i1 = "wire_tlv TAG_INTEGER (int_bytes rid)" and ?i2 = "wire_tlv TAG_INTEGER (int_bytes status)"
    and ?i3 = "wire_tlv TAG_INTEGER (int_bytes index)"
  define c where "c = concat (map wire_request_binding bs)"
  define pdu where "pdu = ?i1 @ ?i2 @ ?i3 @ wire_tlv TAG_SEQUENCE c"
  define msg where "msg = ?v @ ?s @ wire_tlv t pdu"
  let ?d = "wire_tlv TAG_SEQUENCE msg @ rest"
  have w: "wire_request t community rid status index bs = wire_tlv TAG_SEQUENCE msg"
    by (simp add: wire_request_def wire_message_def msg_def pdu_def c_def)
  have l: "length msg \<le> 0xFFFF" "length pdu \<le> 0xFFFF" "length c \<le> 0xFFFF" "length community \<le> 0xFFFF"
    using assms(5) unfolding w by (simp_all add: length_wire_tlv msg_def pdu_def)
  have il: "length (int_bytes i) \<le> 0xFFFF" for i using int_bytes_length(2) [of i] by simp
  from expect_tlv_at [OF at_prefix l(1), of TAG_SEQUENCE rest] obtain a0 b0 n0 where
    e0: "expect_tlv TAG_SEQUENCE ?d 0 = Ok (a0, b0, n0)" "subslice ?d a0 b0 = (Ok msg :: (DecodeError, bytes) result)" by auto
  have am: "at msg 0 ?v" "at msg (length ?v) ?s" "at msg (length ?v + length ?s) (wire_tlv t pdu)"
    using at_self [of msg] by (simp_all add: msg_def at_append)
  from expect_tlv_at [OF am(1) il] obtain a1 where
    e1: "expect_tlv TAG_INTEGER msg 0 = Ok (a1, a1 + length (int_bytes 1), length ?v)" "decode_integer msg a1 (a1 + length (int_bytes 1)) = Ok 1"
    using decode_integer_at by auto
  from expect_tlv_at [OF am(2) l(4)] obtain a2 b2 where
    e2: "expect_tlv TAG_OCTET_STRING msg (length ?v) = Ok (a2, b2, length ?v + length ?s)"
    "subslice msg a2 b2 = (Ok community :: (DecodeError, bytes) result)" by auto
  from decode_tlv_at [OF am(3) l(2)] obtain a3 b3 where
    e3: "decode_tlv msg (length ?v + length ?s) = Ok (t, a3, b3, b3)" "subslice msg a3 b3 = (Ok pdu :: (DecodeError, bytes) result)"
    by blast
  have ap: "at pdu 0 ?i1" "at pdu (length ?i1) ?i2" "at pdu (length ?i1 + length ?i2) ?i3"
    "at pdu (length ?i1 + length ?i2 + length ?i3) (wire_tlv TAG_SEQUENCE c)"
    using at_self [of pdu] by (simp_all add: pdu_def at_append add.assoc)
  from expect_tlv_at [OF ap(1) il] obtain a4 where
    e4: "expect_tlv TAG_INTEGER pdu 0 = Ok (a4, a4 + length (int_bytes rid), length ?i1)"
    "decode_integer pdu a4 (a4 + length (int_bytes rid)) = Ok rid" using decode_integer_at by auto
  from expect_tlv_at [OF ap(2) il] obtain a5 b5 where
    e5: "expect_tlv TAG_INTEGER pdu (length ?i1) = Ok (a5, b5, length ?i1 + length ?i2)" by auto
  from expect_tlv_at [OF ap(3) il] obtain a6 b6 where
    e6: "expect_tlv TAG_INTEGER pdu (length ?i1 + length ?i2) = Ok (a6, b6, length ?i1 + length ?i2 + length ?i3)" by auto
  from expect_tlv_at [OF ap(4) l(3)] obtain a7 b7 n7 where
    e7: "expect_tlv TAG_SEQUENCE pdu (length ?i1 + length ?i2 + length ?i3) = Ok (a7, b7, n7)"
    "subslice pdu a7 b7 = (Ok c :: (DecodeError, bytes) result)" by auto
  have "decode_bindings c 0 [] = Ok ([] @ map fst bs)"
    by (rule decode_bindings_at) (use l(3) assms(3,4) in \<open>simp_all add: c_def\<close>)
  then have e8: "decode_bindings c 0 [] = Ok (map fst bs)" by simp
  have t: "\<not> (t \<noteq> TAG_GET_REQUEST \<and> t \<noteq> TAG_GET_NEXT_REQUEST)" "\<not> length community > 32"
    using assms(1,2) by auto
  show ?thesis
    unfolding w decode_get_request_def
    by (simp only: and_then.simps prod.case e0 e1 e2 e3 e4 e5 e6 e7 e8 t if_False simp_thms refl)
qed

text \<open>
  C31: every well-formed version-2c Get or GetNext request with at most eight object identifiers
  and a community of at most 32 bytes is decoded to its fields, whatever values it carries and whatever follows it.
\<close>

theorem snmp_request_decoded:
  assumes "t = TAG_GET_REQUEST \<or> t = TAG_GET_NEXT_REQUEST" and "length community \<le> 32"
    and "\<forall>b \<in> set bs. oid_ok (fst b)" and "length bs \<le> 8"
    and "length (wire_request t community rid status index bs) \<le> 0xFFFF"
  shows "decode_get_request (wire_request t community rid status index bs @ rest) =
    Ok \<lparr>sr_version = 1, sr_community = community, sr_request_id = rid, sr_pdu_type = t, sr_oids = map fst bs\<rparr>"
  using decode_wire_request [OF assms] .

text \<open>A Get of \<open>sysUpTime\<close> with the community \<open>p\<close>.\<close>

lemma snmp_request_decoded_witness:
  "decode_get_request (wire_request TAG_GET_REQUEST [112] 42 0 0 [([1, 3, 6, 1, 2, 1, 1, 3, 0], [0x05, 0x00])] @ []) =
    Ok \<lparr>sr_version = 1, sr_community = [112], sr_request_id = 42, sr_pdu_type = TAG_GET_REQUEST,
        sr_oids = [[1, 3, 6, 1, 2, 1, 1, 3, 0]]\<rparr>"
proof -
  let ?oid = "[1, 3, 6, 1, 2, 1, 1, 3, 0] :: oid"
  have "length (wire_request TAG_GET_REQUEST [112] 42 0 0 [(?oid, [0x05, 0x00])]) \<le> 0xFFFF"
    using int_bytes_length(2) [of 42] int_bytes_length(2) [of 0] int_bytes_length(2) [of 1] oid_content_length [of ?oid]
    by (auto simp: wire_request_def wire_message_def wire_request_binding_def length_wire_tlv ber_header_size_def)
  moreover have "oid_ok ?oid" by (simp add: oid_ok_def)
  ultimately show ?thesis
    using snmp_request_decoded [of TAG_GET_REQUEST "[112]" "[(?oid, [0x05, 0x00])]" 42 0 0 "[]"] by simp
qed

text \<open>The same request keeps the bounds.\<close>

lemma snmp_request_safe_witness:
  "\<exists>r. decode_get_request (wire_request TAG_GET_REQUEST [112] 42 0 0 [([1, 3, 6, 1, 2, 1, 1, 3, 0], [0x05, 0x00])]) = Ok r
     \<and> length (sr_oids r) \<le> 8 \<and> (\<forall>oid \<in> set (sr_oids r). 2 \<le> length oid \<and> length oid \<le> 16)"
proof -
  let ?oid = "[1, 3, 6, 1, 2, 1, 1, 3, 0] :: oid"
  let ?d = "wire_request TAG_GET_REQUEST [112] 42 0 0 [(?oid, [0x05, 0x00])]"
  have "length ?d \<le> 0xFFFF"
    using int_bytes_length(2) [of 42] int_bytes_length(2) [of 0] int_bytes_length(2) [of 1] oid_content_length [of ?oid]
    by (auto simp: wire_request_def wire_message_def wire_request_binding_def length_wire_tlv ber_header_size_def)
  moreover have "oid_ok ?oid" by (simp add: oid_ok_def)
  ultimately obtain r where "decode_get_request ?d = Ok r"
    using decode_wire_request [of TAG_GET_REQUEST "[112]" "[(?oid, [0x05, 0x00])]" 42 0 0 "[]"] by simp
  then show ?thesis using snmp_request_safe [of ?d] by simp
qed

end
