(* ===== verification/Snmp_Agent.thy ===== *)
theory Snmp_Agent
  imports Snmp_Request Bridge "HOL-Library.List_Lexorder"
begin

text \<open>
  The SNMP agent, \<open>firmware/src/snmp.rs\<close>: the table of object identifiers, their values, and the
  answer to one packet. What the agent reads elsewhere (the clock, the counters, the
  configuration, the bridge state) and the version string of the build are the fields of \<open>SnmpEnv\<close>.
\<close>

section \<open>The table\<close>

definition OID_SYS_DESCR :: oid where "OID_SYS_DESCR = [1, 3, 6, 1, 2, 1, 1, 1, 0]"
definition OID_SYS_UPTIME :: oid where "OID_SYS_UPTIME = [1, 3, 6, 1, 2, 1, 1, 3, 0]"
definition OID_SYS_CONTACT :: oid where "OID_SYS_CONTACT = [1, 3, 6, 1, 2, 1, 1, 4, 0]"
definition OID_SYS_NAME :: oid where "OID_SYS_NAME = [1, 3, 6, 1, 2, 1, 1, 5, 0]"
definition OID_MSTP_FRAMES_SENT :: oid where "OID_MSTP_FRAMES_SENT = [1, 3, 6, 1, 4, 1, 99999, 1, 1]"
definition OID_MSTP_FRAMES_RECV :: oid where "OID_MSTP_FRAMES_RECV = [1, 3, 6, 1, 4, 1, 99999, 1, 2]"
definition OID_MSTP_TOKEN_LOSSES :: oid where "OID_MSTP_TOKEN_LOSSES = [1, 3, 6, 1, 4, 1, 99999, 1, 3]"
definition OID_IPC_DROP_COUNT :: oid where "OID_IPC_DROP_COUNT = [1, 3, 6, 1, 4, 1, 99999, 1, 4]"
definition OID_BACNET_DEVICES_DISCOVERED :: oid where
  "OID_BACNET_DEVICES_DISCOVERED = [1, 3, 6, 1, 4, 1, 99999, 1, 5]"

lemmas snmp_oids = OID_SYS_DESCR_def OID_SYS_UPTIME_def OID_SYS_CONTACT_def OID_SYS_NAME_def
  OID_MSTP_FRAMES_SENT_def OID_MSTP_FRAMES_RECV_def OID_MSTP_TOKEN_LOSSES_def OID_IPC_DROP_COUNT_def
  OID_BACNET_DEVICES_DISCOVERED_def

definition OID_TABLE :: "oid list" where
  "OID_TABLE = [OID_SYS_DESCR, OID_SYS_UPTIME, OID_SYS_CONTACT, OID_SYS_NAME, OID_MSTP_FRAMES_SENT,
     OID_MSTP_FRAMES_RECV, OID_MSTP_TOKEN_LOSSES, OID_IPC_DROP_COUNT, OID_BACNET_DEVICES_DISCOVERED]"

definition COMMUNITY :: bytes where "COMMUNITY = str ''public''"

section \<open>Lookup\<close>

datatype ordering = Less | Equal | Greater

definition cmp :: "'a::linorder \<Rightarrow> 'a \<Rightarrow> ordering" where
  "cmp a b = (if a < b then Less else if a = b then Equal else Greater)"

text \<open>The elements up to the shorter length, then the lengths.\<close>

fun oid_cmp :: "oid \<Rightarrow> oid \<Rightarrow> ordering" where
  "oid_cmp (a # as) (b # bs) = (case cmp a b of Equal \<Rightarrow> oid_cmp as bs | other \<Rightarrow> other)"
| "oid_cmp as bs = cmp (length as) (length bs)"

definition next_oid :: "oid \<Rightarrow> oid option" where
  "next_oid oid = find (\<lambda>t. oid_cmp t oid = Greater) OID_TABLE"

record SnmpEnv =
  firmware_version :: bytes
  now_ms :: "64 word"
  frames_sent :: u32
  frames_recv :: u32
  token_losses :: u32
  ipc_drop_count :: u32
  env_config :: "BridgeConfig option"
  env_bridge :: BridgeStateInner

definition octets :: "bytes \<Rightarrow> bytes" where
  "octets s = foldl (vec_push_ignore 64) [] s"

definition resolve_oid :: "SnmpEnv \<Rightarrow> oid \<Rightarrow> VarBind option" where
  "resolve_oid env oid =
     map_option (\<lambda>v. \<lparr>vb_oid = foldl (vec_push_ignore 16) [] oid, vb_value = v\<rparr>)
       (if oid = OID_SYS_DESCR then
          Some (OctetString (octets (str ''BACnet Bridge v'' @ firmware_version env @ str '' (Icomb Place)'')))
        else if oid = OID_SYS_UPTIME then Some (TimeTicks (ucast (now_ms env div 10)))
        else if oid = OID_SYS_CONTACT then Some (OctetString (octets (str ''Icomb Place'')))
        else if oid = OID_SYS_NAME then
          Some (OctetString (octets (case env_config env of Some cfg \<Rightarrow> hostname cfg | None \<Rightarrow> str ''bacnet-bridge'')))
        else if oid = OID_MSTP_FRAMES_SENT then Some (Counter32 (frames_sent env))
        else if oid = OID_MSTP_FRAMES_RECV then Some (Counter32 (frames_recv env))
        else if oid = OID_MSTP_TOKEN_LOSSES then Some (Counter32 (token_losses env))
        else if oid = OID_IPC_DROP_COUNT then Some (Counter32 (ipc_drop_count env))
        else if oid = OID_BACNET_DEVICES_DISCOVERED then
          Some (Gauge32 (of_nat (length (filter (\<lambda>d. de_device_id d \<noteq> 0) (devices (env_bridge env))))))
        else None)"

definition build_bindings :: "SnmpEnv \<Rightarrow> oid list \<Rightarrow> u8 \<Rightarrow> VarBind list" where
  "build_bindings env oids pdu_type =
     foldl (\<lambda>bindings requested.
       case (if pdu_type = TAG_GET_NEXT_REQUEST then next_oid requested else Some requested) of
         None \<Rightarrow> bindings
       | Some oid \<Rightarrow> (case resolve_oid env oid of Some vb \<Rightarrow> vec_push_ignore 8 bindings vb | None \<Rightarrow> bindings))
     [] oids"

section \<open>The answer to a packet\<close>

text \<open>Error status and index: 1-based, the first requested identifier that is not at its place.\<close>

definition error_fields :: "oid list \<Rightarrow> VarBind list \<Rightarrow> i32 \<times> i32" where
  "error_fields oids bindings =
     (if length bindings < length oids then
        (ERROR_NO_SUCH_NAME,
         case find_index (\<lambda>i. if i < length bindings then vb_oid (bindings ! i) \<noteq> oids ! i else True)
                [0..<length oids] of
           Some i \<Rightarrow> of_nat (i + 1) | None \<Rightarrow> 1)
      else (ERROR_NO_ERROR, 0))"

definition snmp_answer :: "SnmpEnv \<Rightarrow> bytes \<Rightarrow> bytes \<Rightarrow> (unit, bytes option) result" where
  "snmp_answer env resp_buf pkt =
     (case decode_get_request pkt of
        Panic \<Rightarrow> Panic
      | Err e \<Rightarrow> Ok None
      | Ok req \<Rightarrow>
          if sr_community req \<noteq> COMMUNITY then Ok None
          else
            let bindings = build_bindings env (sr_oids req) (sr_pdu_type req);
                (status, index) = error_fields (sr_oids req) bindings in
            case encode_get_response (sr_request_id req) COMMUNITY status index bindings resp_buf of
              Ok (buf, n) \<Rightarrow> Ok (Some (take n buf))
            | Err e \<Rightarrow> Ok None
            | Panic \<Rightarrow> Panic)"

section \<open>The order of object identifiers\<close>

lemma Nil_less_list: "([] :: 'a::order list) < bs \<longleftrightarrow> bs \<noteq> []"
  by (cases bs) simp_all

lemma oid_cmp_order: "oid_cmp a b = cmp a b"
  by (induction a b rule: oid_cmp.induct) (auto simp: cmp_def Nil_less_list split: if_splits)

text \<open>
  \<open>oid_cmp\<close> compares object identifiers lexicographically: it is the three-way comparison
  of the linear order of lists.
\<close>

theorem oid_cmp_lexicographic: "oid_cmp a b = (if a < b then Less else if a = b then Equal else Greater)"
  unfolding cmp_def [symmetric] by (rule oid_cmp_order)

lemma OID_TABLE_sorted: "sorted_wrt (<) OID_TABLE"
  by (simp add: OID_TABLE_def snmp_oids)

definition above :: "oid \<Rightarrow> oid list" where
  "above oid = filter (\<lambda>t. oid < t) OID_TABLE"

lemma next_oid_above: "next_oid oid = (case above oid of [] \<Rightarrow> None | t # _ \<Rightarrow> Some t)"
proof -
  have "(\<lambda>t. oid_cmp t oid = Greater) = (\<lambda>t. oid < t)"
    by (auto simp: oid_cmp_order cmp_def fun_eq_iff split: if_splits)
  moreover have "find P xs = (case filter P xs of [] \<Rightarrow> None | t # _ \<Rightarrow> Some t)" for P and xs :: "oid list"
    by (induction xs) auto
  ultimately show ?thesis by (simp add: next_oid_def above_def)
qed

lemma above_step:
  assumes "above oid = t # rest"
  shows "above t = rest" "oid < t" "t \<in> set OID_TABLE" "\<forall>u \<in> set rest. t < u"
proof -
  have s: "sorted_wrt (<) (t # rest)"
    using sorted_wrt_filter [OF OID_TABLE_sorted, of "\<lambda>t. oid < t"] assms by (simp add: above_def)
  then show "\<forall>u \<in> set rest. t < u" by simp
  have "t \<in> set (above oid)" by (simp add: assms)
  then show o: "oid < t" "t \<in> set OID_TABLE" by (simp_all add: above_def)
  have "above t = filter (\<lambda>u. t < u) (above oid)"
    using o(1) by (auto simp: above_def intro!: filter_cong)
  then show "above t = rest" using s by (simp add: assms)
qed

text \<open>
  GetNext answers with the least object identifier of the table above the requested one, and
  has no answer exactly when there is none.
\<close>

theorem next_oid_successor:
  "case next_oid oid of
     None \<Rightarrow> \<forall>t \<in> set OID_TABLE. t \<le> oid
   | Some t \<Rightarrow> t \<in> set OID_TABLE \<and> oid < t \<and> (\<forall>u \<in> set OID_TABLE. oid < u \<longrightarrow> t \<le> u)"
proof (cases "above oid")
  case Nil
  then have "\<forall>t \<in> set OID_TABLE. \<not> oid < t" by (simp add: above_def filter_empty_conv)
  then show ?thesis using Nil by (simp add: next_oid_above not_less)
next
  case (Cons t rest)
  have "u = t \<or> u \<in> set rest" if "u \<in> set OID_TABLE" "oid < u" for u
    proof -
    from that have "u \<in> set (above oid)" by (simp add: above_def)
    then show ?thesis by (simp add: Cons)
  qed
  moreover have "t \<le> u" if "u = t \<or> u \<in> set rest" for u
    using that above_step(4) [OF Cons] by (auto intro: less_imp_le)
  ultimately show ?thesis using above_step(2,3) [OF Cons] Cons by (simp add: next_oid_above)
qed

lemma next_oid_successor_witness: "next_oid OID_SYS_NAME = Some OID_MSTP_FRAMES_SENT"
  using next_oid_successor [of OID_SYS_NAME]
  by (simp add: next_oid_def OID_TABLE_def snmp_oids cmp_def)

text \<open>A manager that asks for the next identifier until there is none.\<close>

fun walk :: "nat \<Rightarrow> oid \<Rightarrow> oid list" where
  "walk 0 oid = []"
| "walk (Suc n) oid = (case next_oid oid of None \<Rightarrow> [] | Some t \<Rightarrow> t # walk n t)"

lemma walk_above: "walk n oid = take n (above oid)"
proof (induction n arbitrary: oid)
  case (Suc n)
  then show ?case using above_step(1) [of oid] by (cases "above oid") (simp_all add: next_oid_above)
qed simp

text \<open>
  C17: a walk that starts below the table visits every entry once, in order, and then ends.
\<close>

theorem snmp_walk_complete:
  assumes "n \<ge> 9" and "oid < OID_SYS_DESCR"
  shows "walk n oid = OID_TABLE"
proof -
  have "\<forall>t \<in> set OID_TABLE. oid < t"
  proof
    fix t assume "t \<in> set OID_TABLE"
    then have "OID_SYS_DESCR \<le> t" by (auto simp: OID_TABLE_def snmp_oids)
    with assms(2) show "oid < t" by (rule less_le_trans)
  qed
  then have "above oid = OID_TABLE" by (simp add: above_def filter_id_conv)
  then show ?thesis using assms(1) by (simp add: walk_above OID_TABLE_def)
qed

lemma snmp_walk_complete_witness: "walk 9 [1, 3, 6] = OID_TABLE"
  using snmp_walk_complete [of 9 "[1, 3, 6]"] by (simp add: snmp_oids)

section \<open>Answers\<close>

lemma octets_length: "length (octets s) \<le> 64"
proof -
  have "length v \<le> 64 \<Longrightarrow> length (foldl (vec_push_ignore 64) v s) \<le> 64" for v :: bytes
    by (induction s arbitrary: v) (simp_all add: vec_push_ignore_length)
  then show ?thesis by (simp add: octets_def)
qed

lemma foldl_push_room: "length v + length xs \<le> n \<Longrightarrow> foldl (vec_push_ignore n) v xs = v @ xs"
  by (induction xs arbitrary: v) (simp_all add: vec_push_ignore_def vec_push_def)

lemma resolve_known:
  assumes "resolve_oid env oid = Some vb"
  shows "oid \<in> set OID_TABLE" "vb_oid vb = oid" "varbind_ok vb"
proof -
  show t: "oid \<in> set OID_TABLE"
    using assms by (auto simp: resolve_oid_def OID_TABLE_def split: if_splits)
  have l: "2 \<le> length oid" "length oid \<le> 16"
    using t by (auto simp: OID_TABLE_def snmp_oids)
  then show v: "vb_oid vb = oid"
    using assms foldl_push_room [of "[]" oid 16] by (auto simp: resolve_oid_def split: if_splits)
  have "value_ok (vb_value vb)"
    using assms octets_length by (auto simp: resolve_oid_def value_ok_def split: if_splits)
  with l v show "varbind_ok vb" by (simp add: varbind_ok_def)
qed

lemma resolve_table: "oid \<in> set OID_TABLE \<Longrightarrow> \<exists>vb. resolve_oid env oid = Some vb"
  by (auto simp: OID_TABLE_def resolve_oid_def)

lemma short_message:
  assumes "\<forall>vb \<in> set vbs. varbind_ok vb" and "length vbs \<le> 1"
  shows "length (wire_message TAG_GET_RESPONSE COMMUNITY (wire_pdu rid s i vbs)) \<le> 512"
proof -
  have b: "length (int_bytes v) \<le> 4" for v by (rule int_bytes_length(2))
  have "length (wire_bindings vbs) \<le> 147"
    using assms varbind_inner_length [of "vbs ! 0"]
    by (cases vbs) (auto simp: wire_bindings_def wire_varbind_def length_wire_tlv ber_header_size_def)
  then show ?thesis
    using b [of rid] b [of s] b [of i] b [of 1]
    by (simp add: wire_message_def wire_pdu_def length_wire_tlv ber_header_size_def COMMUNITY_def)
qed


definition sample_env :: SnmpEnv where
  "sample_env = \<lparr>firmware_version = str ''0.1.0'', now_ms = 61234, frames_sent = 7, frames_recv = 9, token_losses = 1,
     ipc_drop_count = 3, env_config = None, env_bridge = bridge_new\<rparr>"


end
