(* ===== verification/Mdns.thy ===== *)
theory Mdns
  imports Rust_Str
begin

text \<open>
  The mDNS packet codec, \<open>bridge-core/src/mdns.rs\<close>: names as uncompressed labels, the four
  response encoders, and the decoder of the first question with its compression pointers.

  An encoder passes \<open>&mut pos\<close> along; here every writer returns the buffer and the new
  position. A \<open>debug_assert!\<close> is not part of a release build; the copy after it panics anyway.
\<close>

section \<open>Constants\<close>

definition MDNS_PORT :: u16 where "MDNS_PORT = 5353"
definition MDNS_ADDR :: bytes where "MDNS_ADDR = [224, 0, 0, 251]"
definition TYPE_A :: u16 where "TYPE_A = 1"
definition TYPE_PTR :: u16 where "TYPE_PTR = 12"
definition TYPE_TXT :: u16 where "TYPE_TXT = 16"
definition TYPE_SRV :: u16 where "TYPE_SRV = 33"
definition CLASS_IN_FLUSH :: u16 where "CLASS_IN_FLUSH = 0x8001"
definition CLASS_IN :: u16 where "CLASS_IN = 0x0001"
definition MDNS_TTL :: u32 where "MDNS_TTL = 4500"

lemmas mdns_types = TYPE_A_def TYPE_PTR_def TYPE_TXT_def TYPE_SRV_def

section \<open>Integers\<close>

definition write_u16 :: "u16 \<Rightarrow> writer" where
  "write_u16 v buf pos = and_then (copy_at buf pos (pos + 2) (be16 v)) (\<lambda>b. Ok (b, pos + 2))"

definition write_u32 :: "u32 \<Rightarrow> writer" where
  "write_u32 v buf pos = and_then (copy_at buf pos (pos + 4) (be32 v)) (\<lambda>b. Ok (b, pos + 4))"

definition read_u16 :: "bytes \<Rightarrow> nat \<Rightarrow> (DecodeError, u16) result" where
  "read_u16 data pos = and_then (idx data pos) (\<lambda>a. and_then (idx data (pos + 1)) (\<lambda>b. Ok (of_be16 a b)))"

section \<open>The header\<close>

record DnsHeader =
  dns_id :: u16
  dns_flags :: u16
  qd_count :: u16
  an_count :: u16
  ns_count :: u16
  ar_count :: u16

definition dns_response :: "u16 \<Rightarrow> DnsHeader" where
  "dns_response n = \<lparr>dns_id = 0, dns_flags = 0x8400, qd_count = 0, an_count = n, ns_count = 0, ar_count = 0\<rparr>"

definition encode_dns_header :: "DnsHeader \<Rightarrow> writer" where
  "encode_dns_header h buf pos =
     (if length buf < pos + 12 then Err BufferTooSmall
      else
        and_then (write_u16 (dns_id h) buf pos) (\<lambda>(buf, pos).
        and_then (write_u16 (dns_flags h) buf pos) (\<lambda>(buf, pos).
        and_then (write_u16 (qd_count h) buf pos) (\<lambda>(buf, pos).
        and_then (write_u16 (an_count h) buf pos) (\<lambda>(buf, pos).
        and_then (write_u16 (ns_count h) buf pos) (\<lambda>(buf, pos).
        write_u16 (ar_count h) buf pos))))))"

definition decode_dns_header :: "bytes \<Rightarrow> (DecodeError, DnsHeader \<times> nat) result" where
  "decode_dns_header data =
     (if length data < 12 then Err UnexpectedEnd
      else
        and_then (read_u16 data 0) (\<lambda>i.
        and_then (read_u16 data 2) (\<lambda>f.
        and_then (read_u16 data 4) (\<lambda>qd.
        and_then (read_u16 data 6) (\<lambda>an.
        and_then (read_u16 data 8) (\<lambda>ns.
        and_then (read_u16 data 10) (\<lambda>ar.
          Ok (\<lparr>dns_id = i, dns_flags = f, qd_count = qd, an_count = an, ns_count = ns, ar_count = ar\<rparr>, 12))))))))"

section \<open>Names\<close>

definition write_label :: "bytes \<Rightarrow> writer" where
  "write_label label buf pos =
     (if length label > 63 then Err StringTooLong
      else if length buf < pos + 1 + length label then Err BufferTooSmall
      else
        and_then (store buf pos (of_nat (length label))) (\<lambda>buf.
        and_then (copy_at buf (pos + 1) (pos + 1 + length label) label) (\<lambda>buf.
          Ok (buf, pos + 1 + length label))))"

fun write_labels :: "bytes list \<Rightarrow> writer" where
  "write_labels [] buf pos = Ok (buf, pos)"
| "write_labels (l # ls) buf pos = and_then (write_label l buf pos) (\<lambda>(buf, pos). write_labels ls buf pos)"

text \<open>The size check skips empty parts (an empty domain splits into one), the loop that writes does not.\<close>

definition name_len :: "bytes list \<Rightarrow> nat" where
  "name_len parts = foldl (\<lambda>n part. if part = [] then n else n + (1 + length part)) 1 parts"

definition write_name :: "bytes \<Rightarrow> bytes \<Rightarrow> writer" where
  "write_name name domain buf pos =
     (if name_len (split_on 46 name @ split_on 46 domain) > 255
      then Err StringTooLong
      else
        and_then (write_labels (split_on 46 name) buf pos) (\<lambda>(buf, pos).
        and_then (if domain \<noteq> [] then write_labels (split_on 46 domain) buf pos else Ok (buf, pos)) (\<lambda>(buf, pos).
        if pos \<ge> length buf then Err BufferTooSmall
        else and_then (store buf pos 0x00) (\<lambda>buf. Ok (buf, pos + 1)))))"

text \<open>\<open>for &b in label_bytes { name.push(b as char)?; }\<close>: a byte above 127 becomes two bytes of UTF-8.\<close>

definition latin1 :: "u8 \<Rightarrow> bytes" where
  "latin1 b = (if b < 0x80 then [b] else [0xC0 OR drop_bit 6 b, 0x80 OR (b AND 0x3F)])"

fun push_latin1 :: "nat \<Rightarrow> bytes \<Rightarrow> bytes \<Rightarrow> bytes option" where
  "push_latin1 cap s [] = Some s"
| "push_latin1 cap s (b # bs) =
     (case push_str cap s (latin1 b) of None \<Rightarrow> None | Some s' \<Rightarrow> push_latin1 cap s' bs)"

function read_name_loop ::
  "bytes \<Rightarrow> nat \<Rightarrow> bytes \<Rightarrow> nat option \<Rightarrow> nat \<Rightarrow> (DecodeError, bytes \<times> nat) result" where
  "read_name_loop data pos name end_pos hops =
     (if pos \<ge> length data then Err UnexpectedEnd
      else
        let len = data ! pos in
        if len = 0x00 then Ok (name, case end_pos of None \<Rightarrow> pos + 1 | Some e \<Rightarrow> e)
        else if len AND 0xC0 = 0xC0 then
          (if pos + 1 \<ge> length data then Err UnexpectedEnd
           else
             let offset = unat (of_be16 (len AND 0x3F) (data ! (pos + 1))) in
             if offset \<ge> pos then Err InvalidNamePointer
             else if offset \<ge> length data then Err InvalidNamePointer
             else if hops + 1 > 8 then Err InvalidNamePointer
             else read_name_loop data offset name
                    (case end_pos of None \<Rightarrow> Some (pos + 2) | Some e \<Rightarrow> Some e) (hops + 1))
        else if pos + 1 + unat len > length data then Err UnexpectedEnd
        else
          and_then (if name \<noteq> [] then ok_or InvalidData (push_str 128 name [46]) else Ok name) (\<lambda>name.
          and_then (subslice data (pos + 1) (pos + 1 + unat len)) (\<lambda>label.
          and_then (ok_or InvalidData (push_latin1 128 name label)) (\<lambda>name.
            read_name_loop data (pos + 1 + unat len) name end_pos hops))))"
  by pat_completeness auto
termination
  by (relation "measures [\<lambda>(data, pos, name, end_pos, hops). 9 - hops,
        \<lambda>(data, pos, name, end_pos, hops). length data - pos]") auto

declare read_name_loop.simps [simp del]

definition read_name :: "bytes \<Rightarrow> nat \<Rightarrow> (DecodeError, bytes \<times> nat) result" where
  "read_name data start = read_name_loop data start [] None 0"

section \<open>Responses\<close>

definition write_rr_header :: "u16 \<Rightarrow> u16 \<Rightarrow> u32 \<Rightarrow> u16 \<Rightarrow> writer" where
  "write_rr_header rr_type class_code ttl rdlength buf pos =
     (if length buf < pos + 10 then Err BufferTooSmall
      else
        and_then (write_u16 rr_type buf pos) (\<lambda>(buf, pos).
        and_then (write_u16 class_code buf pos) (\<lambda>(buf, pos).
        and_then (write_u32 ttl buf pos) (\<lambda>(buf, pos).
        write_u16 rdlength buf pos))))"

definition encode_a_response :: "bytes \<Rightarrow> bytes \<Rightarrow> bytes \<Rightarrow> (EncodeError, bytes \<times> nat) result" where
  "encode_a_response hostname ip buf =
     and_then (encode_dns_header (dns_response 1) buf 0) (\<lambda>(buf, pos).
     and_then (write_name hostname (str ''local'') buf pos) (\<lambda>(buf, pos).
     and_then (write_rr_header TYPE_A CLASS_IN_FLUSH MDNS_TTL 4 buf pos) (\<lambda>(buf, pos).
     if length buf < pos + 4 then Err BufferTooSmall
     else and_then (copy_at buf pos (pos + 4) ip) (\<lambda>buf. Ok (buf, pos + 4)))))"

text \<open>The length of the record data is written over the placeholder of the header.\<close>

definition backfill :: "nat \<Rightarrow> nat \<Rightarrow> writer" where
  "backfill rdlength_pos rdata_start buf pos =
     (let rdata_len = pos - rdata_start in
      if rdata_len > 0xFFFF then Err StringTooLong
      else
        let rdlength = of_nat rdata_len :: u16 in
        and_then (store buf rdlength_pos (ucast (drop_bit 8 rdlength))) (\<lambda>buf.
        and_then (store buf (rdlength_pos + 1) (ucast rdlength)) (\<lambda>buf. Ok (buf, pos))))"

definition encode_ptr_response :: "bytes \<Rightarrow> bytes \<Rightarrow> bytes \<Rightarrow> (EncodeError, bytes \<times> nat) result" where
  "encode_ptr_response service inst buf =
     and_then (encode_dns_header (dns_response 1) buf 0) (\<lambda>(buf, pos).
     and_then (write_name service [] buf pos) (\<lambda>(buf, pos).
     let rdlength_pos = pos + 8 in
     and_then (write_rr_header TYPE_PTR CLASS_IN MDNS_TTL 0 buf pos) (\<lambda>(buf, pos).
     let rdata_start = pos in
     and_then (write_name inst [] buf pos) (\<lambda>(buf, pos).
     backfill rdlength_pos rdata_start buf pos))))"

definition encode_srv_response :: "bytes \<Rightarrow> bytes \<Rightarrow> u16 \<Rightarrow> bytes \<Rightarrow> (EncodeError, bytes \<times> nat) result" where
  "encode_srv_response inst hostname port buf =
     and_then (encode_dns_header (dns_response 1) buf 0) (\<lambda>(buf, pos).
     and_then (write_name inst [] buf pos) (\<lambda>(buf, pos).
     let rdlength_pos = pos + 8 in
     and_then (write_rr_header TYPE_SRV CLASS_IN_FLUSH MDNS_TTL 0 buf pos) (\<lambda>(buf, pos).
     let rdata_start = pos in
     if length buf < pos + 6 then Err BufferTooSmall
     else
       and_then (write_u16 0 buf pos) (\<lambda>(buf, pos).
       and_then (write_u16 0 buf pos) (\<lambda>(buf, pos).
       and_then (write_u16 port buf pos) (\<lambda>(buf, pos).
       and_then (write_name hostname (str ''local'') buf pos) (\<lambda>(buf, pos).
       backfill rdlength_pos rdata_start buf pos)))))))"

definition write_txt_pair :: "bytes \<times> bytes \<Rightarrow> writer" where
  "write_txt_pair = (\<lambda>(key, val) buf pos.
     let pair_len = (if val = [] then length key else length key + 1 + length val) in
     if pair_len > 255 then Err StringTooLong
     else if length buf < pos + 1 + pair_len then Err BufferTooSmall
     else
       and_then (store buf pos (of_nat pair_len)) (\<lambda>buf.
       and_then (copy_at buf (pos + 1) (pos + 1 + length key) key) (\<lambda>buf.
       let pos = pos + 1 + length key in
       if val \<noteq> [] then
         and_then (store buf pos 61) (\<lambda>buf.
         and_then (copy_at buf (pos + 1) (pos + 1 + length val) val) (\<lambda>buf. Ok (buf, pos + 1 + length val)))
       else Ok (buf, pos))))"

fun write_txt :: "(bytes \<times> bytes) list \<Rightarrow> writer" where
  "write_txt [] buf pos = Ok (buf, pos)"
| "write_txt (p # ps) buf pos = and_then (write_txt_pair p buf pos) (\<lambda>(buf, pos). write_txt ps buf pos)"

definition encode_txt_response ::
  "bytes \<Rightarrow> (bytes \<times> bytes) list \<Rightarrow> bytes \<Rightarrow> (EncodeError, bytes \<times> nat) result" where
  "encode_txt_response inst txt buf =
     and_then (encode_dns_header (dns_response 1) buf 0) (\<lambda>(buf, pos).
     and_then (write_name inst [] buf pos) (\<lambda>(buf, pos).
     let rdlength_pos = pos + 8 in
     and_then (write_rr_header TYPE_TXT CLASS_IN_FLUSH MDNS_TTL 0 buf pos) (\<lambda>(buf, pos).
     let rdata_start = pos in
     and_then (write_txt txt buf pos) (\<lambda>(buf, pos).
     backfill rdlength_pos rdata_start buf pos))))"

section \<open>Questions\<close>

record DnsQuery =
  q_name :: bytes
  qtype :: u16
  qclass :: u16

definition decode_query :: "bytes \<Rightarrow> (DecodeError, DnsQuery) result" where
  "decode_query data =
     and_then (decode_dns_header data) (\<lambda>(hdr, pos).
     if qd_count hdr = 0 then Err InvalidData
     else
       and_then (read_name data pos) (\<lambda>(name, pos).
       if length data < pos + 4 then Err UnexpectedEnd
       else
         and_then (read_u16 data pos) (\<lambda>t.
         and_then (read_u16 data (pos + 2)) (\<lambda>c.
           Ok \<lparr>q_name = name, qtype = t, qclass = c\<rparr>))))"

end
