(* ===== verification/Mdns_Name.thy ===== *)
theory Mdns_Name
  imports Mdns
begin

text \<open>
  DNS names on the wire. \<open>name_at\<close> is what a name means, with its compression pointers;
  \<open>read_name\<close> is proved to decide it, and \<open>write_name\<close> to be inverted by it.
\<close>

section \<open>Writing\<close>

definition wire_labels :: "bytes list \<Rightarrow> bytes" where
  "wire_labels ls = concat (map (\<lambda>l. of_nat (length l) # l) ls)"

definition wire_name :: "bytes list \<Rightarrow> bytes" where
  "wire_name ls = wire_labels ls @ [0]"

definition label_ok :: "bytes \<Rightarrow> bool" where
  "label_ok l \<longleftrightarrow> l \<noteq> [] \<and> length l \<le> 63"

definition labels_ok :: "bytes list \<Rightarrow> bool" where
  "labels_ok ls \<longleftrightarrow> (\<forall>l \<in> set ls. label_ok l) \<and> length (wire_name ls) \<le> 255"

lemma wire_labels_simps [simp]:
  "wire_labels [] = []" "wire_labels (l # ls) = of_nat (length l) # l @ wire_labels ls"
  "wire_labels (ls @ ms) = wire_labels ls @ wire_labels ms"
  by (simp_all add: wire_labels_def)

lemma wire_name_not_Nil [simp]: "wire_name ls \<noteq> []"
  by (simp add: wire_name_def)

lemma name_len_wire:
  "\<forall>l \<in> set ls. label_ok l \<Longrightarrow> name_len ls = length (wire_name ls)"
proof -
  assume ok: "\<forall>l \<in> set ls. label_ok l"
  then have "foldl (\<lambda>n part. if part = [] then n else n + (1 + length part)) k ls = k + length (wire_labels ls)" for k
    by (induction ls arbitrary: k) (auto simp: label_ok_def)
  then show ?thesis by (simp add: name_len_def wire_name_def)
qed

lemma write_label_emit: "label_ok l \<Longrightarrow> write_label l buf pos = emit (of_nat (length l) # l) buf pos"
  by (auto simp: write_label_def label_ok_def emit_def store_def copy_at_eq overwrite_Cons)

lemma write_labels_emit: "\<forall>l \<in> set ls. label_ok l \<Longrightarrow> write_labels ls buf pos = emit (wire_labels ls) buf pos"
proof (induction ls arbitrary: buf pos)
  case (Cons l ls)
  then have "write_labels ls = emit (wire_labels ls)" by (intro ext) simp
  with Cons show ?case by (simp add: write_label_emit emit_emit)
qed simp

definition full_labels :: "bytes \<Rightarrow> bytes \<Rightarrow> bytes list" where
  "full_labels name domain = split_on 46 name @ (if domain = [] then [] else split_on 46 domain)"

lemma write_name_emit:
  assumes "labels_ok (full_labels name domain)"
  shows "write_name name domain buf pos = emit (wire_name (full_labels name domain)) buf pos"
proof -
  let ?ls = "full_labels name domain"
  have ok: "\<forall>l \<in> set ?ls. label_ok l" using assms by (simp add: labels_ok_def)
  have n: "name_len (split_on 46 name @ split_on 46 domain) = name_len ?ls"
    by (simp add: full_labels_def name_len_def)
  have z: "(if pos \<ge> length buf then Err BufferTooSmall
      else and_then (store buf pos 0x00) (\<lambda>buf. Ok (buf, pos + 1))) = emit [0] buf pos" for buf pos
    by (auto simp: emit_def store_def overwrite_def upd_conv_take_nth_drop)
  have "write_name name domain buf pos =
      and_then (emit (wire_labels (split_on 46 name)) buf pos) (\<lambda>(buf, pos).
      and_then (emit (if domain = [] then [] else wire_labels (split_on 46 domain)) buf pos) (\<lambda>(buf, pos). emit [0] buf pos))"
    using ok assms n
    by (auto simp: write_name_def labels_ok_def name_len_wire z write_labels_emit full_labels_def split: if_splits)
  also have "\<dots> = emit (wire_name ?ls) buf pos"
    by (simp add: emit_emit_then emit_emit wire_name_def full_labels_def)
  finally show ?thesis .
qed

section \<open>What a name is\<close>

text \<open>
  \<open>name_at data pos ls e h\<close>: a name of the labels \<open>ls\<close> stands in \<open>data\<close> at \<open>pos\<close>, ends at \<open>e\<close> (before the
  target of its first pointer), and is read through \<open>h\<close> pointers, each of which points backwards.
\<close>

inductive name_at :: "bytes \<Rightarrow> nat \<Rightarrow> bytes list \<Rightarrow> nat \<Rightarrow> nat \<Rightarrow> bool" for data where
  name_end: "at data pos [0] \<Longrightarrow> name_at data pos [] (pos + 1) 0"
| name_label: "at data pos (b # l) \<Longrightarrow> b \<noteq> 0 \<Longrightarrow> b AND 0xC0 \<noteq> 0xC0 \<Longrightarrow> unat b = length l \<Longrightarrow>
    name_at data (pos + 1 + length l) ls e h \<Longrightarrow> name_at data pos (l # ls) e h"
| name_pointer: "at data pos [b, c] \<Longrightarrow> b AND 0xC0 = 0xC0 \<Longrightarrow> unat (of_be16 (b AND 0x3F) c) < pos \<Longrightarrow>
    name_at data (unat (of_be16 (b AND 0x3F) c)) ls e h \<Longrightarrow> name_at data pos ls (pos + 2) (Suc h)"

inductive_simps name_at_iff: "name_at data pos ls e h"

text \<open>The text of a name: its labels, read as Latin-1, joined by dots.\<close>

definition label_text :: "bytes \<Rightarrow> bytes" where
  "label_text l = concat (map latin1 l)"

definition dotted :: "bytes list \<Rightarrow> bytes" where
  "dotted ls = join 46 (map label_text ls)"

lemma label_text_Nil [simp]: "label_text l = [] \<longleftrightarrow> l = []"
  by (cases l) (auto simp: label_text_def latin1_def)

lemma label_text_ascii: "\<forall>b \<in> set l. b < 0x80 \<Longrightarrow> label_text l = l"
  by (induction l) (simp_all add: label_text_def latin1_def)

lemma push_latin1_eq:
  "push_latin1 cap s l = (if l = [] \<or> length s + length (label_text l) \<le> cap then Some (s @ label_text l) else None)"
proof (induction l arbitrary: s)
  case (Cons b l)
  then show ?case
    by (cases "l = []") (auto simp: label_text_def push_str_def)
qed (simp add: label_text_def)

text \<open>The text grows by one label at a time.\<close>

definition add_label :: "bytes \<Rightarrow> bytes \<Rightarrow> bytes" where
  "add_label name l = (if name = [] then label_text l else name @ 46 # label_text l)"

lemma foldl_add_label:
  "name \<noteq> [] \<Longrightarrow> foldl add_label name ls = (if ls = [] then name else name @ 46 # dotted ls)"
proof (induction ls arbitrary: name)
  case (Cons l ls)
  then show ?case by (simp add: add_label_def dotted_def join_Cons)
qed simp

lemma dotted_foldl: "[] \<notin> set ls \<Longrightarrow> dotted ls = foldl add_label [] ls"
proof (cases ls)
  case (Cons l ks)
  assume "[] \<notin> set ls"
  then show ?thesis
    using Cons foldl_add_label [of "label_text l" ks] by (auto simp: add_label_def dotted_def join_Cons)
qed (simp add: dotted_def)

lemma foldl_add_label_length: "length name \<le> length (foldl add_label name ls)"
proof (induction ls arbitrary: name)
  case (Cons l ls)
  have "length name \<le> length (add_label name l)" by (simp add: add_label_def)
  with Cons [of "add_label name l"] show ?case by simp
qed simp

lemma name_at_labels: "name_at data pos ls e h \<Longrightarrow> [] \<notin> set ls"
proof (induction rule: name_at.induct)
  case (name_label pos b l ls e h)
  then have "l \<noteq> []" by (auto simp: unat_eq_zero)
  with name_label show ?case by auto
qed simp_all

lemma name_at_end_bound: "name_at data pos ls e h \<Longrightarrow> pos < e \<and> e \<le> length data"
  by (induction rule: name_at.induct) (auto dest: at_length)

section \<open>Reading\<close>

lemma name_at_out: "length data \<le> pos \<Longrightarrow> \<not> name_at data pos ls e h"
  using name_at_end_bound by fastforce

lemma name_at_zero:
  "pos < length data \<Longrightarrow> data ! pos = 0 \<Longrightarrow> name_at data pos ls e h \<longleftrightarrow> ls = [] \<and> e = pos + 1 \<and> h = 0"
  by (subst name_at_iff) (auto simp: at_Cons)

lemma name_at_ptr:
  assumes "pos < length data" and "data ! pos AND 0xC0 = 0xC0"
  defines "t \<equiv> unat (of_be16 (data ! pos AND 0x3F) (data ! (pos + 1)))"
  shows "name_at data pos ls e h \<longleftrightarrow>
    pos + 1 < length data \<and> t < pos \<and> e = pos + 2 \<and> (\<exists>k e'. h = Suc k \<and> name_at data t ls e' k)"
  using assms by (subst name_at_iff) (auto simp: at_Cons)

lemma at_exists: "pos + n \<le> length data \<Longrightarrow> at data pos (take n (drop pos data))"
  by (simp add: at_def)

lemma at_unique: "at data pos l \<Longrightarrow> at data pos m \<Longrightarrow> length l = length m \<Longrightarrow> l = m"
  by (simp add: at_def)

lemma name_at_lab:
  assumes "pos < length data" and "data ! pos \<noteq> 0" and "data ! pos AND 0xC0 \<noteq> 0xC0"
  defines "n \<equiv> unat (data ! pos)"
  shows "name_at data pos ls e h \<longleftrightarrow> pos + 1 + n \<le> length data
    \<and> (\<exists>ks. ls = take n (drop (pos + 1) data) # ks \<and> name_at data (pos + 1 + n) ks e h)"
proof
  assume "name_at data pos ls e h"
  then show "pos + 1 + n \<le> length data \<and> (\<exists>ks. ls = take n (drop (pos + 1) data) # ks \<and> name_at data (pos + 1 + n) ks e h)"
  proof cases
    case (name_label b l ks)
    then have "data ! pos = b" "at data (Suc pos) l" by (simp_all add: at_Cons)
    with name_label show ?thesis using at_length [of data "Suc pos" l] by (simp add: n_def at_def)
  qed (use assms in \<open>simp_all add: at_Cons\<close>)
next
  assume r: "pos + 1 + n \<le> length data \<and> (\<exists>ks. ls = take n (drop (pos + 1) data) # ks \<and> name_at data (pos + 1 + n) ks e h)"
  let ?l = "take n (drop (pos + 1) data)"
  have l: "length ?l = n" using r by (auto simp: min_def)
  have "at data pos (data ! pos # ?l)"
    using assms(1) r at_exists [of "Suc pos" n data] by (simp add: at_Cons)
  from name_label [OF this assms(2,3)] r l show "name_at data pos ls e h"
    by (auto simp: n_def simp del: length_take)
qed

lemma ex_Cons: "(\<exists>ls e h. (B \<and> (\<exists>ks. ls = l # ks \<and> P ks e h)) \<and> Q ls e h) \<longleftrightarrow> B \<and> (\<exists>ks e h. P ks e h \<and> Q (l # ks) e h)"
  by blast

lemma read_name_loop_iff:
  assumes "hops \<le> 8"
  shows "read_name_loop data pos name end_pos hops = Ok (n, e') \<longleftrightarrow>
    (\<exists>ls e h. name_at data pos ls e h \<and> hops + h \<le> 8 \<and> n = foldl add_label name ls
      \<and> (ls = [] \<or> length n \<le> 128) \<and> e' = (case end_pos of None \<Rightarrow> e | Some x \<Rightarrow> x))"
  using assms
proof (induction data pos name end_pos hops rule: read_name_loop.induct)
  case (1 data pos name end_pos hops)
  let ?len = "data ! pos"
  consider "length data \<le> pos" | "pos < length data" "?len = 0" | "pos < length data" "?len \<noteq> 0" "?len AND 0xC0 = 0xC0"
    | "pos < length data" "?len \<noteq> 0" "?len AND 0xC0 \<noteq> 0xC0"
    by linarith
  then show ?case (is "_ \<longleftrightarrow> (\<exists>ls e h. ?A ls e h)")
  proof cases
    case 1
    then show ?thesis by (subst read_name_loop.simps) (simp add: name_at_out)
  next
    case 2
    then show ?thesis
      using 1 by (subst read_name_loop.simps) (auto simp: name_at_zero split: option.splits)
  next
    case 3
    define t where "t = unat (of_be16 (?len AND 0x3F) (data ! (pos + 1)))"
    define ep where "ep = (case end_pos of None \<Rightarrow> Some (pos + 2) | Some e \<Rightarrow> Some e)"
    obtain x where x: "ep = Some x" "(case end_pos of None \<Rightarrow> Suc (Suc pos) | Some x \<Rightarrow> x) = x"
      by (cases end_pos) (auto simp: ep_def)
    show ?thesis
    proof (cases "pos + 1 < length data \<and> t < pos \<and> hops + 1 \<le> 8")
      case True
      then have *: "read_name_loop data pos name end_pos hops = read_name_loop data t name ep (hops + 1)"
        using 3 by (subst read_name_loop.simps) (simp add: t_def ep_def Let_def)
      have IH: "read_name_loop data t name ep (hops + 1) = Ok (n, e') \<longleftrightarrow>
        (\<exists>ls e h. name_at data t ls e h \<and> hops + 1 + h \<le> 8 \<and> n = foldl add_label name ls
          \<and> (ls = [] \<or> length n \<le> 128) \<and> e' = (case ep of None \<Rightarrow> e | Some x \<Rightarrow> x))"
        unfolding t_def ep_def
        by (rule 1(1)) (use 3 True in \<open>simp_all add: t_def\<close>)
      note IH = IH [unfolded x(1) option.case] and * = * [unfolded x(1)]
      show ?thesis
      proof
        assume "read_name_loop data pos name end_pos hops = Ok (n, e')"
        then obtain ls e h where "name_at data t ls e h" "hops + Suc h \<le> 8" "n = foldl add_label name ls"
          "ls = [] \<or> length n \<le> 128" "e' = x"
          unfolding * IH by auto
        then show "\<exists>ls e h. ?A ls e h"
          using True x(2) unfolding name_at_ptr [OF 3(1,3)] t_def [symmetric]
          by - (rule exI [of _ ls], rule exI [of _ "Suc (Suc pos)"], rule exI [of _ "Suc h"], auto)
      next
        assume "\<exists>ls e h. ?A ls e h"
        then obtain ls e k where "name_at data t ls e k" "hops + Suc k \<le> 8" "n = foldl add_label name ls"
          "ls = [] \<or> length n \<le> 128" "e' = x"
          using x(2) unfolding name_at_ptr [OF 3(1,3)] t_def [symmetric] by auto
        then show "read_name_loop data pos name end_pos hops = Ok (n, e')"
          unfolding * IH by - (rule exI [of _ ls], rule exI [of _ e], rule exI [of _ k], simp)
      qed
    next
      case False
      then show ?thesis
        using 3 by (subst read_name_loop.simps) (auto simp: name_at_ptr t_def Let_def)
    qed
  next
    case 4
    let ?m = "unat ?len"
    let ?l = "take ?m (drop (pos + 1) data)"
    show ?thesis
    proof (cases "pos + 1 + ?m \<le> length data")
      case True
      have "0 < ?m" using 4 by (simp add: unat_gt_0)
      then have l: "?l \<noteq> []" "length ?l = ?m"
        using True by auto
      have *: "read_name_loop data pos name end_pos hops =
          (if length (add_label name ?l) \<le> 128 then read_name_loop data (pos + 1 + ?m) (add_label name ?l) end_pos hops
           else Err InvalidData)"
        using 4 True l
        by (subst read_name_loop.simps) (auto simp: Let_def push_str_def push_latin1_eq add_label_def subslice_def)
      show ?thesis
      proof (cases "length (add_label name ?l) \<le> 128")
        case fits: True
        have "(if name \<noteq> [] then ok_or InvalidData (push_str 128 name [46]) else Ok name) =
            Ok (if name = [] then [] else name @ [46])"
          using fits by (auto simp: push_str_def add_label_def split: if_splits)
        moreover have "subslice data (pos + 1) (pos + 1 + ?m) = (Ok ?l :: (DecodeError, bytes) result)"
          using True by (simp add: subslice_def)
        moreover have "ok_or InvalidData (push_latin1 128 (if name = [] then [] else name @ [46]) ?l) = Ok (add_label name ?l)"
          using fits l by (cases "name = []") (simp_all add: push_latin1_eq add_label_def)
        ultimately have IH: "read_name_loop data (pos + 1 + ?m) (add_label name ?l) end_pos hops = Ok (n, e') \<longleftrightarrow>
          (\<exists>ls e h. name_at data (pos + 1 + ?m) ls e h \<and> hops + h \<le> 8 \<and> n = foldl add_label (add_label name ?l) ls
            \<and> (ls = [] \<or> length n \<le> 128) \<and> e' = (case end_pos of None \<Rightarrow> e | Some x \<Rightarrow> x))"
          using 1(2) 4 True 1(3) by (simp add: not_le)
        show ?thesis
          unfolding * if_P [OF fits] IH name_at_lab [OF 4(1-3)] ex_Cons
          using True fits by (auto intro!: ex_cong1 simp del: length_take)
      next
        case False
        then have "\<not> length (foldl add_label (add_label name ?l) ks) \<le> 128" for ks
          using foldl_add_label_length [of "add_label name ?l" ks] by linarith
        then show ?thesis
          unfolding * name_at_lab [OF 4(1-3)] using False by auto
      qed
    next
      case False
      then show ?thesis
        using 4 by (subst read_name_loop.simps) (simp add: name_at_lab)
    qed
  qed
qed

lemma read_name_iff:
  "read_name data pos = Ok (n, e) \<longleftrightarrow>
   (\<exists>ls h. name_at data pos ls e h \<and> h \<le> 8 \<and> n = dotted ls \<and> length n \<le> 128)"
proof -
  have d: "foldl add_label [] ls = dotted ls" if "name_at data pos ls e h" for ls e h
    using dotted_foldl [OF name_at_labels [OF that]] by simp
  have "read_name data pos = Ok (n, e) \<longleftrightarrow>
    (\<exists>ls h. name_at data pos ls e h \<and> h \<le> 8 \<and> n = foldl add_label [] ls \<and> (ls = [] \<or> length n \<le> 128))"
    unfolding read_name_def by (simp add: read_name_loop_iff)
  also have "\<dots> \<longleftrightarrow> (\<exists>ls h. name_at data pos ls e h \<and> h \<le> 8 \<and> n = dotted ls \<and> length n \<le> 128)"
    by (intro ex_cong1) (auto simp: d dotted_def)
  finally show ?thesis .
qed

lemma read_name_loop_safe: "read_name_loop data pos name end_pos hops \<noteq> Panic"
proof (induction data pos name end_pos hops rule: read_name_loop.induct)
  case (1 data pos name end_pos hops)
  show ?case
    by (subst read_name_loop.simps)
       (use 1 in \<open>auto simp: Let_def and_then_eq_Panic subslice_def ok_or_eq_Ok push_str_def\<close>)
qed

text \<open>
  C33: \<open>read_name\<close> never panics, and returns exactly the names that stand in the packet with at most
  eight backward pointers and a text of at most 128 bytes: their text, and the position after them.
\<close>

theorem mdns_read_name:
  "read_name data pos \<noteq> Panic
   \<and> (read_name data pos = Ok (n, e) \<longleftrightarrow>
      (\<exists>ls h. name_at data pos ls e h \<and> h \<le> 8 \<and> n = dotted ls \<and> length n \<le> 128))"
  using read_name_iff read_name_loop_safe by (simp add: read_name_def)

text \<open>The name \<open>b.a\<close>, its second label behind a pointer.\<close>

lemma mdns_read_name_witness: "read_name [1, 97, 0, 1, 98, 0xC0, 0] 3 = Ok ([98, 46, 97], 7)"
proof -
  let ?d = "[1, 97, 0, 1, 98, 0xC0, 0] :: bytes"
  have "name_at ?d (Suc (Suc 0)) [] 3 0" using name_end [of ?d 2] by (simp add: at_def numeral_2_eq_2 numeral_3_eq_3)
  then have "name_at ?d 0 [[97]] 3 0"
    using name_label [of ?d 0 1 "[97]" "[]" 3 0] by (simp add: at_def)
  then have "name_at ?d 5 [[97]] 7 1"
    using name_pointer [of ?d 5 "0xC0" 0 "[[97]]" 3 0] by (simp add: at_def of_be16_def)
  then have "name_at ?d 3 [[98], [97]] 7 1"
    using name_label [of ?d 3 1 "[98]" "[[97]]" 7 1] by (simp add: at_def)
  moreover have "dotted [[98], [97]] = [98, 46, 97]" by (simp add: dotted_def label_text_def latin1_def)
  ultimately have "\<exists>ls h. name_at ?d 3 ls 7 h \<and> h \<le> 8 \<and> [98, 46, 97] = dotted ls \<and> length [98, 46, 97 :: u8] \<le> 128"
    by (intro exI [of _ "[[98], [97]]"] exI [of _ 1]) simp
  then show ?thesis using mdns_read_name [of ?d 3 "[98, 46, 97]" 7] by simp
qed

section \<open>Round trip\<close>

text \<open>A plain name: labels of 1 to 63 ASCII characters that are not dots.\<close>

definition name_ok :: "bytes \<Rightarrow> bool" where
  "name_ok n \<longleftrightarrow> labels_ok (split_on 46 n) \<and> (\<forall>b \<in> set n. b < 0x80) \<and> length n \<le> 128"

lemma label_byte:
  assumes "label_ok l"
  shows "(of_nat (length l) :: u8) \<noteq> 0" "(of_nat (length l) :: u8) AND 0xC0 \<noteq> 0xC0"
    "unat (of_nat (length l) :: u8) = length l"
proof -
  show u: "unat (of_nat (length l) :: u8) = length l" using assms by (simp add: label_ok_def unat_of_nat)
  then show "(of_nat (length l) :: u8) \<noteq> 0" using assms by (auto simp: label_ok_def)
  have "(of_nat (length l) :: u8) AND 0xC0 \<le> of_nat (length l)" by (rule word_and_le2)
  also have "of_nat (length l) < (0xC0 :: u8)" using assms u by (simp add: label_ok_def word_less_nat_alt)
  finally show "(of_nat (length l) :: u8) AND 0xC0 \<noteq> 0xC0" by (rule less_imp_neq)
qed

lemma wire_name_at:
  assumes "at data pos (wire_name ls)" and "\<forall>l \<in> set ls. label_ok l"
  shows "name_at data pos ls (pos + length (wire_name ls)) 0"
  using assms
proof (induction ls arbitrary: pos)
  case Nil
  then show ?case using name_end [of data pos] by (simp add: wire_name_def)
next
  case (Cons l ls)
  from Cons.prems have a: "at data pos (of_nat (length l) # l)" "at data (pos + 1 + length l) (wire_name ls)"
    by (simp_all add: wire_name_def at_append at_Cons)
  have "label_ok l" using Cons.prems(2) by simp
  from name_label [OF a(1) label_byte [OF this] Cons.IH [OF a(2)]] Cons.prems(2)
  show ?case by (simp add: wire_name_def add.assoc)
qed

lemma dotted_split:
  assumes "\<forall>b \<in> set n. b < 0x80"
  shows "dotted (split_on 46 n) = n"
proof -
  have "\<forall>l \<in> set (split_on c n). set l \<subseteq> set n" for c
    by (induction n) (auto split: list.split)
  then have "map label_text (split_on 46 n) = split_on 46 n"
    using assms by (intro map_idI label_text_ascii) blast
  then show ?thesis by (simp add: dotted_def)
qed

interpretation mdns_name: codec "\<lambda>n. write_name n []" "\<lambda>n. wire_name (split_on 46 n)" name_ok read_name 32
proof
  fix v buf pos assume "name_ok v"
  then show "write_name v [] buf pos = emit (wire_name (split_on 46 v)) buf pos"
    using write_name_emit [of v "[]"] by (simp add: name_ok_def full_labels_def)
next
  fix v data pos assume v: "name_ok v" and a: "at data pos (wire_name (split_on 46 v))"
  then have "name_at data pos (split_on 46 v) (pos + length (wire_name (split_on 46 v))) 0"
    by (intro wire_name_at) (simp_all add: name_ok_def labels_ok_def)
  with v dotted_split [of v] show "read_name data pos = Ok (v, pos + length (wire_name (split_on 46 v)))"
    unfolding read_name_iff by (intro exI [of _ "split_on 46 v"] exI [of _ 0]) (simp add: name_ok_def)
qed

end
