(* ===== verification/Mdns_Props.thy ===== *)
theory Mdns_Props
  imports Mdns_Name
begin

text \<open>
  The responses of \<open>mdns.rs\<close> as byte strings, with the length field written last, and the question
  decoder on arbitrary and on well-formed packets.
\<close>

section \<open>Headers\<close>

definition wire_dns_header :: "DnsHeader \<Rightarrow> bytes" where
  "wire_dns_header h = be16 (dns_id h) @ be16 (dns_flags h) @ be16 (qd_count h) @ be16 (an_count h)
     @ be16 (ns_count h) @ be16 (ar_count h)"

lemma length_wire_dns_header [simp]: "length (wire_dns_header h) = 12"
  by (simp add: wire_dns_header_def)

lemma write_emit:
  "pos + 2 \<le> length buf \<Longrightarrow> write_u16 v buf pos = emit (be16 v) buf pos"
  "pos + 4 \<le> length buf \<Longrightarrow> write_u32 u buf pos = emit (be32 u) buf pos"
  by (simp_all add: write_u16_def write_u32_def emit_def copy_at_eq)

lemma write_step:
  "pos + length as + 2 \<le> length buf \<Longrightarrow>
   and_then (emit as buf pos) (\<lambda>(b, p). and_then (write_u16 v b p) k) = and_then (emit (as @ be16 v) buf pos) k"
  "pos + length as + 4 \<le> length buf \<Longrightarrow>
   and_then (emit as buf pos) (\<lambda>(b, p). and_then (write_u32 u b p) k) = and_then (emit (as @ be32 u) buf pos) k"
  by (rule emit_step; simp add: write_emit)+

lemma write_last:
  "pos + length as + 2 \<le> length buf \<Longrightarrow>
   and_then (emit as buf pos) (\<lambda>(b, p). write_u16 v b p) = emit (as @ be16 v) buf pos"
  using write_step(1) [of pos as buf v Ok] by simp

lemma encode_dns_header_emit: "encode_dns_header h = emit (wire_dns_header h)"
proof (intro ext)
  fix buf pos
  show "encode_dns_header h buf pos = emit (wire_dns_header h) buf pos"
  proof (cases "pos + 12 \<le> length buf")
    case True
    then show ?thesis by (simp add: encode_dns_header_def write_emit write_step write_last wire_dns_header_def)
  qed (simp add: encode_dns_header_def emit_def, simp add: wire_dns_header_def)
qed

definition wire_rr :: "u16 \<Rightarrow> u16 \<Rightarrow> u32 \<Rightarrow> u16 \<Rightarrow> bytes" where
  "wire_rr t c ttl n = be16 t @ be16 c @ be32 ttl @ be16 n"

lemma length_wire_rr [simp]: "length (wire_rr t c ttl n) = 10"
  by (simp add: wire_rr_def)

lemma write_rr_header_emit: "write_rr_header t c ttl n = emit (wire_rr t c ttl n)"
proof (intro ext)
  fix buf pos
  show "write_rr_header t c ttl n buf pos = emit (wire_rr t c ttl n) buf pos"
  proof (cases "pos + 10 \<le> length buf")
    case True
    then show ?thesis by (simp add: write_rr_header_def write_emit write_step write_last wire_rr_def)
  qed (simp add: write_rr_header_def emit_def, simp add: wire_rr_def)
qed

section \<open>Answers\<close>

definition wire_answer :: "bytes list \<Rightarrow> u16 \<Rightarrow> u16 \<Rightarrow> bytes \<Rightarrow> bytes" where
  "wire_answer ls t c rdata =
     wire_dns_header (dns_response 1) @ wire_name ls @ wire_rr t c MDNS_TTL (of_nat (length rdata)) @ rdata"

lemma emit_pos:
  "and_then (emit as buf pos) (\<lambda>(b, p). F p b p) = and_then (emit as buf pos) (\<lambda>(b, p). F (pos + length as) b p)"
  by (simp add: emit_def)

lemma backfill_emit:
  assumes "length r \<le> 0xFFFF"
  shows "and_then (emit (pre @ be16 z @ r) buf 0) (\<lambda>(b, p). backfill (length pre) (length pre + 2) b p) =
    emit (pre @ be16 (of_nat (length r)) @ r) buf 0"
  using assms
  by (auto simp: emit_def backfill_def Let_def store_def overwrite_def be16_def list_update_append nth_append
      upd_conv_take_nth_drop)

lemma answer_emit:
  assumes "labels_ok (full_labels name [])" and "\<And>buf pos. rdata buf pos = emit r buf pos" and "length r \<le> 0xFFFF"
  shows "and_then (encode_dns_header (dns_response 1) buf 0) (\<lambda>(buf, pos).
     and_then (write_name name [] buf pos) (\<lambda>(buf, pos).
     let rdlength_pos = pos + 8 in
     and_then (write_rr_header t c MDNS_TTL 0 buf pos) (\<lambda>(buf, pos).
     let rdata_start = pos in
     and_then (rdata buf pos) (\<lambda>(buf, pos). backfill rdlength_pos rdata_start buf pos)))) =
   emit (wire_answer (full_labels name []) t c r) buf 0" (is "?lhs = _")
proof -
  let ?hn = "wire_dns_header (dns_response 1) @ wire_name (full_labels name [])"
  have n: "write_name name [] = emit (wire_name (full_labels name []))"
    by (intro ext write_name_emit assms(1))
  have d: "rdata = emit r" by (intro ext assms(2))
  have "?lhs = and_then (emit ?hn buf 0) (\<lambda>(b, p).
      and_then (emit (wire_rr t c MDNS_TTL 0) b p) (\<lambda>(b, q). and_then (emit r b q) (\<lambda>(b, s). backfill (p + 8) q b s)))"
    unfolding encode_dns_header_emit n d write_rr_header_emit Let_def emit_emit_then ..
  also have "\<dots> =
      and_then (emit ?hn buf 0) (\<lambda>(b, p). and_then (emit (wire_rr t c MDNS_TTL 0) b p) (\<lambda>(b, q).
        and_then (emit r b q) (\<lambda>(b, s). backfill (length ?hn + 8) q b s)))"
    by (simp add: emit_def)
  also have "\<dots> = and_then (emit (?hn @ wire_rr t c MDNS_TTL 0) buf 0) (\<lambda>(b, q).
        and_then (emit r b q) (\<lambda>(b, s). backfill (length ?hn + 8) q b s))"
    by (rule emit_emit_then)
  also have "\<dots> = and_then (emit (?hn @ wire_rr t c MDNS_TTL 0) buf 0) (\<lambda>(b, q).
        and_then (emit r b q) (\<lambda>(b, s). backfill (length ?hn + 8) (length ?hn + 10) b s))"
    by (simp add: emit_def)
  also have "\<dots> = and_then (emit ((?hn @ wire_rr t c MDNS_TTL 0) @ r) buf 0)
        (\<lambda>(b, s). backfill (length ?hn + 8) (length ?hn + 10) b s)"
    by (rule emit_emit_then)
  also have "\<dots> = emit (wire_answer (full_labels name []) t c r) buf 0"
    using backfill_emit [OF assms(3), of "?hn @ be16 t @ be16 c @ be32 MDNS_TTL" 0 buf]
    by (simp add: wire_rr_def wire_answer_def)
  finally show ?thesis .
qed

definition local_labels :: "bytes \<Rightarrow> bytes list" where
  "local_labels host = full_labels host (str ''local'')"

lemma write_local_emit:
  "labels_ok (local_labels host) \<Longrightarrow> write_name host (str ''local'') = emit (wire_name (local_labels host))"
  unfolding local_labels_def by (intro ext write_name_emit)

lemma encode_a_response_emit:
  assumes "labels_ok (local_labels host)" and "length ip = 4"
  shows "encode_a_response host ip buf = emit (wire_answer (local_labels host) TYPE_A CLASS_IN_FLUSH ip) buf 0"
proof -
  have i: "(if length buf < pos + 4 then Err BufferTooSmall
      else and_then (copy_at buf pos (pos + 4) ip) (\<lambda>buf. Ok (buf, pos + 4))) = emit ip buf pos" for buf pos
    using assms(2) by (auto simp: emit_def copy_at_eq)
  show ?thesis
    unfolding encode_a_response_def encode_dns_header_emit write_local_emit [OF assms(1)] write_rr_header_emit i
      emit_emit_then emit_emit
    by (simp add: wire_answer_def assms(2))
qed

lemma encode_ptr_response_emit:
  assumes "labels_ok (full_labels service [])" and "labels_ok (full_labels inst [])"
  shows "encode_ptr_response service inst buf =
    emit (wire_answer (full_labels service []) TYPE_PTR CLASS_IN (wire_name (full_labels inst []))) buf 0"
  unfolding encode_ptr_response_def
  using assms(2) by (intro answer_emit assms(1) write_name_emit) (simp_all add: labels_ok_def)

definition wire_srv :: "u16 \<Rightarrow> bytes \<Rightarrow> bytes" where
  "wire_srv port host = be16 0 @ be16 0 @ be16 port @ wire_name (local_labels host)"

lemma encode_srv_response_emit:
  assumes "labels_ok (full_labels inst [])" and "labels_ok (local_labels host)"
  shows "encode_srv_response inst host port buf =
    emit (wire_answer (full_labels inst []) TYPE_SRV CLASS_IN_FLUSH (wire_srv port host)) buf 0"
proof -
  define rdata where "rdata = (\<lambda>buf pos.
     if length buf < pos + 6 then Err BufferTooSmall
     else
       and_then (write_u16 0 buf pos) (\<lambda>(buf, pos).
       and_then (write_u16 0 buf pos) (\<lambda>(buf, pos).
       and_then (write_u16 port buf pos) (\<lambda>(buf, pos). write_name host (str ''local'') buf pos))))"
  have "rdata buf pos = emit (wire_srv port host) buf pos" for buf pos
  proof (cases "pos + 6 \<le> length buf")
    case True
    then show ?thesis
      by (simp add: rdata_def write_emit write_step emit_emit wire_srv_def write_local_emit [OF assms(2)])
  qed (simp add: rdata_def emit_def, simp add: wire_srv_def)
  then have "rdata buf pos = emit (wire_srv port host) buf pos" for buf pos .
  moreover have "length (wire_srv port host) \<le> 0xFFFF"
    using assms(2) by (simp add: wire_srv_def labels_ok_def)
  ultimately have a: "\<And>buf. and_then (encode_dns_header (dns_response 1) buf 0) (\<lambda>(buf, pos).
     and_then (write_name inst [] buf pos) (\<lambda>(buf, pos).
     let rdlength_pos = pos + 8 in
     and_then (write_rr_header TYPE_SRV CLASS_IN_FLUSH MDNS_TTL 0 buf pos) (\<lambda>(buf, pos).
     let rdata_start = pos in
     and_then (rdata buf pos) (\<lambda>(buf, pos). backfill rdlength_pos rdata_start buf pos)))) =
   emit (wire_answer (full_labels inst []) TYPE_SRV CLASS_IN_FLUSH (wire_srv port host)) buf 0"
    by (intro answer_emit assms(1))
  show ?thesis
    unfolding a [symmetric] encode_srv_response_def rdata_def
    by (simp only: Let_def and_then_if_distrib and_then_assoc case_prod_unfold and_then.simps)
qed

definition wire_pair :: "bytes \<times> bytes \<Rightarrow> bytes" where
  "wire_pair = (\<lambda>(key, val). let text = (if val = [] then key else key @ 61 # val) in of_nat (length text) # text)"

definition wire_txt :: "(bytes \<times> bytes) list \<Rightarrow> bytes" where
  "wire_txt ps = concat (map wire_pair ps)"

definition pair_ok :: "bytes \<times> bytes \<Rightarrow> bool" where
  "pair_ok p \<longleftrightarrow> length (wire_pair p) \<le> 256"

lemma overwrite_after:
  "Suc (pos + length as + length bs) \<le> length buf \<Longrightarrow>
   overwrite (overwrite buf pos (x # as)) (Suc (pos + length as)) bs = overwrite buf pos (x # as @ bs)"
  using overwrite_overwrite [of pos "x # as" bs buf] by simp

lemma write_txt_pair_emit: "pair_ok p \<Longrightarrow> write_txt_pair p buf pos = emit (wire_pair p) buf pos"
  by (cases p)
    (auto simp: write_txt_pair_def wire_pair_def pair_ok_def Let_def emit_def store_def copy_at_eq overwrite_Cons overwrite_after
      split: if_splits)

lemma write_txt_emit: "\<forall>p \<in> set ps. pair_ok p \<Longrightarrow> write_txt ps = emit (wire_txt ps)"
proof (induction ps)
  case (Cons p ps)
  then have "write_txt_pair p = emit (wire_pair p)" by (intro ext write_txt_pair_emit) simp
  with Cons show ?case by (intro ext) (simp add: wire_txt_def emit_emit)
qed (simp add: wire_txt_def fun_eq_iff)

lemma encode_txt_response_emit:
  assumes "labels_ok (full_labels inst [])" and "\<forall>p \<in> set txt. pair_ok p" and "length (wire_txt txt) \<le> 0xFFFF"
  shows "encode_txt_response inst txt buf =
    emit (wire_answer (full_labels inst []) TYPE_TXT CLASS_IN_FLUSH (wire_txt txt)) buf 0"
  unfolding encode_txt_response_def write_txt_emit [OF assms(2)]
  by (intro answer_emit assms(1,3)) simp

section \<open>Questions\<close>

lemma read_u16_at: "at data pos (be16 v) \<Longrightarrow> read_u16 data pos = Ok v"
  by (auto simp: read_u16_def at_Cons idx_def be16_def)

lemma decode_dns_header_at:
  "at data 0 (wire_dns_header h) \<Longrightarrow> decode_dns_header data = Ok (h, 12)"
proof -
  assume a: "at data 0 (wire_dns_header h)"
  then have "12 \<le> length data" using at_length by fastforce
  with a show ?thesis
    by (auto simp: decode_dns_header_def wire_dns_header_def at_append simp del: add_2_eq_Suc add_2_eq_Suc'
        dest!: read_u16_at)
qed

definition wire_query :: "DnsHeader \<Rightarrow> bytes \<Rightarrow> u16 \<Rightarrow> u16 \<Rightarrow> bytes" where
  "wire_query h name t c = wire_dns_header h @ wire_name (split_on 46 name) @ be16 t @ be16 c"

lemma decode_query_wire:
  assumes "name_ok name" and "qd_count h \<noteq> 0" and "length rest < 65536"
  shows "decode_query (wire_query h name t c @ rest) = Ok \<lparr>q_name = name, qtype = t, qclass = c\<rparr>"
proof -
  let ?d = "wire_query h name t c @ rest"
  let ?n = "wire_name (split_on 46 name)"
  have "at ?d 0 (wire_query h name t c)" by (rule at_prefix)
  then have a: "at ?d 0 (wire_dns_header h)" "at ?d 12 ?n" "at ?d (12 + length ?n) (be16 t)"
    "at ?d (12 + length ?n + 2) (be16 c)"
    unfolding wire_query_def at_append by simp_all
  have l: "length ?d < 2 ^ 32"
    using assms(1,3) by (simp add: wire_query_def name_ok_def labels_ok_def)
  have "12 + length ?n + 4 \<le> length ?d" by (simp add: wire_query_def)
  with mdns_name.dec_at [OF assms(1) l a(2)] read_u16_at [OF a(3)] read_u16_at [OF a(4)] assms(2) show ?thesis
    by (simp add: decode_query_def decode_dns_header_at [OF a(1)])
qed

lemma decode_query_post: "post (\<lambda>q. length (q_name q) \<le> 128) (decode_query data)"
proof -
  have u: "post (\<lambda>_. True) (read_u16 data pos)" if "pos + 2 \<le> length data" for pos
    using that by (simp add: read_u16_def idx_def)
  have h: "post (\<lambda>(_, pos). pos = 12) (decode_dns_header data)"
    unfolding decode_dns_header_def by (auto intro!: post_then [OF u])
  have n: "post (\<lambda>(n, e). length n \<le> 128) (read_name data pos)" for pos
    using read_name_loop_safe [of data pos] read_name_iff [of data pos] by (auto simp: post_def read_name_def)
  show ?thesis
    unfolding decode_query_def
    by (rule post_then [OF h] | rule post_then [OF n] | rule post_then [OF u] | rule post_if
        | simp only: split_paired_all prod.case | erule conjE | (simp; fail))+
qed

end
