(* ===== verification/Mdns_Task.thy ===== *)
theory Mdns_Task
  imports Mdns_Props Config
begin

text \<open>
  The mDNS responder, \<open>firmware/src/mdns.rs\<close>: the datagrams sent to the multicast group for one
  received datagram. What the task reads from elsewhere (configuration, MAC address, IPv4 address,
  version string) is the record \<open>MdnsEnv\<close>; the socket is outside the model.

  A failed encoder may leave part of its output in the buffer; every send reads only what a later
  successful encoder has written from the start on, so the model keeps the old buffer there.
\<close>

section \<open>Environment\<close>

definition HTTP_PORT :: u16 where "HTTP_PORT = 80"
definition BACNET_PORT :: u16 where "BACNET_PORT = 47808"

record MdnsEnv =
  m_config :: "BridgeConfig option"
  mac_addr_hi :: u32
  mac_addr_lo :: u32
  m_version :: bytes
  config_v4 :: "bytes option"

definition get_our_ip :: "MdnsEnv \<Rightarrow> bytes" where
  "get_our_ip env = (case config_v4 env of Some a \<Rightarrow> a | None \<Rightarrow> [0, 0, 0, 0])"

record MdnsInfo =
  i_hostname :: bytes
  i_device_id :: u32
  i_provisioned :: bool
  i_tls_on :: bool

definition mdns_info :: "MdnsEnv \<Rightarrow> MdnsInfo" where
  "mdns_info env =
     (let (h_str, did, prov, tls) =
        (case m_config env of
           Some cfg \<Rightarrow> (hostname cfg, device_id (bacnet cfg), provisioned cfg, server_enabled (tls cfg))
         | None \<Rightarrow> (str ''bacnet-bridge'', 389999, False, False)) in
      \<lparr>i_hostname = push_ignore 32 [] h_str, i_device_id = did, i_provisioned = prov, i_tls_on = tls\<rparr>)"

text \<open>\<open>{:02x}\<close>\<close>

definition hex_digit :: "u8 \<Rightarrow> u8" where
  "hex_digit d = (if d < 10 then 48 + d else 87 + d)"

definition hex_byte :: "u8 \<Rightarrow> bytes" where
  "hex_byte b = [hex_digit (drop_bit 4 b), hex_digit (b AND 0x0F)]"

definition mac_text :: "u32 \<Rightarrow> u32 \<Rightarrow> bytes" where
  "mac_text hi lo = push_ignore 18 []
     (hex_byte (ucast (drop_bit 8 hi AND 0xFF)) @ 58 # hex_byte (ucast (hi AND 0xFF)) @ 58 #
      hex_byte (ucast (drop_bit 24 lo AND 0xFF)) @ 58 # hex_byte (ucast (drop_bit 16 lo AND 0xFF)) @ 58 #
      hex_byte (ucast (drop_bit 8 lo AND 0xFF)) @ 58 # hex_byte (ucast (lo AND 0xFF)))"

definition instance_name :: "bytes \<Rightarrow> string \<Rightarrow> bytes" where
  "instance_name host suffix = push_ignore 96 (push_ignore 96 [] host) (str suffix)"

section \<open>Answers\<close>

text \<open>\<open>.ok()\<close>, and the send of \<open>&resp_buf[..len]\<close>.\<close>

fun respond :: "(EncodeError, bytes \<times> nat) result \<Rightarrow> (unit, bytes list) result" where
  "respond (Ok (buf, n)) = Ok [take n buf]"
| "respond (Err e) = Ok []"
| "respond Panic = Panic"

definition service_types :: "bool \<Rightarrow> bool \<Rightarrow> bytes list" where
  "service_types prov tls_on =
     (if \<not> prov \<and> tls_on then
        [str ''_http._tcp.local'', str ''_bacnet._udp.local'', str ''_icomb-setup._tcp.local'', str ''_https._tcp.local'']
      else if \<not> prov then
        [str ''_http._tcp.local'', str ''_bacnet._udp.local'', str ''_icomb-setup._tcp.local'']
      else if tls_on then
        [str ''_http._tcp.local'', str ''_bacnet._udp.local'', str ''_https._tcp.local'']
      else [str ''_http._tcp.local'', str ''_bacnet._udp.local''])"

fun list_services :: "bytes list \<Rightarrow> bytes \<Rightarrow> (unit, bytes list) result" where
  "list_services [] buf = Ok []"
| "list_services (svc # svcs) buf =
     (case encode_ptr_response (str ''_services._dns-sd._udp.local'') svc buf of
        Ok (buf, n) \<Rightarrow> and_then (list_services svcs buf) (\<lambda>sent. Ok (take n buf # sent))
      | Err e \<Rightarrow> list_services svcs buf
      | Panic \<Rightarrow> Panic)"

definition mdns_answer_query :: "MdnsEnv \<Rightarrow> bytes \<Rightarrow> DnsQuery \<Rightarrow> (unit, bytes list) result" where
  "mdns_answer_query env resp_buf query =
     (let info = mdns_info env;
          host = i_hostname info; prov = i_provisioned info; tls_on = i_tls_on info;
          fqdn = push_ignore 48 (push_ignore 48 [] host) (str ''.local'');
          http_instance = instance_name host ''._http._tcp.local'';
          bacnet_instance = instance_name host ''._bacnet._udp.local'';
          setup_instance = instance_name host ''._icomb-setup._tcp.local'';
          https_instance = instance_name host ''._https._tcp.local'';
          device_id_str = push_ignore 16 [] (dec_digits (unat (i_device_id info)));
          mac_str = mac_text (mac_addr_hi env) (mac_addr_lo env);
          provisioned_str = (if prov then str ''true'' else str ''false'');
          name = q_name query; t = qtype query in
      if t = TYPE_PTR \<and> name = str ''_services._dns-sd._udp.local'' then
        list_services (service_types prov tls_on) (replicate 512 0)
      else if t = TYPE_A \<and> name = fqdn then
        respond (encode_a_response host (get_our_ip env) resp_buf)
      else if t = TYPE_PTR then
        (if name = str ''_http._tcp.local'' then
           respond (encode_ptr_response (str ''_http._tcp.local'') http_instance resp_buf)
         else if name = str ''_bacnet._udp.local'' then
           respond (encode_ptr_response (str ''_bacnet._udp.local'') bacnet_instance resp_buf)
         else if name = str ''_icomb-setup._tcp.local'' \<and> \<not> prov then
           respond (encode_ptr_response (str ''_icomb-setup._tcp.local'') setup_instance resp_buf)
         else if name = str ''_https._tcp.local'' \<and> tls_on then
           respond (encode_ptr_response (str ''_https._tcp.local'') https_instance resp_buf)
         else Ok [])
      else if t = TYPE_SRV then
        (if name = http_instance then respond (encode_srv_response http_instance host HTTP_PORT resp_buf)
         else if name = bacnet_instance then respond (encode_srv_response bacnet_instance host BACNET_PORT resp_buf)
         else if name = setup_instance \<and> \<not> prov then
           respond (encode_srv_response setup_instance host HTTP_PORT resp_buf)
         else if name = https_instance \<and> tls_on then
           respond (encode_srv_response https_instance host
             (case m_config env of Some c \<Rightarrow> https_port (tls c) | None \<Rightarrow> 443) resp_buf)
         else Ok [])
      else if t = TYPE_TXT then
        (if name = http_instance then
           respond (encode_txt_response name
             [(str ''deviceId'', device_id_str), (str ''vendor'', str ''Icomb Place''), (str ''version'', m_version env),
              (str ''provisioned'', provisioned_str), (str ''mac'', mac_str)] resp_buf)
         else if name = bacnet_instance then
           respond (encode_txt_response name
             [(str ''deviceId'', device_id_str), (str ''vendor'', str ''Icomb Place''), (str ''version'', m_version env)]
             resp_buf)
         else if name = setup_instance \<and> \<not> prov then
           respond (encode_txt_response name
             [(str ''provisioned'', str ''false''), (str ''vendor'', str ''Icomb Place''), (str ''version'', m_version env),
              (str ''mac'', mac_str)] resp_buf)
         else if name = https_instance \<and> tls_on then
           respond (encode_txt_response name
             [(str ''deviceId'', device_id_str), (str ''vendor'', str ''Icomb Place''), (str ''version'', m_version env)]
             resp_buf)
         else Ok [])
      else Ok [])"

definition mdns_answer :: "MdnsEnv \<Rightarrow> bytes \<Rightarrow> bytes \<Rightarrow> (unit, bytes list) result" where
  "mdns_answer env resp_buf pkt =
     (case decode_query pkt of
        Ok query \<Rightarrow> mdns_answer_query env resp_buf query
      | Err e \<Rightarrow> Ok []
      | Panic \<Rightarrow> Panic)"

section \<open>The zone\<close>

text \<open>
  The services offered, each with its type, port and attributes, and the record of every name. This
  is what the responder is meant to publish; it does not mention buffers or the order of tests.
\<close>

type_synonym service = "bytes \<times> u16 \<times> (bytes \<times> bytes) list"

definition host :: "MdnsEnv \<Rightarrow> bytes" where
  "host env = i_hostname (mdns_info env)"

definition attributes :: "MdnsEnv \<Rightarrow> (bytes \<times> bytes) list" where
  "attributes env = [(str ''deviceId'', dec_digits (unat (i_device_id (mdns_info env)))),
     (str ''vendor'', str ''Icomb Place''), (str ''version'', m_version env)]"

definition services :: "MdnsEnv \<Rightarrow> service list" where
  "services env =
     (let info = mdns_info env; mac = (str ''mac'', mac_text (mac_addr_hi env) (mac_addr_lo env)) in
      [(str ''_http._tcp.local'', 80,
        attributes env @ [(str ''provisioned'', if i_provisioned info then str ''true'' else str ''false''), mac]),
       (str ''_bacnet._udp.local'', 47808, attributes env)]
      @ (if i_provisioned info then []
         else [(str ''_icomb-setup._tcp.local'', 80, (str ''provisioned'', str ''false'') # tl (attributes env) @ [mac])])
      @ (if i_tls_on info
         then [(str ''_https._tcp.local'', (case m_config env of Some c \<Rightarrow> https_port (tls c) | None \<Rightarrow> 443), attributes env)]
         else []))"

definition labels_of :: "bytes \<Rightarrow> bytes list" where
  "labels_of n = split_on 46 n"

definition ptr_record :: "bytes \<Rightarrow> bytes \<Rightarrow> bytes" where
  "ptr_record name target = wire_answer (labels_of name) TYPE_PTR CLASS_IN (wire_name (labels_of target))"

definition zone :: "MdnsEnv \<Rightarrow> ((u16 \<times> bytes) \<times> bytes) list" where
  "zone env =
     (let h = host env; inst = (\<lambda>s. h @ 46 # s) in
      ((TYPE_A, h @ str ''.local''), wire_answer (labels_of (h @ str ''.local'')) TYPE_A CLASS_IN_FLUSH (get_our_ip env))
      # map (\<lambda>(s, port, txt). ((TYPE_PTR, s), ptr_record s (inst s))) (services env)
      @ map (\<lambda>(s, port, txt). ((TYPE_SRV, inst s), wire_answer (labels_of (inst s)) TYPE_SRV CLASS_IN_FLUSH (wire_srv port h)))
          (services env)
      @ map (\<lambda>(s, port, txt). ((TYPE_TXT, inst s), wire_answer (labels_of (inst s)) TYPE_TXT CLASS_IN_FLUSH (wire_txt txt)))
          (services env))"

definition zone_answer :: "MdnsEnv \<Rightarrow> u16 \<Rightarrow> bytes \<Rightarrow> bytes list" where
  "zone_answer env t name =
     (if (t, name) = (TYPE_PTR, str ''_services._dns-sd._udp.local'')
      then map (\<lambda>(s, port, txt). ptr_record name s) (services env)
      else case map_of (zone env) (t, name) of None \<Rightarrow> [] | Some record_bytes \<Rightarrow> [record_bytes])"

section \<open>Sizes\<close>

lemma length_wire_name: "length (wire_name (labels_of n)) = length n + 2"
proof -
  have "length (wire_labels (split_on c n)) = Suc (length n)" for c
    by (induction n) (auto split: list.split)
  then show ?thesis by (simp add: wire_name_def labels_of_def)
qed

lemma length_wire_answer: "length (wire_answer ls t c r) = 22 + length (wire_name ls) + length r"
  by (simp add: wire_answer_def)

lemma mac_text_length: "length (mac_text hi lo) = 17"
  by (simp add: mac_text_def push_ignore_def push_str_def hex_byte_def)

text \<open>A host name of one ASCII label and a version text of at most 64 bytes.\<close>

definition env_ok :: "MdnsEnv \<Rightarrow> bool" where
  "env_ok env \<longleftrightarrow> label_ok (host env) \<and> 46 \<notin> set (host env) \<and> length (m_version env) \<le> 64
     \<and> length (get_our_ip env) = 4"

lemma host_length: "length (host env) \<le> 32"
  by (simp add: host_def mdns_info_def Let_def push_ignore_length split: prod.split)

definition service_ok :: "bytes \<Rightarrow> bool" where
  "service_ok s \<longleftrightarrow> (\<forall>l \<in> set (labels_of s). label_ok l) \<and> length s \<le> 32"

lemma service_names:
  "service_ok (str ''_http._tcp.local'')" "service_ok (str ''_bacnet._udp.local'')"
  "service_ok (str ''_icomb-setup._tcp.local'')" "service_ok (str ''_https._tcp.local'')"
  "service_ok (str ''_services._dns-sd._udp.local'')" "service_ok (str ''local'')"
  by (simp_all add: service_ok_def labels_of_def label_ok_def str_def)

lemma service_labels: "service_ok s \<Longrightarrow> labels_ok (full_labels s [])"
  using length_wire_name [of s] by (simp add: service_ok_def labels_ok_def full_labels_def labels_of_def)

lemma instance_labels:
  assumes "env_ok env" and "service_ok s"
  shows "labels_ok (full_labels (host env @ 46 # s) [])" "full_labels (host env @ 46 # s) [] = labels_of (host env @ 46 # s)"
  using assms length_wire_name [of "host env @ 46 # s"] host_length [of env]
  by (auto simp: env_ok_def service_ok_def labels_ok_def full_labels_def labels_of_def split_on_append)

lemma host_labels:
  assumes "env_ok env"
  shows "local_labels (host env) = labels_of (host env @ 46 # str ''local'')" "labels_ok (local_labels (host env))"
proof -
  show l: "local_labels (host env) = labels_of (host env @ 46 # str ''local'')"
    using assms by (simp add: local_labels_def full_labels_def labels_of_def env_ok_def split_on_append split_on_part)
      (simp add: str_def)
  show "labels_ok (local_labels (host env))"
    using instance_labels [OF assms service_names(6)] l by simp
qed

section \<open>The answers are the zone\<close>

lemma respond_emit: "length w \<le> length buf \<Longrightarrow> respond (emit w buf 0) = Ok [w]"
  by (simp add: emit_def)

lemma respond_ptr:
  assumes "service_ok s" and "labels_ok (full_labels target [])" and "length target \<le> 100" and "length buf = 512"
  shows "respond (encode_ptr_response s target buf) = Ok [ptr_record s target]"
proof -
  have l: "full_labels n [] = labels_of n" for n by (simp add: full_labels_def labels_of_def)
  show ?thesis
    unfolding encode_ptr_response_emit [OF service_labels [OF assms(1)] assms(2)] l ptr_record_def
    using assms(1,3,4) by (intro respond_emit) (simp add: length_wire_answer length_wire_name service_ok_def)
qed

lemma respond_srv:
  assumes "env_ok env" and "service_ok s" and "length buf = 512"
  shows "respond (encode_srv_response (host env @ 46 # s) (host env) port buf) =
    Ok [wire_answer (labels_of (host env @ 46 # s)) TYPE_SRV CLASS_IN_FLUSH (wire_srv port (host env))]"
  unfolding encode_srv_response_emit [OF instance_labels(1) [OF assms(1,2)] host_labels(2) [OF assms(1)]]
    instance_labels(2) [OF assms(1,2)]
  using assms(2,3) host_length [of env]
  by (intro respond_emit)
    (simp add: length_wire_answer length_wire_name wire_srv_def service_ok_def host_labels(1) [OF assms(1)])

lemma respond_txt:
  assumes "env_ok env" and "service_ok s" and "length buf = 512"
    and "\<forall>p \<in> set txt. pair_ok p" and "length (wire_txt txt) \<le> 300"
  shows "respond (encode_txt_response (host env @ 46 # s) txt buf) =
    Ok [wire_answer (labels_of (host env @ 46 # s)) TYPE_TXT CLASS_IN_FLUSH (wire_txt txt)]"
proof -
  have "length (wire_txt txt) \<le> 0xFFFF" using assms(5) by simp
  from encode_txt_response_emit [OF instance_labels(1) [OF assms(1,2)] assms(4) this, of buf]
  show ?thesis
    unfolding instance_labels(2) [OF assms(1,2)]
    using assms(2,3,5) host_length [of env] by (simp add: respond_emit length_wire_answer length_wire_name service_ok_def)
qed

lemma respond_a:
  assumes "env_ok env" and "length buf = 512"
  shows "respond (encode_a_response (host env) (get_our_ip env) buf) =
    Ok [wire_answer (labels_of (host env @ 46 # str ''local'')) TYPE_A CLASS_IN_FLUSH (get_our_ip env)]"
proof -
  have "length (get_our_ip env) = 4" using assms(1) by (simp add: env_ok_def)
  from encode_a_response_emit [OF host_labels(2) [OF assms(1)] this, of buf] this show ?thesis
    using assms(2) host_length [of env] host_labels(1) [OF assms(1)]
    by (simp add: respond_emit length_wire_answer length_wire_name)
qed

lemma list_services_eq:
  assumes "\<forall>s \<in> set svcs. service_ok s" and "length buf = 512"
  shows "list_services svcs buf = Ok (map (ptr_record (str ''_services._dns-sd._udp.local'')) svcs)"
  using assms
proof (induction svcs arbitrary: buf)
  case (Cons s svcs)
  then have s: "service_ok s" by simp
  have "respond (encode_ptr_response (str ''_services._dns-sd._udp.local'') s buf) =
      Ok [ptr_record (str ''_services._dns-sd._udp.local'') s]"
    using s Cons.prems(2) by (intro respond_ptr service_names service_labels) (simp_all add: service_ok_def)
  then obtain b n where e: "encode_ptr_response (str ''_services._dns-sd._udp.local'') s buf = Ok (b, n)"
    and w: "take n b = ptr_record (str ''_services._dns-sd._udp.local'') s"
    by (cases "encode_ptr_response (str ''_services._dns-sd._udp.local'') s buf") auto
  from e have "length b = 512"
    unfolding encode_ptr_response_emit [OF service_labels [OF service_names(5)] service_labels [OF s]]
    using Cons.prems(2) by (auto simp: emit_Ok_iff)
  with Cons e w show ?case by simp
qed simp

text \<open>The attribute lists are within the limits of the encoder.\<close>

lemma attribute_sizes:
  assumes "env_ok env" and "(s, port, txt) \<in> set (services env)"
  shows "service_ok s" "\<forall>p \<in> set txt. pair_ok p" "length (wire_txt txt) \<le> 300"
proof -
  have v: "length (m_version env) \<le> 64" using assms(1) by (simp add: env_ok_def)
  note d = dec_u32_length [of "i_device_id (mdns_info env)"]
  note m = mac_text_length [of "mac_addr_hi env" "mac_addr_lo env"]
  show "service_ok s" using assms(2) service_names by (auto simp: services_def Let_def split: if_splits)
  show "\<forall>p \<in> set txt. pair_ok p"
    using assms(2) v d m
    by (auto simp: services_def attributes_def pair_ok_def wire_pair_def Let_def split: if_splits)
  show "length (wire_txt txt) \<le> 300"
    using assms(2) v d m
    by (auto simp: services_def attributes_def wire_txt_def wire_pair_def Let_def split: if_splits)
qed

lemma instance_name_eq: "length h \<le> 32 \<Longrightarrow> length s \<le> 60 \<Longrightarrow> instance_name h (CHR ''.'' # s) = h @ 46 # str s"
  by (simp add: instance_name_def push_ignore_def push_str_def) (simp add: str_def)

lemma mdns_answer_query_zone:
  assumes ok: "env_ok env" and "length buf = 512"
  shows "mdns_answer_query env buf query = Ok (zone_answer env (qtype query) (q_name query))"
proof -
  let ?h = "host env" and ?i = "mdns_info env" and ?t = "qtype query" and ?n = "q_name query"
  let ?port = "case m_config env of Some c \<Rightarrow> https_port (tls c) | None \<Rightarrow> 443"
  note h = host_length [of env]
  have f: "push_ignore 48 (push_ignore 48 [] ?h) (46 # str ''local'') = ?h @ 46 # str ''local''"
    using h by (simp add: push_ignore_def push_str_def)
  have dl: "str ''.local'' = 46 # str ''local''" by (simp add: str_def)
  have d: "push_ignore 16 [] (dec_digits (unat (i_device_id ?i))) = dec_digits (unat (i_device_id ?i))"
    using dec_u32_length [of "i_device_id ?i"] by (simp add: push_ignore_def push_str_def)
  have ptr: "respond (encode_ptr_response s (?h @ 46 # s) buf) = Ok [ptr_record s (?h @ 46 # s)]" if "service_ok s" for s
    using that h assms(2) instance_labels(1) [OF ok that] by (intro respond_ptr) (simp_all add: service_ok_def)
  have tx: "respond (encode_txt_response (?h @ 46 # s) xs buf) =
      Ok [wire_answer (labels_of (?h @ 46 # s)) TYPE_TXT CLASS_IN_FLUSH (wire_txt xs)]"
    if "(s, port, xs) \<in> set (services env)" for s port xs
    using attribute_sizes [OF ok that] assms(2) by (intro respond_txt ok)
  have all: "\<forall>s \<in> set (service_types p q). service_ok s" for p q
    using service_names by (auto simp: service_types_def)
  have types: "service_types (i_provisioned ?i) (i_tls_on ?i) = map fst (services env)"
    by (simp add: service_types_def services_def Let_def)
  note code = mdns_answer_query_def Let_def host_def [symmetric] f d dl
    instance_name_eq [OF h, of "''_http._tcp.local''", simplified] instance_name_eq [OF h, of "''_bacnet._udp.local''", simplified]
    instance_name_eq [OF h, of "''_icomb-setup._tcp.local''", simplified] instance_name_eq [OF h, of "''_https._tcp.local''", simplified]
  consider "?t = TYPE_PTR" | "?t = TYPE_A" | "?t = TYPE_SRV" | "?t = TYPE_TXT"
    | "?t \<noteq> TYPE_PTR" "?t \<noteq> TYPE_A" "?t \<noteq> TYPE_SRV" "?t \<noteq> TYPE_TXT" by blast
  then show ?thesis
  proof cases
    case 1
    show ?thesis
    proof (cases "?n = str ''_services._dns-sd._udp.local''")
      case True
      have "list_services (service_types (i_provisioned ?i) (i_tls_on ?i)) (replicate 512 0) =
          Ok (map (\<lambda>(s, port, txt). ptr_record ?n s) (services env))"
        using list_services_eq [OF all [of "i_provisioned ?i" "i_tls_on ?i"], of "replicate 512 0"]
        by (simp add: types True case_prod_unfold comp_def)
      with 1 True show ?thesis by (simp add: code zone_answer_def)
    next
      case False
      with 1 show ?thesis
        by (simp add: code zone_answer_def zone_def services_def mdns_types ptr [OF service_names(1)]
            ptr [OF service_names(2)] ptr [OF service_names(3)] ptr [OF service_names(4)])
    qed
  next
    case 2
    then show ?thesis
      by (simp add: code zone_answer_def zone_def services_def mdns_types respond_a [OF ok assms(2)])
  next
    case 3
    then show ?thesis
      by (simp add: code zone_answer_def zone_def services_def mdns_types HTTP_PORT_def BACNET_PORT_def
          respond_srv [OF ok service_names(1) assms(2)] respond_srv [OF ok service_names(2) assms(2)]
          respond_srv [OF ok service_names(3) assms(2)] respond_srv [OF ok service_names(4) assms(2)])
  next
    case 4
    define port where "port = ?port"
    have http: "(str ''_http._tcp.local'', 80, attributes env @
        [(str ''provisioned'', if i_provisioned ?i then str ''true'' else str ''false''),
         (str ''mac'', mac_text (mac_addr_hi env) (mac_addr_lo env))]) \<in> set (services env)"
      and bac: "(str ''_bacnet._udp.local'', 47808, attributes env) \<in> set (services env)"
      by (simp_all add: services_def Let_def)
    have prv: "(str ''_icomb-setup._tcp.local'', 80, (str ''provisioned'', str ''false'') # tl (attributes env) @
        [(str ''mac'', mac_text (mac_addr_hi env) (mac_addr_lo env))]) \<in> set (services env)" if "\<not> i_provisioned ?i"
      using that by (simp add: services_def Let_def)
    have https: "(str ''_https._tcp.local'', port, attributes env) \<in> set (services env)" if "i_tls_on ?i"
      using that by (simp add: services_def Let_def port_def)
    show ?thesis
      using 4 tx [OF http] tx [OF bac] tx [OF prv] tx [OF https]
      by (simp add: code zone_answer_def zone_def services_def mdns_types attributes_def)
  next
    case 5
    then show ?thesis by (simp add: code zone_answer_def zone_def services_def mdns_types)
  qed
qed

text \<open>
  C18: whatever arrives, the responder does not panic and sends exactly what the zone holds for the first
  question; a packet that does not decode is dropped. A well-formed query is answered with the record of its name
  and type, the service enumeration with one pointer per service offered, any other with nothing.
\<close>

theorem mdns_answers:
  assumes "env_ok env" and "length buf = 512"
  shows "mdns_answer env buf pkt =
      Ok (case decode_query pkt of Ok q \<Rightarrow> zone_answer env (qtype q) (q_name q) | _ \<Rightarrow> [])
    \<and> (name_ok name \<and> qd_count h \<noteq> 0 \<and> length rest < 65536 \<longrightarrow>
       mdns_answer env buf (wire_query h name t c @ rest) = Ok (zone_answer env t name))"
proof -
  have "mdns_answer env buf pkt = Ok (case decode_query pkt of Ok q \<Rightarrow> zone_answer env (qtype q) (q_name q) | _ \<Rightarrow> [])"
    for pkt
    using decode_query_post [of pkt] mdns_answer_query_zone [OF assms]
    by (cases "decode_query pkt") (simp_all add: mdns_answer_def)
  then show ?thesis using decode_query_wire by simp
qed

definition sample_mdns_env :: MdnsEnv where
  "sample_mdns_env = \<lparr>m_config = None, mac_addr_hi = 0x28CD, mac_addr_lo = 0xC1000042, m_version = str ''0.1.0'',
     config_v4 = Some [192, 168, 1, 9]\<rparr>"

text \<open>The address query for \<open>bacnet-bridge.local\<close>.\<close>

lemma mdns_answers_witness:
  "mdns_answer sample_mdns_env (replicate 512 0)
     (wire_query (dns_response 0\<lparr>qd_count := 1\<rparr>) (str ''bacnet-bridge.local'') TYPE_A CLASS_IN @ []) =
   Ok [wire_answer [str ''bacnet-bridge'', str ''local''] TYPE_A CLASS_IN_FLUSH [192, 168, 1, 9]]"
proof -
  have h: "host sample_mdns_env = str ''bacnet-bridge''"
    by (simp add: host_def mdns_info_def sample_mdns_env_def push_ignore_def push_str_def)
  have "env_ok sample_mdns_env"
    unfolding env_ok_def h by (simp add: label_ok_def sample_mdns_env_def get_our_ip_def) (simp add: str_def)
  moreover have "name_ok (str ''bacnet-bridge.local'')"
    by (simp add: name_ok_def labels_ok_def label_ok_def wire_name_def str_def)
  moreover have "map_of (zone sample_mdns_env) (TYPE_A, str ''bacnet-bridge.local'') =
      Some (wire_answer [str ''bacnet-bridge'', str ''local''] TYPE_A CLASS_IN_FLUSH [192, 168, 1, 9])"
    unfolding zone_def h Let_def by (simp add: labels_of_def get_our_ip_def sample_mdns_env_def str_def)
  moreover have "TYPE_A \<noteq> TYPE_PTR" by (simp add: mdns_types)
  ultimately show ?thesis
    using mdns_answers [of sample_mdns_env "replicate 512 0" "[]" "str ''bacnet-bridge.local''"
        "dns_response 0\<lparr>qd_count := 1\<rparr>" "[]" TYPE_A CLASS_IN]
    by (simp add: zone_answer_def)
qed

end
