(* ===== verification/Mqtt.thy ===== *)
theory Mqtt
  imports Rust_Str
begin

text \<open>
  The MQTT 3.1.1 client codec, \<open>bridge-core/src/mqtt.rs\<close>: the primitive writers, the variable-length
  size field, the packets a publish-only client sends, the acknowledgement it reads, and the topic
  and payload of Home Assistant discovery.
\<close>

section \<open>Constants\<close>

definition MQTT_PORT :: u16 where "MQTT_PORT = 1883"
definition PACKET_TYPE_CONNECT :: u8 where "PACKET_TYPE_CONNECT = 1"
definition PACKET_TYPE_CONNACK :: u8 where "PACKET_TYPE_CONNACK = 2"
definition PACKET_TYPE_PUBLISH :: u8 where "PACKET_TYPE_PUBLISH = 3"
definition PACKET_TYPE_PINGREQ :: u8 where "PACKET_TYPE_PINGREQ = 12"
definition PACKET_TYPE_PINGRESP :: u8 where "PACKET_TYPE_PINGRESP = 13"
definition PACKET_TYPE_DISCONNECT :: u8 where "PACKET_TYPE_DISCONNECT = 14"
definition CONNECT_FLAG_CLEAN_SESSION :: u8 where "CONNECT_FLAG_CLEAN_SESSION = 0x02"
definition CONNECT_FLAG_PASSWORD :: u8 where "CONNECT_FLAG_PASSWORD = 0x40"
definition CONNECT_FLAG_USERNAME :: u8 where "CONNECT_FLAG_USERNAME = 0x80"
definition CONNACK_ACCEPTED :: u8 where "CONNACK_ACCEPTED = 0x00"

lemmas packet_types = PACKET_TYPE_CONNECT_def PACKET_TYPE_CONNACK_def PACKET_TYPE_PUBLISH_def
  PACKET_TYPE_PINGREQ_def PACKET_TYPE_PINGRESP_def PACKET_TYPE_DISCONNECT_def

lemmas connect_flags = CONNECT_FLAG_CLEAN_SESSION_def CONNECT_FLAG_PASSWORD_def CONNECT_FLAG_USERNAME_def

section \<open>Primitive writers\<close>

definition mq_write_u8 :: "u8 \<Rightarrow> writer" where
  "mq_write_u8 v buf pos =
     (if pos \<ge> length buf then Err BufferTooSmall
      else and_then (store buf pos v) (\<lambda>buf. Ok (buf, pos + 1)))"

definition mq_write_u16 :: "u16 \<Rightarrow> writer" where
  "mq_write_u16 v buf pos =
     (if pos + 2 > length buf then Err BufferTooSmall
      else and_then (put buf pos [ucast (drop_bit 8 v), ucast (v AND 0xFF)]) (\<lambda>buf. Ok (buf, pos + 2)))"

definition write_bytes :: "bytes \<Rightarrow> writer" where
  "write_bytes bs buf pos =
     (if pos + length bs > length buf then Err BufferTooSmall
      else and_then (copy_at buf pos (pos + length bs) bs) (\<lambda>buf. Ok (buf, pos + length bs)))"

definition write_mqtt_str :: "bytes \<Rightarrow> writer" where
  "write_mqtt_str s buf pos =
     (if length s > 0xFFFF then Err StringTooLong
      else and_then (mq_write_u16 (of_nat (length s)) buf pos) (\<lambda>(buf, pos). write_bytes s buf pos))"

text \<open>The loop of \<open>write_remaining_length\<close>; \<open>len & 0x7F\<close> and \<open>len >>= 7\<close> on a \<open>usize\<close>.\<close>

function remaining_loop :: "nat \<Rightarrow> writer" where
  "remaining_loop len buf pos =
     (let byte = of_nat (len mod 128); len = len div 128;
          byte = (if len > 0 then byte OR 0x80 else byte) in
      and_then (mq_write_u8 byte buf pos) (\<lambda>(buf, pos).
        if len = 0 then Ok (buf, pos) else remaining_loop len buf pos))"
  by pat_completeness auto
termination by (relation "measure (\<lambda>(len, buf, pos). len)") auto

declare remaining_loop.simps [simp del]

definition write_remaining_length :: "nat \<Rightarrow> writer" where
  "write_remaining_length len buf pos =
     (if len > 268435455 then Err InvalidValue else remaining_loop len buf pos)"

definition remaining_length_encoded_size :: "nat \<Rightarrow> nat" where
  "remaining_length_encoded_size len =
     (if len < 128 then 1 else if len < 16384 then 2 else if len < 2097152 then 3 else 4)"

section \<open>Primitive readers\<close>

definition mq_read_u8 :: "bytes \<Rightarrow> nat \<Rightarrow> (DecodeError, u8 \<times> nat) result" where
  "mq_read_u8 data pos =
     (if pos \<ge> length data then Err UnexpectedEnd
      else and_then (idx data pos) (\<lambda>b. Ok (b, pos + 1)))"

text \<open>\<open>checked_add\<close> and \<open>checked_mul\<close> on the 32-bit \<open>usize\<close> of the target.\<close>

definition checked :: "nat \<Rightarrow> (DecodeError, nat) result" where
  "checked n = (if n < 2 ^ 32 then Ok n else Err InvalidData)"

function decode_remaining_loop :: "bytes \<Rightarrow> nat \<Rightarrow> nat \<Rightarrow> nat \<Rightarrow> (DecodeError, nat \<times> nat) result" where
  "decode_remaining_loop data pos multiplier val =
     and_then (mq_read_u8 data pos) (\<lambda>(byte, pos).
     and_then (checked (val + unat (byte AND 0x7F) * multiplier)) (\<lambda>val.
     if byte AND 0x80 = 0 then Ok (val, pos)
     else
       and_then (checked (multiplier * 128)) (\<lambda>multiplier.
       if multiplier \<ge> 128 * 128 * 128 * 128 then Err InvalidData
       else decode_remaining_loop data pos multiplier val)))"
  by pat_completeness auto
termination
  by (relation "measure (\<lambda>(data, pos, multiplier, val). length data - pos)")
    (auto simp: mq_read_u8_def idx_def split: if_splits)

declare decode_remaining_loop.simps [simp del]

definition decode_remaining_length :: "bytes \<Rightarrow> nat \<Rightarrow> (DecodeError, nat \<times> nat) result" where
  "decode_remaining_length data pos = decode_remaining_loop data pos 1 0"

section \<open>Packets\<close>

definition encode_connect ::
  "bytes \<Rightarrow> bytes \<Rightarrow> u16 \<Rightarrow> bytes option \<Rightarrow> bytes option \<Rightarrow> (EncodeError, bytes \<times> nat) result" where
  "encode_connect buf client_id keep_alive username password =
     (let vh_len = 10;
          payload_len = 2 + length client_id;
          payload_len = payload_len + (case username of Some u \<Rightarrow> 2 + length u | None \<Rightarrow> 0);
          payload_len = payload_len + (case password of Some p \<Rightarrow> 2 + length p | None \<Rightarrow> 0);
          remaining = vh_len + payload_len;
          header_size = 1 + remaining_length_encoded_size remaining;
          total = header_size + remaining in
      if total > length buf then Err BufferTooSmall
      else
        and_then (mq_write_u8 (push_bit 4 PACKET_TYPE_CONNECT) buf 0) (\<lambda>(buf, pos).
        and_then (write_remaining_length remaining buf pos) (\<lambda>(buf, pos).
        and_then (mq_write_u16 4 buf pos) (\<lambda>(buf, pos).
        and_then (write_bytes (str ''MQTT'') buf pos) (\<lambda>(buf, pos).
        and_then (mq_write_u8 4 buf pos) (\<lambda>(buf, pos).
        let flags = CONNECT_FLAG_CLEAN_SESSION;
            flags = (if username \<noteq> None then flags OR CONNECT_FLAG_USERNAME else flags);
            flags = (if password \<noteq> None then flags OR CONNECT_FLAG_PASSWORD else flags) in
        and_then (mq_write_u8 flags buf pos) (\<lambda>(buf, pos).
        and_then (mq_write_u16 keep_alive buf pos) (\<lambda>(buf, pos).
        and_then (write_mqtt_str client_id buf pos) (\<lambda>(buf, pos).
        and_then (case username of Some u \<Rightarrow> write_mqtt_str u buf pos | None \<Rightarrow> Ok (buf, pos)) (\<lambda>(buf, pos).
          case password of Some p \<Rightarrow> write_mqtt_str p buf pos | None \<Rightarrow> Ok (buf, pos)))))))))))"

definition encode_publish :: "bytes \<Rightarrow> bytes \<Rightarrow> bytes \<Rightarrow> bool \<Rightarrow> (EncodeError, bytes \<times> nat) result" where
  "encode_publish buf topic payload retain =
     (if length topic > 0xFFFF then Err StringTooLong
      else
        let remaining = 2 + length topic + length payload;
            header_size = 1 + remaining_length_encoded_size remaining;
            total = header_size + remaining in
        if total > length buf then Err BufferTooSmall
        else
          and_then (mq_write_u8 (push_bit 4 PACKET_TYPE_PUBLISH OR (if retain then 0x01 else 0x00)) buf 0) (\<lambda>(buf, pos).
          and_then (write_remaining_length remaining buf pos) (\<lambda>(buf, pos).
          and_then (mq_write_u16 (of_nat (length topic)) buf pos) (\<lambda>(buf, pos).
          and_then (write_bytes topic buf pos) (\<lambda>(buf, pos).
          write_bytes payload buf pos)))))"

definition encode_pingreq :: "bytes \<Rightarrow> (EncodeError, bytes \<times> nat) result" where
  "encode_pingreq buf =
     (if length buf < 2 then Err BufferTooSmall
      else and_then (put buf 0 [push_bit 4 PACKET_TYPE_PINGREQ, 0x00]) (\<lambda>buf. Ok (buf, 2)))"

definition encode_disconnect :: "bytes \<Rightarrow> (EncodeError, bytes \<times> nat) result" where
  "encode_disconnect buf =
     (if length buf < 2 then Err BufferTooSmall
      else and_then (put buf 0 [push_bit 4 PACKET_TYPE_DISCONNECT, 0x00]) (\<lambda>buf. Ok (buf, 2)))"

definition decode_packet_type :: "bytes \<Rightarrow> (DecodeError, u8 \<times> nat) result" where
  "decode_packet_type data =
     (if data = [] then Err UnexpectedEnd
      else
        and_then (idx data 0) (\<lambda>b.
        let packet_type = drop_bit 4 b AND 0x0F in
        and_then (decode_remaining_length data 1) (\<lambda>(remaining, _). Ok (packet_type, remaining))))"

definition decode_connack :: "bytes \<Rightarrow> (DecodeError, bool) result" where
  "decode_connack data =
     (if length data < 4 then Err UnexpectedEnd
      else
        and_then (idx data 0) (\<lambda>b0.
        if drop_bit 4 b0 \<noteq> PACKET_TYPE_CONNACK then Err InvalidData
        else
          and_then (idx data 1) (\<lambda>b1.
          if b1 \<noteq> 2 then Err InvalidData
          else and_then (idx data 3) (\<lambda>return_code. Ok (return_code = CONNACK_ACCEPTED)))))"

section \<open>Home Assistant discovery\<close>

definition is_binary_object :: "bytes \<Rightarrow> bool" where
  "is_binary_object s \<longleftrightarrow> s = str ''binary-input'' \<or> s = str ''binary-output'' \<or> s = str ''binary-value''"

definition ha_discovery_topic ::
  "bytes \<Rightarrow> bytes \<Rightarrow> bytes \<Rightarrow> bytes \<Rightarrow> u32 \<Rightarrow> (EncodeError, bytes) result" where
  "ha_discovery_topic buf discovery_prefix device_name object_type object_instance =
     (let component = (if is_binary_object object_type then str ''binary_sensor'' else str ''sensor'') in
      ok_or StringTooLong
        (push_all 128 buf [discovery_prefix, str ''/'', component, str ''/'', device_name, str ''_'', object_type,
           str ''_'', dec_digits (unat object_instance), str ''/config'']))"

record HaDiscoveryParams =
  ha_prefix :: bytes
  ha_device_name :: bytes
  ha_point_name :: bytes
  ha_object_type :: bytes
  ha_object_instance :: u32
  ha_unit :: bytes
  ha_state_topic :: bytes

text \<open>\<open>for ch in object_type.chars() { unique_id.push(if ch == '-' { '_' } else { ch })?; }\<close>\<close>

definition underscored :: "bytes \<Rightarrow> bytes list" where
  "underscored s = map (\<lambda>ch. if ch = [45] then [95] else ch) (chars s)"

definition ha_unique_id :: "HaDiscoveryParams \<Rightarrow> (EncodeError, bytes) result" where
  "ha_unique_id p =
     and_then (ok_or StringTooLong (push_all 64 [] [str ''bacnet_'', ha_device_name p, str ''_''])) (\<lambda>s.
     and_then (ok_or StringTooLong (push_all 64 s (underscored (ha_object_type p)))) (\<lambda>s.
     ok_or StringTooLong (push_all 64 s [str ''_'', dec_digits (unat (ha_object_instance p))])))"

fun write_pieces :: "bytes list \<Rightarrow> writer" where
  "write_pieces [] buf pos = Ok (buf, pos)"
| "write_pieces (p # ps) buf pos = and_then (write_bytes p buf pos) (\<lambda>(buf, pos). write_pieces ps buf pos)"

definition format_ha_discovery :: "bytes \<Rightarrow> HaDiscoveryParams \<Rightarrow> (EncodeError, bytes \<times> nat) result" where
  "format_ha_discovery buf p =
     (let binary = is_binary_object (ha_object_type p) in
      and_then (ha_unique_id p) (\<lambda>unique_id.
      write_pieces
        ([json ''{^name^:^'', ha_point_name p, json ''^,^unique_id^:^'', unique_id, json ''^,^state_topic^:^'',
          ha_state_topic p, json ''^'']
         @ (if \<not> binary then [json '',^unit_of_measurement^:^'', ha_unit p, json ''^''] else [])
         @ [json '',^device^:{^identifiers^:[^'', ha_device_name p,
            json ''^],^name^:^BACnet Bridge^,^manufacturer^:^Icomb Place^}}'']) buf 0))"

end
