(* ===== verification/Mqtt_Props.thy ===== *)
theory Mqtt_Props
  imports Mqtt
begin

text \<open>
  The packets of \<open>mqtt.rs\<close> on the wire: the size field and its decoder, every encoder as the writer
  of a fixed byte string, and a receiver that reads a stream of them, written after the MQTT 3.1.1
  standard and not after the code.
\<close>

section \<open>The size field\<close>

fun wire_remaining :: "nat \<Rightarrow> bytes" where
  "wire_remaining n = (if n < 128 then [of_nat n] else (of_nat (n mod 128) OR 0x80) # wire_remaining (n div 128))"

declare wire_remaining.simps [simp del]

lemma wire_remaining_small: "n < 128 \<Longrightarrow> wire_remaining n = [of_nat n]"
  by (simp add: wire_remaining.simps [of n])

lemma mq_write_u8_emit: "mq_write_u8 v = emit [v]"
  by (auto simp: fun_eq_iff mq_write_u8_def emit_def store_def overwrite_def upd_conv_take_nth_drop)

lemma mq_write_u16_emit: "mq_write_u16 v = emit (be16 v)"
proof -
  have "ucast (v AND 0xFF) = (ucast v :: u8)"
  proof (rule bit_word_eqI)
    have "(0xFF :: u16) = mask 8" by (simp add: mask_eq_exp_minus_1)
    then show "bit (ucast (v AND 0xFF) :: u8) k = bit (ucast v :: u8) k" if "k < LENGTH(8)" for k
      using that by (simp only: bit_simps) auto
  qed
  then show ?thesis by (auto simp: fun_eq_iff mq_write_u16_def emit_def put_eq be16_def)
qed

lemma write_bytes_emit: "pos \<le> length buf \<Longrightarrow> write_bytes bs buf pos = emit bs buf pos"
  by (auto simp: write_bytes_def emit_def copy_at_eq)

lemma remaining_loop_emit: "remaining_loop n = emit (wire_remaining n)"
proof (intro ext)
  fix buf pos
  show "remaining_loop n buf pos = emit (wire_remaining n) buf pos"
  proof (induction n buf pos rule: remaining_loop.induct)
    case (1 n buf pos)
    show ?case
    proof (cases "n < 128")
      case True
      then show ?thesis
        by (subst remaining_loop.simps, subst wire_remaining.simps) (simp add: mq_write_u8_emit Let_def)
    next
      case False
      let ?b = "of_nat (n mod 128) OR 0x80 :: u8"
      have "remaining_loop n buf pos = and_then (emit [?b] buf pos) (\<lambda>(b, p). remaining_loop (n div 128) b p)"
        using False by (subst remaining_loop.simps) (simp add: mq_write_u8_emit Let_def div_eq_0_iff)
      also have "\<dots> = and_then (emit [?b] buf pos) (\<lambda>(b, p). emit (wire_remaining (n div 128)) b p)"
      proof (cases "emit [?b] buf pos")
        case (Ok x)
        obtain b p where x: "x = (b, p)" by (cases x)
        have "remaining_loop (n div 128) b p = emit (wire_remaining (n div 128)) b p"
          using 1 [OF refl refl refl, of "(b, p)" b p] False Ok x by (simp add: mq_write_u8_emit div_eq_0_iff)
        then show ?thesis by (simp add: Ok x)
      qed simp_all
      finally show ?thesis
        using False by (subst wire_remaining.simps) (simp add: emit_emit)
    qed
  qed
qed

lemma write_remaining_emit: "n \<le> 268435455 \<Longrightarrow> write_remaining_length n = emit (wire_remaining n)"
  by (simp add: fun_eq_iff write_remaining_length_def remaining_loop_emit)

lemma wire_remaining_length:
  "n \<le> 268435455 \<Longrightarrow> length (wire_remaining n) = remaining_length_encoded_size n"
  by (simp add: remaining_length_encoded_size_def wire_remaining.simps [of n] wire_remaining.simps [of "n div 128"]
      wire_remaining.simps [of "n div 16384"] wire_remaining.simps [of "n div 2097152"]
      div_less_iff_less_mult not_less flip: div_mult2_eq)

lemma wire_remaining_not_Nil [simp]: "wire_remaining n \<noteq> []"
  by (simp add: wire_remaining.simps [of n])

lemma size_byte:
  assumes "d < 128"
  shows "unat (of_nat d AND 0x7F :: u8) = d" "(of_nat d :: u8) AND 0x80 = 0"
    "unat ((of_nat d OR 0x80) AND 0x7F :: u8) = d" "(of_nat d OR 0x80 :: u8) AND 0x80 \<noteq> 0"
proof -
  have m: "(0x7F :: u8) = mask 7" "(0x80 :: u8) = 2 ^ 7" by (simp_all add: mask_eq_exp_minus_1)
  have u: "unat (of_nat d :: u8) = d" using assms by (simp add: unat_of_nat)
  have t: "take_bit 7 (of_nat d :: u8) = of_nat d"
    using assms by (simp add: of_nat_take_bit [symmetric] take_bit_nat_eq_self)
  have b: "\<not> bit (of_nat d :: u8) 7"
    using arg_cong [OF t, of "\<lambda>w. bit w 7"] by (simp add: bit_take_bit_iff)
  show "unat (of_nat d AND 0x7F :: u8) = d" unfolding m(1) take_bit_eq_mask [symmetric] t by (rule u)
  show "(of_nat d :: u8) AND 0x80 = 0"
    unfolding m(2) and_exp_eq_0_iff_not_bit by (rule b)
  have "take_bit 7 (of_nat d OR 0x80 :: u8) = take_bit 7 (of_nat d)"
    by (rule bit_word_eqI) (auto simp only: m(2) bit_take_bit_iff bit_or_iff bit_exp_iff)
  then show "unat ((of_nat d OR 0x80) AND 0x7F :: u8) = d"
    unfolding m(1) take_bit_eq_mask [symmetric] using t u by simp
  have "bit ((of_nat d OR 0x80 :: u8) AND 0x80) 7" by (simp only: m(2) bit_and_iff bit_or_iff bit_exp_iff) simp
  then show "(of_nat d OR 0x80 :: u8) AND 0x80 \<noteq> 0" by auto
qed

lemma decode_remaining_loop_at:
  assumes "at data pos (wire_remaining n)" and "n * 128 ^ k < 2 ^ 28" and "v < 128 ^ k" and "k < 4"
  shows "decode_remaining_loop data pos (128 ^ k) v = Ok (v + n * 128 ^ k, pos + length (wire_remaining n))"
  using assms
proof (induction n arbitrary: pos k v rule: wire_remaining.induct)
  case (1 n)
  have p: "(128 :: nat) ^ 4 = 2 ^ 28" by simp
  show ?case
  proof (cases "n < 128")
    case True
    have "v + n * 128 ^ k < 2 ^ 32" using 1(3,4) power_increasing [of k 3 "128 :: nat"] 1(5) by simp
    with True 1(2) size_byte(1,2) [OF True] show ?thesis
      by (subst decode_remaining_loop.simps)
        (simp add: wire_remaining.simps [of n] at_Cons mq_read_u8_def idx_def checked_def)
  next
    case False
    let ?b = "of_nat (n mod 128) OR 0x80 :: u8"
    have a: "at data pos (?b # wire_remaining (n div 128))"
      using 1(2) False by (simp add: wire_remaining.simps [of n])
    have s: "n div 128 * 128 ^ Suc k + n mod 128 * 128 ^ k = n * 128 ^ k"
      using div_mult_mod_eq [of n 128] by (metis add_mult_distrib mult.assoc power_Suc)
    have "128 ^ Suc k \<le> n * 128 ^ k" using False by simp
    then have "(128 :: nat) ^ Suc k < 128 ^ 4" using 1(3) p by linarith
    then have k: "Suc k < 4" using power_less_imp_less_exp [of "128 :: nat" "Suc k" 4] by simp
    have v: "v + n mod 128 * 128 ^ k < 128 ^ Suc k"
    proof -
      have "n mod 128 * 128 ^ k \<le> 127 * 128 ^ k" by simp
      then show ?thesis using 1(4) unfolding power_Suc by linarith
    qed
    have k3: "(128 :: nat) ^ Suc k \<le> 128 ^ 3" using k by (intro power_increasing) simp_all
    have "n div 128 * 128 ^ Suc k < 2 ^ 28" using s 1(3) by linarith
    then have "decode_remaining_loop data (Suc pos) (128 ^ Suc k) (v + n mod 128 * 128 ^ k) =
        Ok (v + n mod 128 * 128 ^ k + n div 128 * 128 ^ Suc k, Suc pos + length (wire_remaining (n div 128)))"
      using a v k False by (intro 1(1)) (simp_all add: at_Cons)
    then show ?thesis
      using a v k3 False s size_byte(3,4) [of "n mod 128"]
      by (subst decode_remaining_loop.simps, subst wire_remaining.simps)
        (simp add: at_Cons mq_read_u8_def idx_def checked_def mult.commute)
  qed
qed

lemma decode_remaining_at:
  "at data pos (wire_remaining n) \<Longrightarrow> n \<le> 268435455 \<Longrightarrow>
   decode_remaining_length data pos = Ok (n, pos + length (wire_remaining n))"
  using decode_remaining_loop_at [of data pos n 0 0] by (simp add: decode_remaining_length_def)

section \<open>Packets\<close>

definition wire_str :: "bytes \<Rightarrow> bytes" where
  "wire_str s = be16 (of_nat (length s)) @ s"

definition packet :: "u8 \<Rightarrow> bytes \<Rightarrow> bytes" where
  "packet first_byte body = first_byte # wire_remaining (length body) @ body"

datatype mqtt_packet =
    Connect bytes u16 "bytes option" "bytes option"
  | Publish bytes bytes bool
  | Pingreq
  | Disconnect

definition flags_of :: "bytes option \<Rightarrow> bytes option \<Rightarrow> u8" where
  "flags_of user pass = 2 + (if user \<noteq> None then 128 else 0) + (if pass \<noteq> None then 64 else 0)"

definition wire_option :: "bytes option \<Rightarrow> bytes" where
  "wire_option v = (case v of Some s \<Rightarrow> wire_str s | None \<Rightarrow> [])"

fun wire_packet :: "mqtt_packet \<Rightarrow> bytes" where
  "wire_packet (Connect client keep user pass) =
     packet 0x10 (wire_str (str ''MQTT'') @ [4, flags_of user pass] @ be16 keep @ wire_str client
       @ wire_option user @ wire_option pass)"
| "wire_packet (Publish topic payload retain) = packet (if retain then 0x31 else 0x30) (wire_str topic @ payload)"
| "wire_packet Pingreq = [0xC0, 0x00]"
| "wire_packet Disconnect = [0xE0, 0x00]"

text \<open>The encoder of each packet, on a buffer.\<close>

fun encode_packet :: "bytes \<Rightarrow> mqtt_packet \<Rightarrow> (EncodeError, bytes \<times> nat) result" where
  "encode_packet buf (Connect client keep user pass) = encode_connect buf client keep user pass"
| "encode_packet buf (Publish topic payload retain) = encode_publish buf topic payload retain"
| "encode_packet buf Pingreq = encode_pingreq buf"
| "encode_packet buf Disconnect = encode_disconnect buf"

fun strings_of :: "mqtt_packet \<Rightarrow> bytes list" where
  "strings_of (Connect client keep user pass) = client # (case user of Some u \<Rightarrow> [u] | None \<Rightarrow> [])
     @ (case pass of Some p \<Rightarrow> [p] | None \<Rightarrow> [])"
| "strings_of (Publish topic payload retain) = [topic]"
| "strings_of _ = []"

definition short_strings :: "mqtt_packet \<Rightarrow> bool" where
  "short_strings p \<longleftrightarrow> (\<forall>s \<in> set (strings_of p). length s \<le> 0xFFFF)"

text \<open>Steps of an encoder that starts at the beginning of the buffer.\<close>

lemma write_bytes_step:
  "and_then (emit as buf 0) (\<lambda>(b, p). and_then (write_bytes bs b p) k) = and_then (emit (as @ bs) buf 0) k"
proof (cases "length as \<le> length buf")
  case True
  then show ?thesis by (intro emit_step) (simp_all add: write_bytes_emit)
qed (auto simp: emit_def)

lemma write_str_step:
  assumes "length s \<le> 0xFFFF"
  shows "and_then (emit as buf 0) (\<lambda>(b, p). and_then (write_mqtt_str s b p) k) = and_then (emit (as @ wire_str s) buf 0) k"
proof -
  have "and_then (emit as buf 0) (\<lambda>(b, p). and_then (write_mqtt_str s b p) k) =
      and_then (emit as buf 0) (\<lambda>(b, p). and_then (emit (be16 (of_nat (length s))) b p) (\<lambda>(b, p). and_then (write_bytes s b p) k))"
    using assms by (simp add: write_mqtt_str_def mq_write_u16_emit and_then_assoc case_prod_unfold)
  also have "\<dots> = and_then (emit (as @ wire_str s) buf 0) k"
    by (simp add: emit_emit_then write_bytes_step wire_str_def)
  finally show ?thesis .
qed

lemma write_option_step:
  assumes "case v of Some s \<Rightarrow> length s \<le> 0xFFFF | None \<Rightarrow> True"
  shows "and_then (emit as buf 0) (\<lambda>(b, p). and_then (case v of Some s \<Rightarrow> write_mqtt_str s b p | None \<Rightarrow> Ok (b, p)) k) =
    and_then (emit (as @ wire_option v) buf 0) k"
proof (cases v)
  case (Some s)
  then show ?thesis using assms write_str_step [of s as buf k] by (simp add: wire_option_def)
qed (simp add: wire_option_def case_prod_unfold)

lemmas write_ends = write_bytes_step [where k = Ok, simplified] write_str_step [where k = Ok, simplified]
  write_option_step [where k = Ok, simplified]

lemma length_wire_str: "length (wire_str s) = 2 + length s"
  by (simp add: wire_str_def)

lemma length_packet:
  "length body \<le> 268435455 \<Longrightarrow> length (packet b body) = 1 + remaining_length_encoded_size (length body) + length body"
  by (simp add: packet_def wire_remaining_length)

lemma emit_guard:
  "(if length w > length buf then Err BufferTooSmall else emit w buf 0) = emit w buf 0"
  by (auto simp: emit_def)

lemma encode_publish_emit:
  assumes "length topic \<le> 0xFFFF" and "length buf \<le> 268435455"
  shows "encode_publish buf topic payload retain = emit (wire_packet (Publish topic payload retain)) buf 0"
proof -
  let ?body = "wire_str topic @ payload"
  let ?first = "if retain then 0x31 else 0x30 :: u8"
  have n: "2 + length topic + length payload = length ?body" by (simp add: length_wire_str)
  have f: "push_bit 4 PACKET_TYPE_PUBLISH OR (if retain then 0x01 else 0x00) = ?first"
    by (simp add: PACKET_TYPE_PUBLISH_def)
  show ?thesis
  proof (cases "1 + remaining_length_encoded_size (length ?body) + length ?body > length buf")
    case True
    then have "length buf < length (packet ?first ?body)"
      using length_packet [of ?body ?first] assms(2) by (cases "length ?body \<le> 268435455") (auto simp: packet_def)
    with True assms(1) show ?thesis
      unfolding encode_publish_def n by (simp add: emit_def Let_def packet_def)
  next
    case False
    then have r: "length ?body \<le> 268435455" using assms(2) by linarith
    from False assms(1) have "encode_publish buf topic payload retain =
        and_then (emit [?first] buf 0) (\<lambda>(buf, pos).
        and_then (emit (wire_remaining (length ?body)) buf pos) (\<lambda>(buf, pos).
        and_then (emit (be16 (of_nat (length topic))) buf pos) (\<lambda>(buf, pos).
        and_then (write_bytes topic buf pos) (\<lambda>(buf, pos). write_bytes payload buf pos))))"
      unfolding encode_publish_def n f Let_def mq_write_u8_emit mq_write_u16_emit write_remaining_emit [OF r] by simp
    also have "\<dots> = emit (wire_packet (Publish topic payload retain)) buf 0"
      by (simp add: emit_emit_then write_bytes_step write_ends packet_def wire_str_def)
    finally show ?thesis .
  qed
qed

lemma encode_connect_emit:
  assumes "short_strings (Connect client keep user pass)" and "length buf \<le> 268435455"
  shows "encode_connect buf client keep user pass = emit (wire_packet (Connect client keep user pass)) buf 0"
proof -
  define body where "body = wire_str (str ''MQTT'') @ [4, flags_of user pass] @ be16 keep @ wire_str client @ wire_option user @ wire_option pass"
  have n: "10 + (2 + length client + (case user of Some u \<Rightarrow> 2 + length u | None \<Rightarrow> 0)
      + (case pass of Some p \<Rightarrow> 2 + length p | None \<Rightarrow> 0)) = length body"
    by (simp add: body_def length_wire_str wire_option_def split: option.splits)
  have c: "length client \<le> 0xFFFF" and u: "case user of Some s \<Rightarrow> length s \<le> 0xFFFF | None \<Rightarrow> True"
    and w: "case pass of Some s \<Rightarrow> length s \<le> 0xFFFF | None \<Rightarrow> True"
    using assms(1) by (auto simp: short_strings_def split: option.splits)
  have fl: "(if pass \<noteq> None
        then (if user \<noteq> None then CONNECT_FLAG_CLEAN_SESSION OR CONNECT_FLAG_USERNAME else CONNECT_FLAG_CLEAN_SESSION)
             OR CONNECT_FLAG_PASSWORD
        else if user \<noteq> None then CONNECT_FLAG_CLEAN_SESSION OR CONNECT_FLAG_USERNAME else CONNECT_FLAG_CLEAN_SESSION)
      = flags_of user pass"
    by (simp add: flags_of_def connect_flags)
  have wp: "wire_packet (Connect client keep user pass) = packet 0x10 body" by (simp add: body_def)
  show ?thesis
  proof (cases "1 + remaining_length_encoded_size (length body) + length body > length buf")
    case True
    have r: "length body \<le> 268435455"
      using c u w by (simp add: body_def length_wire_str wire_option_def split: option.splits)
    from True show ?thesis
      unfolding encode_connect_def Let_def n wp using length_packet [OF r, of "0x10"] by (simp add: emit_def packet_def)
  next
    case False
    then have r: "length body \<le> 268435455" using assms(2) by linarith
    have f: "push_bit 4 PACKET_TYPE_CONNECT = (0x10 :: u8)" by (simp add: packet_types)
    from False have "encode_connect buf client keep user pass =
        and_then (emit [0x10] buf 0) (\<lambda>(buf, pos).
        and_then (emit (wire_remaining (length body)) buf pos) (\<lambda>(buf, pos).
        and_then (emit (be16 4) buf pos) (\<lambda>(buf, pos).
        and_then (write_bytes (str ''MQTT'') buf pos) (\<lambda>(buf, pos).
        and_then (emit [4] buf pos) (\<lambda>(buf, pos).
        and_then (emit [flags_of user pass] buf pos) (\<lambda>(buf, pos).
        and_then (emit (be16 keep) buf pos) (\<lambda>(buf, pos).
        and_then (write_mqtt_str client buf pos) (\<lambda>(buf, pos).
        and_then (case user of Some u \<Rightarrow> write_mqtt_str u buf pos | None \<Rightarrow> Ok (buf, pos)) (\<lambda>(buf, pos).
          case pass of Some p \<Rightarrow> write_mqtt_str p buf pos | None \<Rightarrow> Ok (buf, pos))))))))))"
      unfolding encode_connect_def Let_def n f fl mq_write_u8_emit mq_write_u16_emit write_remaining_emit [OF r]
      by simp
    also have "\<dots> = emit (wire_packet (Connect client keep user pass)) buf 0"
      by (simp add: emit_emit_then write_bytes_step write_str_step [OF c] write_option_step [OF u] write_option_step [OF w]
          write_option_step [OF w, where k = Ok, simplified] packet_def body_def wire_str_def)
    finally show ?thesis .
  qed
qed

lemma encode_short_emit:
  "encode_pingreq buf = emit (wire_packet Pingreq) buf 0" "encode_disconnect buf = emit (wire_packet Disconnect) buf 0"
  by (auto simp: encode_pingreq_def encode_disconnect_def emit_def put_eq packet_types)

lemma encode_packet_emit:
  "short_strings p \<Longrightarrow> length buf \<le> 268435455 \<Longrightarrow> encode_packet buf p = emit (wire_packet p) buf 0"
proof (cases p)
  case (Publish topic payload retain)
  then show "short_strings p \<Longrightarrow> length buf \<le> 268435455 \<Longrightarrow> ?thesis"
    using encode_publish_emit [of topic buf payload retain] by (simp add: short_strings_def del: wire_packet.simps)
qed (simp_all add: encode_connect_emit encode_short_emit del: wire_packet.simps)

section \<open>A receiver\<close>

definition take_str :: "bytes \<Rightarrow> (bytes \<times> bytes) option" where
  "take_str bs = (case bs of
     a # b # r \<Rightarrow> (let n = unat (of_be16 a b) in if n \<le> length r then Some (take n r, drop n r) else None)
   | _ \<Rightarrow> None)"

definition take_flagged :: "bool \<Rightarrow> bytes \<Rightarrow> (bytes option \<times> bytes) option" where
  "take_flagged present bs =
     (if present then map_option (\<lambda>(s, r). (Some s, r)) (take_str bs) else Some (None, bs))"

definition read_connect :: "bytes \<Rightarrow> mqtt_packet option" where
  "read_connect bs =
     Option.bind (take_str bs) (\<lambda>(protocol, bs).
     case bs of
       level # flags # k1 # k2 # bs \<Rightarrow>
         if protocol = str ''MQTT'' \<and> level = 4 then
           Option.bind (take_str bs) (\<lambda>(client, bs).
           Option.bind (take_flagged (flags AND 0x80 \<noteq> 0) bs) (\<lambda>(user, bs).
           Option.bind (take_flagged (flags AND 0x40 \<noteq> 0) bs) (\<lambda>(pass, bs).
             if bs = [] then Some (Connect client (of_be16 k1 k2) user pass) else None)))
         else None
     | _ \<Rightarrow> None)"

definition read_packet :: "u8 \<Rightarrow> u8 \<Rightarrow> bytes \<Rightarrow> mqtt_packet option" where
  "read_packet t first_byte body =
     (if t = 1 then read_connect body
      else if t = 3 then map_option (\<lambda>(topic, payload). Publish topic payload (first_byte AND 1 \<noteq> 0)) (take_str body)
      else if t = 12 \<and> body = [] then Some Pingreq
      else if t = 14 \<and> body = [] then Some Disconnect
      else None)"

text \<open>
  A stream is cut where \<open>decode_packet_type\<close> says, the body starting after the size field, as the
  comment of that function asks its caller to do.
\<close>

function receive :: "bytes \<Rightarrow> mqtt_packet list option" where
  "receive bs =
     (if bs = [] then Some []
      else case decode_packet_type bs of
        Ok (t, n) \<Rightarrow>
          let p = 1 + remaining_length_encoded_size n in
          if p + n \<le> length bs then
            Option.bind (read_packet t (hd bs) (take n (drop p bs)))
              (\<lambda>x. map_option ((#) x) (receive (drop (p + n) bs)))
          else None
      | _ \<Rightarrow> None)"
  by pat_completeness auto
termination by (relation "measure length") auto

declare receive.simps [simp del]

lemma take_str_wire: "length s \<le> 0xFFFF \<Longrightarrow> take_str (wire_str s @ r) = Some (s, r)"
proof -
  assume "length s \<le> 0xFFFF"
  then have "unat (of_nat (length s) :: u16) = length s" by (simp add: unat_of_nat)
  then show ?thesis by (simp add: take_str_def wire_str_def be16_def)
qed

lemma take_flagged_wire:
  "case v of Some s \<Rightarrow> length s \<le> 0xFFFF | None \<Rightarrow> True \<Longrightarrow> take_flagged (v \<noteq> None) (wire_option v @ r) = Some (v, r)"
  by (cases v) (simp_all add: take_flagged_def wire_option_def take_str_wire)

lemma flag_bits: "flags_of user pass AND 0x80 \<noteq> 0 \<longleftrightarrow> user \<noteq> None" "flags_of user pass AND 0x40 \<noteq> 0 \<longleftrightarrow> pass \<noteq> None"
  by (simp_all add: flags_of_def)

lemma read_packet_wire:
  assumes "short_strings p"
  shows "\<exists>b body. wire_packet p = packet b body \<and> read_packet (drop_bit 4 b AND 0x0F) b body = Some p"
proof (cases p)
  case (Connect client keep user pass)
  let ?body = "wire_str (str ''MQTT'') @ [4, flags_of user pass] @ be16 keep @ wire_str client @ wire_option user @ wire_option pass"
  have c: "length client \<le> 0xFFFF" and u: "case user of Some s \<Rightarrow> length s \<le> 0xFFFF | None \<Rightarrow> True"
    and w: "case pass of Some s \<Rightarrow> length s \<le> 0xFFFF | None \<Rightarrow> True"
    using assms by (auto simp: Connect short_strings_def split: option.splits)
  have "read_connect ?body = Some p"
    using take_str_wire [OF c] take_flagged_wire [OF u] take_flagged_wire [OF w, of "[]"] take_str_wire [of "str ''MQTT''"]
    by (simp add: read_connect_def flag_bits be16_def Connect del: not_None_eq)
  then show ?thesis by (intro exI [of _ "0x10"] exI [of _ ?body]) (simp add: Connect read_packet_def)
next
  case (Publish topic payload retain)
  let ?b = "if retain then 0x31 else 0x30 :: u8"
  have "length topic \<le> 0xFFFF" using assms by (simp add: Publish short_strings_def)
  from take_str_wire [OF this] show ?thesis
    by (intro exI [of _ ?b] exI [of _ "wire_str topic @ payload"]) (simp add: Publish read_packet_def)
next
  case Pingreq
  then show ?thesis
    by (intro exI [of _ "0xC0"] exI [of _ "[]"]) (simp add: packet_def wire_remaining.simps [of 0] read_packet_def)
next
  case Disconnect
  then show ?thesis
    by (intro exI [of _ "0xE0"] exI [of _ "[]"]) (simp add: packet_def wire_remaining.simps [of 0] read_packet_def)
qed

lemma decode_packet_type_at:
  assumes "length body \<le> 268435455"
  shows "decode_packet_type (packet b body @ rest) = Ok (drop_bit 4 b AND 0x0F, length body)"
proof -
  have "at (packet b body @ rest) 1 (wire_remaining (length body))"
    by (simp add: packet_def at_Cons at_def)
  from decode_remaining_at [OF this assms] show ?thesis
    by (simp add: decode_packet_type_def idx_def packet_def)
qed

lemma receive_packet:
  assumes "short_strings p" and "length (wire_packet p) \<le> 268435455"
  shows "receive (wire_packet p @ rest) = map_option ((#) p) (receive rest)"
proof -
  obtain b body where w: "wire_packet p = packet b body" and r: "read_packet (drop_bit 4 b AND 0x0F) b body = Some p"
    using read_packet_wire [OF assms(1)] by blast
  have l: "length body \<le> 268435455" using assms(2) w by (simp add: packet_def)
  let ?h = "1 + remaining_length_encoded_size (length body)"
  define d where "d = packet b body @ rest"
  have "d = (b # wire_remaining (length body)) @ body @ rest" by (simp add: packet_def d_def)
  moreover have "length (b # wire_remaining (length body)) = ?h" by (simp add: wire_remaining_length [OF l])
  ultimately have h: "drop ?h d = body @ rest" by (metis append_eq_conv_conj)
  then have "drop (?h + length body) d = rest" by (metis add.commute append_eq_conv_conj drop_drop)
  moreover have "?h + length body \<le> length d" using length_packet [OF l, of b] by (simp add: d_def)
  moreover have "d \<noteq> []" "hd d = b" by (simp_all add: packet_def d_def)
  moreover have "decode_packet_type d = Ok (drop_bit 4 b AND 0x0F, length body)"
    unfolding d_def by (rule decode_packet_type_at [OF l])
  ultimately show ?thesis
    unfolding w d_def [symmetric] using r h by (subst receive.simps) (simp add: Let_def)
qed

lemma encode_strings_short:
  assumes "encode_packet buf p = Ok r"
  shows "short_strings p"
  using assms
  by (cases p)
    (auto simp: short_strings_def encode_publish_def encode_connect_def Let_def and_then_eq_Ok write_mqtt_str_def
      split: if_splits option.splits)

text \<open>What a session has sent: each element is what one encoder call has written into its buffer.\<close>

definition sends :: "mqtt_packet \<Rightarrow> bytes \<Rightarrow> bool" where
  "sends p bs \<longleftrightarrow> (\<exists>buf b n. length buf \<le> 268435455 \<and> encode_packet buf p = Ok (b, n) \<and> bs = take n b)"

lemma sends_wire:
  assumes "sends p bs"
  shows "bs = wire_packet p" "short_strings p" "length (wire_packet p) \<le> 268435455"
proof -
  obtain buf b n where l: "length buf \<le> 268435455" and e: "encode_packet buf p = Ok (b, n)" and t: "bs = take n b"
    using assms by (auto simp: sends_def)
  show s: "short_strings p" by (rule encode_strings_short [OF e])
  from e l have "emit (wire_packet p) buf 0 = Ok (b, n)" by (simp add: encode_packet_emit [OF s])
  moreover have "wire_packet p \<noteq> []" by (cases p) (simp_all add: packet_def)
  ultimately show "bs = wire_packet p" "length (wire_packet p) \<le> 268435455"
    using t l emit_take by (auto simp: emit_Ok_iff)
qed

lemma receive_sent: "list_all2 sends ps bss \<Longrightarrow> receive (concat bss) = Some ps"
proof (induction rule: list_all2_induct)
  case Nil
  show ?case by (simp add: receive.simps)
next
  case (Cons p ps bs bss)
  from sends_wire [OF Cons(1)] Cons.IH show ?case by (simp add: receive_packet)
qed

text \<open>
  Whatever sequence of packets the encoders have written, one after the other on one connection,
  the receiver reads back exactly that sequence, cutting the stream with \<open>decode_packet_type\<close>.
\<close>

theorem mqtt_stream:
  assumes "list_all2 sends ps bss"
  shows "receive (concat bss) = Some ps"
  using assms by (rule receive_sent)

lemma mqtt_stream_witness:
  "receive ([0x30, 0x05, 0x00, 0x01, 116, 52, 50] @ [0xC0, 0x00]) = Some [Publish [116] [52, 50] False, Pingreq]"
proof -
  have p: "wire_packet (Publish [116] [52, 50] False) = [0x30, 0x05, 0x00, 0x01, 116, 52, 50]"
    by (simp add: packet_def wire_str_def be16_def wire_remaining_small)
  have "sends (Publish [116] [52, 50] False) [0x30, 0x05, 0x00, 0x01, 116, 52, 50]"
    unfolding sends_def
    by (rule exI [of _ "replicate 9 0"])
      (simp add: encode_publish_emit p emit_def overwrite_def del: wire_packet.simps)
  moreover have "sends Pingreq [0xC0, 0x00]"
    unfolding sends_def by (rule exI [of _ "[0, 0]"]) (simp add: encode_short_emit emit_def overwrite_def)
  ultimately show ?thesis
    using mqtt_stream [of "[Publish [116] [52, 50] False, Pingreq]" "[[0x30, 0x05, 0x00, 0x01, 116, 52, 50], [0xC0, 0x00]]"]
    by simp
qed

end
