(* ===== verification/Mqtt_Task.thy ===== *)
theory Mqtt_Task
  imports Mqtt_Props Bridge
begin

text \<open>
  The MQTT client task, \<open>firmware/src/mqtt.rs\<close>: one session on an open connection, from the CONNECT
  packet over the discovery messages to the publishing loop.

  A connection keeps the writes that have reached the broker and the number of writes it will still
  accept; a plain and a TLS connection behave alike here. The bridge state is locked once per point;
  the model runs a round without another task in between. Name resolution, the TCP connection, the
  TLS handshake and the timers are outside the model.
\<close>

section \<open>Constants\<close>

definition KEEP_ALIVE_SECS :: u16 where "KEEP_ALIVE_SECS = 60"
definition CLIENT_ID :: bytes where "CLIENT_ID = str ''bacnet-bridge''"
definition TOPIC_PREFIX :: bytes where "TOPIC_PREFIX = str ''bacnet-bridge''"
definition HA_DISCOVERY_PREFIX :: bytes where "HA_DISCOVERY_PREFIX = str ''homeassistant''"
definition POLL_INTERVAL_MS :: "64 word" where "POLL_INTERVAL_MS = 1000"

record Connection =
  written_packets :: "bytes list"
  writes_left :: nat

definition write_all :: "bytes \<Rightarrow> Connection \<Rightarrow> Connection option" where
  "write_all bs c =
     (case writes_left c of
        0 \<Rightarrow> None
      | Suc n \<Rightarrow> Some (c\<lparr>written_packets := written_packets c @ [bs], writes_left := n\<rparr>))"

section \<open>Values and topics\<close>

fun object_type_str :: "ObjectType \<Rightarrow> bytes" where
  "object_type_str AnalogInput = str ''analog-input''"
| "object_type_str AnalogOutput = str ''analog-output''"
| "object_type_str AnalogValue = str ''analog-value''"
| "object_type_str BinaryInput = str ''binary-input''"
| "object_type_str BinaryOutput = str ''binary-output''"
| "object_type_str BinaryValue = str ''binary-value''"
| "object_type_str Calendar = str ''calendar''"
| "object_type_str Device = str ''device''"
| "object_type_str MultiStateInput = str ''multi-state-input''"
| "object_type_str MultiStateOutput = str ''multi-state-output''"
| "object_type_str NotificationClass = str ''notification-class''"
| "object_type_str Schedule = str ''schedule''"
| "object_type_str MultiStateValue = str ''multi-state-value''"
| "object_type_str TrendLog = str ''trend-log''"

definition build_state_topic :: "bytes \<Rightarrow> bytes \<Rightarrow> u32 \<Rightarrow> bytes option" where
  "build_state_topic prefix type_str inst =
     push_all 128 [] [prefix, str ''/'', type_str, str ''/'', dec_digits (unat inst), str ''/state'']"

text \<open>\<open>for &b in &bytes[..n] { if s.push(b as char).is_err() { break; } }\<close>\<close>

fun push_latin1_until :: "nat \<Rightarrow> bytes \<Rightarrow> bytes \<Rightarrow> bytes" where
  "push_latin1_until cap s [] = s"
| "push_latin1_until cap s (b # bs) =
     (case push_str cap s (if b < 0x80 then [b] else [0xC0 OR drop_bit 6 b, 0x80 OR (b AND 0x3F)]) of
        None \<Rightarrow> s | Some s' \<Rightarrow> push_latin1_until cap s' bs)"

fun format_value :: "BacnetValue option \<Rightarrow> bytes" where
  "format_value None = push_ignore 32 [] (str ''null'')"
| "format_value (Some Null) = push_ignore 32 [] (str ''null'')"
| "format_value (Some (Boolean b)) = push_ignore 32 [] (if b then str ''true'' else str ''false'')"
| "format_value (Some (UnsignedInt v)) = push_until 32 [] [dec_digits (unat v)]"
| "format_value (Some (SignedInt v)) = push_until 32 [] (dec_int (sint v))"
| "format_value (Some (Real f)) =
     (let int_part = f32_to_i32 f;
          frac_abs = f32_to_u32 (f32_abs (f32_mul (f32_sub f (f32_of_i32 int_part)) (f32_of_u32 100))) in
      push_until 32 [] (dec_int (sint int_part) @ [str ''.''] @ dec_padded 2 (unat frac_abs)))"
| "format_value (Some (CharString cs)) = push_latin1_until 32 [] (take (min (length cs) 31) cs)"
| "format_value (Some (Enumerated v)) = push_until 32 [] [dec_digits (unat v)]"
| "format_value (Some (ObjectIdentifier oid)) =
     push_until 32 [] [dec_digits (unat (object_type_code (object_type oid))), str '':'', dec_digits (unat (instance_no oid))]"

section \<open>Publishing\<close>

type_synonym publisher = "BridgeStateInner \<times> Connection"

text \<open>
  One packet: an encoder error skips it, a write error is reported (\<open>False\<close>). The encoder does not
  panic (\<open>encode_publish_emit\<close>).
\<close>

definition send_publish :: "nat \<Rightarrow> bytes \<Rightarrow> bytes \<Rightarrow> bool \<Rightarrow> Connection \<Rightarrow> Connection \<times> bool" where
  "send_publish cap topic payload retain c =
     (case encode_publish (replicate cap 0) topic payload retain of
        Ok (buf, n) \<Rightarrow> (case write_all (take n buf) c of Some c' \<Rightarrow> (c', True) | None \<Rightarrow> (c, False))
      | _ \<Rightarrow> (c, True))"

definition publish_point :: "nat \<Rightarrow> nat \<Rightarrow> publisher \<Rightarrow> publisher \<times> bool" where
  "publish_point dev i = (\<lambda>(s, c).
     case bs_points s ! dev ! i of
       None \<Rightarrow> ((s, c), True)
     | Some p \<Rightarrow>
         if \<not> pe_dirty p then ((s, c), True)
         else
           let s' = set_point s dev i (Some (p\<lparr>pe_dirty := False\<rparr>));
               value_str = format_value (pe_present_value p) in
           case build_state_topic TOPIC_PREFIX (object_type_str (object_type (pe_object_id p))) (instance_no (pe_object_id p)) of
             None \<Rightarrow> ((s', c), True)
           | Some topic \<Rightarrow> (let (c', ok) = send_publish 256 topic value_str False c in ((s', c'), ok)))"

fun publish_points_of :: "nat \<Rightarrow> nat list \<Rightarrow> publisher \<Rightarrow> publisher \<times> bool" where
  "publish_points_of dev [] st = (st, True)"
| "publish_points_of dev (i # is) st =
     (let (st', ok) = publish_point dev i st in if ok then publish_points_of dev is st' else (st', False))"

fun publish_devices :: "nat list \<Rightarrow> publisher \<Rightarrow> publisher \<times> bool" where
  "publish_devices [] st = (st, True)"
| "publish_devices (dev # devs) st =
     (let (st', ok) = publish_points_of dev [0..<point_counts (fst st) ! dev] st in
      if ok then publish_devices devs st' else (st', False))"

definition publish_dirty_points :: "publisher \<Rightarrow> publisher \<times> bool" where
  "publish_dirty_points st = publish_devices [0..<device_count (fst st)] st"

section \<open>Discovery\<close>

text \<open>The announcement of one point; \<open>False\<close> when the connection is dead.\<close>

definition announce_point :: "bytes \<Rightarrow> PointEntry \<Rightarrow> Connection \<Rightarrow> Connection \<times> bool" where
  "announce_point dev_name pt c =
     (let type_str = object_type_str (object_type (pe_object_id pt));
          inst = instance_no (pe_object_id pt);
          point_name = (if pe_name pt = [] then type_str else pe_name pt) in
      case build_state_topic TOPIC_PREFIX type_str inst of
        None \<Rightarrow> (c, True)
      | Some state_topic \<Rightarrow>
          let device_name = (if dev_name = [] then CLIENT_ID else dev_name) in
          case ha_discovery_topic [] HA_DISCOVERY_PREFIX device_name type_str inst of
            Ok disc_topic \<Rightarrow>
              (case format_ha_discovery (replicate 512 0)
                  \<lparr>ha_prefix = HA_DISCOVERY_PREFIX, ha_device_name = device_name, ha_point_name = point_name,
                   ha_object_type = type_str, ha_object_instance = inst, ha_unit = [], ha_state_topic = state_topic\<rparr> of
                 Ok (payload, n) \<Rightarrow> send_publish 700 disc_topic (take n payload) True c
               | _ \<Rightarrow> (c, True))
          | _ \<Rightarrow> (c, True))"

fun announce_points :: "BridgeStateInner \<Rightarrow> nat \<Rightarrow> nat list \<Rightarrow> Connection \<Rightarrow> Connection \<times> bool" where
  "announce_points s dev [] c = (c, True)"
| "announce_points s dev (i # is) c =
     (case bs_points s ! dev ! i of
        None \<Rightarrow> announce_points s dev is c
      | Some pt \<Rightarrow>
          (let (c', ok) = announce_point (de_name (devices s ! dev)) pt c in
           if ok then announce_points s dev is c' else (c', False)))"

fun announce_devices :: "BridgeStateInner \<Rightarrow> nat list \<Rightarrow> Connection \<Rightarrow> Connection" where
  "announce_devices s [] c = c"
| "announce_devices s (dev # devs) c =
     (if de_device_id (devices s ! dev) = 0 then announce_devices s devs c
      else
        let (c', ok) = announce_points s dev [0..<point_counts s ! dev] c in
        if ok then announce_devices s devs c' else c')"

definition publish_ha_discovery :: "BridgeStateInner \<Rightarrow> Connection \<Rightarrow> Connection" where
  "publish_ha_discovery s c = announce_devices s [0..<device_count s] c"

section \<open>A session\<close>

text \<open>One round of the loop: the tick counter, the state, and whether the session goes on.\<close>

definition ping_interval_ticks :: nat where
  "ping_interval_ticks = max (unat KEEP_ALIVE_SECS div 2) 1 * (1000 div unat POLL_INTERVAL_MS)"

definition session_round :: "nat \<times> publisher \<Rightarrow> (nat \<times> publisher) \<times> bool" where
  "session_round = (\<lambda>(ticks, st).
     let ((s, c), ok) = publish_dirty_points st in
     if \<not> ok then ((ticks, (s, c)), False)
     else
       let ticks = ticks + 1 in
       if ticks \<ge> ping_interval_ticks then
         (case encode_pingreq (replicate 2 0) of
            Ok (buf, n) \<Rightarrow> (case write_all (take n buf) c of Some c' \<Rightarrow> ((0, (s, c')), True) | None \<Rightarrow> ((0, (s, c)), False))
          | _ \<Rightarrow> ((0, (s, c)), True))
       else ((ticks, (s, c)), True))"

definition try_disconnect :: "Connection \<Rightarrow> Connection" where
  "try_disconnect c =
     (case encode_disconnect (replicate 2 0) of
        Ok (buf, n) \<Rightarrow> (case write_all (take n buf) c of Some c' \<Rightarrow> c' | None \<Rightarrow> c)
      | _ \<Rightarrow> c)"

text \<open>
  The loop over the bridge states it meets: other tasks change the state between two rounds, so each
  round starts from a state of the list. The session is still running at the end of the list
  unless a write has failed.
\<close>

fun session_loop :: "nat \<Rightarrow> Connection \<Rightarrow> BridgeStateInner list \<Rightarrow> Connection" where
  "session_loop ticks c [] = c"
| "session_loop ticks c (s # ss) =
     (let ((ticks', (s', c')), running) = session_round (ticks, (s, c)) in
      if running then session_loop ticks' c' ss else try_disconnect c')"

text \<open>\<open>connack\<close> is what was read within the timeout, \<open>None\<close> on a timeout or a read error.\<close>

definition mqtt_session :: "bytes option \<Rightarrow> BridgeStateInner list \<Rightarrow> Connection \<Rightarrow> Connection" where
  "mqtt_session connack states c =
     (case encode_connect (replicate 128 0) CLIENT_ID KEEP_ALIVE_SECS None None of
        Ok (buf, n) \<Rightarrow>
          (case write_all (take n buf) c of
             None \<Rightarrow> c
           | Some c \<Rightarrow>
               (case connack of
                  None \<Rightarrow> c
                | Some resp \<Rightarrow>
                    (case decode_connack resp of
                       Ok True \<Rightarrow>
                         (let c = (case states of [] \<Rightarrow> c | s # _ \<Rightarrow> publish_ha_discovery s c) in
                          session_loop 0 c states)
                     | _ \<Rightarrow> c)))
      | _ \<Rightarrow> c)"

end
