(* ===== verification/Mqtt_Task_Props.thy ===== *)
theory Mqtt_Task_Props
  imports Mqtt_Task
begin

text \<open>
  What the MQTT task sends: one round publishes every changed point once and marks it clean, and
  everything a session writes is a sequence of packets the receiver reads back.
\<close>

section \<open>Sizes\<close>

lemma push_latin1_until_length: "length s \<le> cap \<Longrightarrow> length (push_latin1_until cap s bs) \<le> cap"
  by (induction cap s bs rule: push_latin1_until.induct) (auto simp: push_str_def)

lemma format_value_length: "length (format_value v) \<le> 32"
  by (cases v rule: format_value.cases)
    (simp_all add: push_ignore_length push_until_length push_latin1_until_length Let_def
      del: push_until.simps(2))

lemma object_type_str_length: "length (object_type_str t) \<le> 18"
  by (cases t) simp_all

definition state_topic :: "PointEntry \<Rightarrow> bytes" where
  "state_topic p = TOPIC_PREFIX @ str ''/'' @ object_type_str (object_type (pe_object_id p)) @ str ''/''
     @ dec_digits (unat (instance_no (pe_object_id p))) @ str ''/state''"

lemma state_topic_length: "length (state_topic p) \<le> 49"
  using object_type_str_length [of "object_type (pe_object_id p)"] dec_u32_length [of "instance_no (pe_object_id p)"]
  by (simp add: state_topic_def TOPIC_PREFIX_def)

lemma build_state_topic_eq:
  "build_state_topic TOPIC_PREFIX (object_type_str (object_type (pe_object_id p))) (instance_no (pe_object_id p)) =
   Some (state_topic p)"
  using state_topic_length [of p] by (simp add: build_state_topic_def push_all_eq state_topic_def)

section \<open>One message\<close>

definition message :: "PointEntry \<Rightarrow> mqtt_packet" where
  "message p = Publish (state_topic p) (format_value (pe_present_value p)) False"

lemma length_message: "length (wire_packet (message p)) \<le> 256"
proof -
  have "length (wire_str (state_topic p) @ format_value (pe_present_value p)) \<le> 83"
    using state_topic_length [of p] format_value_length [of "pe_present_value p"] by (simp add: length_wire_str)
  then show ?thesis
    by (simp add: message_def length_packet remaining_length_encoded_size_def)
qed

lemma send_publish_message:
  "send_publish 256 (state_topic p) (format_value (pe_present_value p)) False c =
     (case write_all (wire_packet (message p)) c of Some c' \<Rightarrow> (c', True) | None \<Rightarrow> (c, False))"
proof -
  have "length (state_topic p) \<le> 0xFFFF" using state_topic_length [of p] by simp
  from encode_publish_emit [OF this, of "replicate 256 0" "format_value (pe_present_value p)" False]
  have "encode_publish (replicate 256 0) (state_topic p) (format_value (pe_present_value p)) False =
      emit (wire_packet (message p)) (replicate 256 0) 0"
    by (simp add: message_def)
  then show ?thesis
    using length_message [of p] by (simp add: send_publish_def emit_def)
qed

text \<open>Marking a point clean; nothing changes when it is clean already.\<close>

definition clean_point :: "PointEntry \<Rightarrow> PointEntry" where
  "clean_point p = p\<lparr>pe_dirty := False\<rparr>"

definition clean_at :: "nat \<Rightarrow> nat \<Rightarrow> BridgeStateInner \<Rightarrow> BridgeStateInner" where
  "clean_at dev i s = set_point s dev i (map_option clean_point (bs_points s ! dev ! i))"

definition sent_more :: "bytes list \<Rightarrow> Connection \<Rightarrow> Connection" where
  "sent_more bss c = c\<lparr>written_packets := written_packets c @ bss, writes_left := writes_left c - length bss\<rparr>"

lemma sent_more_simps [simp]:
  "sent_more [] c = c" "sent_more bss' (sent_more bss c) = sent_more (bss @ bss') c"
  "writes_left (sent_more bss c) = writes_left c - length bss"
  by (simp_all add: sent_more_def diff_diff_eq)

definition dirty_at :: "BridgeStateInner \<Rightarrow> nat \<Rightarrow> nat \<Rightarrow> PointEntry list" where
  "dirty_at s dev i = (case bs_points s ! dev ! i of Some p \<Rightarrow> if pe_dirty p then [p] else [] | None \<Rightarrow> [])"

lemma clean_at_id: "map_option clean_point (bs_points s ! dev ! i) = bs_points s ! dev ! i \<Longrightarrow> clean_at dev i s = s"
  by (simp add: clean_at_def set_point_def)

lemma publish_point_eq:
  assumes "length (dirty_at s dev i) \<le> writes_left c"
  shows "publish_point dev i (s, c) =
    ((clean_at dev i s, sent_more (map (\<lambda>p. wire_packet (message p)) (dirty_at s dev i)) c), True)"
proof (cases "bs_points s ! dev ! i")
  case None
  then show ?thesis
    using clean_at_id [of s dev i] by (simp add: publish_point_def dirty_at_def)
next
  case (Some p)
  show ?thesis
  proof (cases "pe_dirty p")
    case True
    with Some assms have "write_all (wire_packet (message p)) c = Some (sent_more [wire_packet (message p)] c)"
      by (simp add: dirty_at_def write_all_def sent_more_def split: nat.split)
    then show ?thesis
      using Some True
      by (simp add: publish_point_def dirty_at_def clean_at_def build_state_topic_eq send_publish_message
          clean_point_def Let_def)
  next
    case False
    then have "clean_point p = p" by (simp add: clean_point_def)
    with False Some show ?thesis
      using clean_at_id [of s dev i] by (simp add: publish_point_def dirty_at_def)
  qed
qed

section \<open>One round\<close>

text \<open>The dimensions the loops rely on, part of the invariant of the tables.\<close>

definition tables_ok :: "BridgeStateInner \<Rightarrow> bool" where
  "tables_ok s \<longleftrightarrow> length (bs_points s) = MAX_DEVICES \<and> device_count s \<le> MAX_DEVICES
     \<and> (\<forall>d < MAX_DEVICES. length (bs_points s ! d) = MAX_POINTS_PER_DEVICE \<and> point_counts s ! d \<le> MAX_POINTS_PER_DEVICE)"

lemma state_tables_ok: "state_ok s \<Longrightarrow> tables_ok s"
  by (auto simp: state_ok_def tables_ok_def row_ok_def)

lemma clean_at_fields [simp]:
  "device_count (clean_at dev i s) = device_count s" "point_counts (clean_at dev i s) = point_counts s"
  "devices (clean_at dev i s) = devices s" "length (bs_points (clean_at dev i s)) = length (bs_points s)"
  by (simp_all add: clean_at_def set_point_def)

lemma clean_at_nth:
  assumes "tables_ok s" and "d < MAX_DEVICES" and "dev < MAX_DEVICES"
  shows "length (bs_points (clean_at dev i s) ! d) = length (bs_points s ! d)"
    and "j < MAX_POINTS_PER_DEVICE \<Longrightarrow> bs_points (clean_at dev i s) ! d ! j =
      (if d = dev \<and> j = i then map_option clean_point (bs_points s ! d ! j) else bs_points s ! d ! j)"
  using assms by (auto simp: clean_at_def set_point_def tables_ok_def nth_list_update)

lemma clean_at_ok: "tables_ok s \<Longrightarrow> dev < MAX_DEVICES \<Longrightarrow> tables_ok (clean_at dev i s)"
  using clean_at_nth(1) by (auto simp: tables_ok_def)

definition clean_row :: "nat \<Rightarrow> nat list \<Rightarrow> BridgeStateInner \<Rightarrow> BridgeStateInner" where
  "clean_row dev is s = fold (clean_at dev) is s"

lemma clean_row_fields [simp]:
  "device_count (clean_row dev is s) = device_count s" "point_counts (clean_row dev is s) = point_counts s"
  "devices (clean_row dev is s) = devices s" "length (bs_points (clean_row dev is s)) = length (bs_points s)"
  unfolding clean_row_def by (induction "is" arbitrary: s) simp_all

lemma clean_clean: "map_option clean_point (map_option clean_point x) = map_option clean_point x"
  by (cases x) (simp_all add: clean_point_def)

lemma clean_row_nth:
  assumes "tables_ok s" and "d < MAX_DEVICES" and "dev < MAX_DEVICES" and "j < MAX_POINTS_PER_DEVICE"
  shows "bs_points (clean_row dev is s) ! d ! j =
      (if d = dev \<and> j \<in> set is then map_option clean_point (bs_points s ! d ! j) else bs_points s ! d ! j)"
  unfolding clean_row_def
  using assms
proof (induction "is" arbitrary: s)
  case (Cons i "is")
  from Cons.IH [OF clean_at_ok [OF Cons.prems(1,3)] Cons.prems(2-4)] clean_at_nth(2) [OF Cons.prems(1-4)]
  show ?case by (auto simp: clean_clean)
qed simp

lemma clean_row_ok: "tables_ok s \<Longrightarrow> dev < MAX_DEVICES \<Longrightarrow> tables_ok (clean_row dev is s)"
  unfolding clean_row_def by (induction "is" arbitrary: s) (simp_all add: clean_at_ok)

lemma dirty_at_clean:
  assumes "tables_ok s" and "d < MAX_DEVICES" and "dev < MAX_DEVICES" and "j < MAX_POINTS_PER_DEVICE"
  shows "dirty_at (clean_row dev is s) d j = (if d = dev \<and> j \<in> set is then [] else dirty_at s d j)"
  using clean_row_nth [OF assms] by (auto simp: dirty_at_def clean_point_def split: option.split)

definition dirty_of :: "BridgeStateInner \<Rightarrow> nat \<Rightarrow> nat list \<Rightarrow> PointEntry list" where
  "dirty_of s dev is = concat (map (dirty_at s dev) is)"

definition messages :: "PointEntry list \<Rightarrow> bytes list" where
  "messages ps = map (\<lambda>p. wire_packet (message p)) ps"

lemma publish_points_of_eq:
  assumes "tables_ok s" and "dev < MAX_DEVICES" and "\<forall>i \<in> set is. i < MAX_POINTS_PER_DEVICE" and "distinct is"
    and "length (dirty_of s dev is) \<le> writes_left c"
  shows "publish_points_of dev is (s, c) = ((clean_row dev is s, sent_more (messages (dirty_of s dev is)) c), True)"
  using assms
proof (induction "is" arbitrary: s c)
  case Nil
  then show ?case by (simp add: clean_row_def dirty_of_def messages_def)
next
  case (Cons i "is")
  let ?s = "clean_at dev i s" and ?c = "sent_more (map (\<lambda>p. wire_packet (message p)) (dirty_at s dev i)) c"
  have p: "publish_point dev i (s, c) = ((?s, ?c), True)"
    using Cons.prems(5) by (intro publish_point_eq) (simp add: dirty_of_def)
  have d: "dirty_of ?s dev is = dirty_of s dev is"
    unfolding dirty_of_def
    using dirty_at_clean [OF Cons.prems(1,2,2), of _ "[i]"] Cons.prems(3,4)
    by (intro arg_cong [of _ _ concat] map_cong) (auto simp: clean_row_def)
  have "publish_points_of dev is (?s, ?c) = ((clean_row dev is ?s, sent_more (messages (dirty_of ?s dev is)) ?c), True)"
    using Cons.prems clean_at_ok [OF Cons.prems(1,2)] by (intro Cons.IH) (simp_all add: d, simp add: dirty_of_def)
  with p d show ?case
    by (simp add: clean_row_def messages_def dirty_of_def)
qed

definition clean_devices :: "nat list \<Rightarrow> BridgeStateInner \<Rightarrow> BridgeStateInner" where
  "clean_devices devs s = fold (\<lambda>dev s. clean_row dev [0..<point_counts s ! dev] s) devs s"

definition dirty_points :: "BridgeStateInner \<Rightarrow> nat list \<Rightarrow> PointEntry list" where
  "dirty_points s devs = concat (map (\<lambda>dev. dirty_of s dev [0..<point_counts s ! dev]) devs)"

lemma publish_devices_eq:
  assumes "tables_ok s" and "\<forall>dev \<in> set devs. dev < MAX_DEVICES" and "distinct devs"
    and "length (dirty_points s devs) \<le> writes_left c"
  shows "publish_devices devs (s, c) = ((clean_devices devs s, sent_more (messages (dirty_points s devs)) c), True)"
  using assms
proof (induction devs arbitrary: s c)
  case Nil
  then show ?case by (simp add: clean_devices_def dirty_points_def messages_def)
next
  case (Cons dev devs)
  let ?is = "[0..<point_counts s ! dev]"
  let ?s = "clean_row dev ?is s" and ?c = "sent_more (messages (dirty_of s dev ?is)) c"
  have dev: "dev < MAX_DEVICES" using Cons.prems(2) by simp
  have r: "\<forall>i \<in> set [0..<point_counts s ! d]. i < MAX_POINTS_PER_DEVICE" if "d < MAX_DEVICES" for d
    using Cons.prems(1) that by (auto simp: tables_ok_def)
  have p: "publish_points_of dev ?is (s, c) = ((?s, ?c), True)"
    using Cons.prems r [OF dev] dev by (intro publish_points_of_eq) (simp_all add: dirty_points_def)
  have d: "dirty_points ?s devs = dirty_points s devs"
    unfolding dirty_points_def dirty_of_def
    using dirty_at_clean [OF Cons.prems(1) _ dev] Cons.prems(2,3) r
    by (intro arg_cong [of _ _ concat] map_cong) auto
  have "publish_devices devs (?s, ?c) = ((clean_devices devs ?s, sent_more (messages (dirty_points ?s devs)) ?c), True)"
    using Cons.prems clean_row_ok [OF Cons.prems(1) dev] by (intro Cons.IH) (simp_all add: d, simp add: dirty_points_def messages_def)
  with p d show ?case
    by (simp add: clean_devices_def messages_def dirty_points_def)
qed

lemma clean_devices_fields [simp]:
  "device_count (clean_devices devs s) = device_count s" "point_counts (clean_devices devs s) = point_counts s"
  "devices (clean_devices devs s) = devices s"
  unfolding clean_devices_def by (induction devs arbitrary: s) simp_all

lemma clean_devices_nth:
  assumes "tables_ok s" and "\<forall>dev \<in> set devs. dev < MAX_DEVICES" and "d < MAX_DEVICES" and "j < MAX_POINTS_PER_DEVICE"
  shows "bs_points (clean_devices devs s) ! d ! j =
      (if d \<in> set devs \<and> j < point_counts s ! d then map_option clean_point (bs_points s ! d ! j) else bs_points s ! d ! j)"
  unfolding clean_devices_def
  using assms
proof (induction devs arbitrary: s)
  case (Cons dev devs)
  have dev: "dev < MAX_DEVICES" using Cons.prems(2) by simp
  let ?s = "clean_row dev [0..<point_counts s ! dev] s"
  have n: "bs_points ?s ! d ! j =
      (if d = dev \<and> j < point_counts s ! d then map_option clean_point (bs_points s ! d ! j) else bs_points s ! d ! j)"
    using clean_row_nth [OF Cons.prems(1,3) dev Cons.prems(4)] by auto
  have "bs_points (fold (\<lambda>dev s. clean_row dev [0..<point_counts s ! dev] s) devs ?s) ! d ! j =
      (if d \<in> set devs \<and> j < point_counts s ! d then map_option clean_point (bs_points ?s ! d ! j) else bs_points ?s ! d ! j)"
    using Cons.IH [of ?s] clean_row_ok [OF Cons.prems(1) dev] Cons.prems(2-4) by simp
  with n show ?case by (cases "d = dev") (simp_all add: clean_clean)
qed simp

text \<open>The points that have changed, in the order of the tables.\<close>

definition changed :: "BridgeStateInner \<Rightarrow> PointEntry list" where
  "changed s = concat (map (\<lambda>dev. filter pe_dirty (entries s dev)) [0..<device_count s])"

lemma dirty_of_filter:
  assumes "row_ok n row" and "bs_points s ! dev = row" and "point_counts s ! dev = n"
  shows "dirty_of s dev [0..<n] = filter pe_dirty (entries s dev)"
proof -
  obtain ps where r: "row = map Some ps @ replicate (MAX_POINTS_PER_DEVICE - n) None" and l: "length ps = n"
    using assms(1) by (auto simp: row_ok_def)
  have "map (dirty_at s dev) [0..<n] = map (\<lambda>p. if pe_dirty p then [p] else []) ps"
    using r l by (intro nth_equalityI) (auto simp: dirty_at_def assms nth_append)
  moreover have "concat (map (\<lambda>p. if P p then [p] else []) ps) = filter P ps" for P
    by (induction ps) simp_all
  moreover have "entries s dev = ps" using r l by (simp add: entries_def assms comp_def)
  ultimately show ?thesis by (simp add: dirty_of_def)
qed

lemma dirty_points_changed:
  assumes "state_ok s"
  shows "dirty_points s [0..<device_count s] = changed s"
proof -
  have "dirty_of s dev [0..<point_counts s ! dev] = filter pe_dirty (entries s dev)" if "dev < device_count s" for dev
    using assms that by (intro dirty_of_filter) (auto simp: state_ok_def)
  then show ?thesis unfolding dirty_points_def changed_def by (intro arg_cong [of _ _ concat] map_cong) simp_all
qed

lemma messages_sent: "list_all2 sends (map message ps) (messages ps)"
proof (induction ps)
  case (Cons p ps)
  have "length (state_topic p) \<le> 0xFFFF" using state_topic_length [of p] by simp
  then have "encode_packet (replicate 256 0) (message p) = emit (wire_packet (message p)) (replicate 256 0) 0"
    by (intro encode_packet_emit) (simp_all add: message_def short_strings_def)
  then have "sends (message p) (wire_packet (message p))"
    unfolding sends_def using length_message [of p]
    by - (rule exI [of _ "replicate 256 0"], rule exI [of _ "overwrite (replicate 256 0) 0 (wire_packet (message p))"],
        rule exI [of _ "length (wire_packet (message p))"], simp add: emit_def)
  with Cons show ?case by (simp add: messages_def)
qed (simp add: messages_def)


section \<open>A session\<close>

lemma sendsI: "length buf \<le> 268435455 \<Longrightarrow> encode_packet buf p = Ok (b, n) \<Longrightarrow> sends p (take n b)"
  unfolding sends_def by blast

lemma send_publish_sends:
  assumes "send_publish cap topic payload retain c = (c', ok)" and "cap \<le> 268435455"
  shows "written_packets c' = written_packets c \<or>
    (\<exists>bs. written_packets c' = written_packets c @ [bs] \<and> sends (Publish topic payload retain) bs)"
proof (cases "encode_publish (replicate cap 0) topic payload retain")
  case (Ok r)
  then obtain buf n where e: "encode_publish (replicate cap 0) topic payload retain = Ok (buf, n)" by (cases r) simp
  then have "sends (Publish topic payload retain) (take n buf)" using assms(2) by (intro sendsI) simp_all
  with assms(1) e show ?thesis by (auto simp: send_publish_def write_all_def split: nat.splits)
qed (use assms(1) in \<open>simp_all add: send_publish_def\<close>)

text \<open>Packets of a running session, after the CONNECT.\<close>

definition ordinary :: "mqtt_packet \<Rightarrow> bool" where
  "ordinary p \<longleftrightarrow> (case p of Connect _ _ _ _ \<Rightarrow> False | _ \<Rightarrow> True)"

definition writes_only :: "Connection \<Rightarrow> Connection \<Rightarrow> bool" where
  "writes_only c c' \<longleftrightarrow> (\<exists>ps bss. written_packets c' = written_packets c @ bss \<and> list_all2 sends ps bss \<and> list_all ordinary ps)"

named_theorems writing

lemma writes_refl [writing]: "writes_only c c"
  unfolding writes_only_def by (rule exI [of _ "[]"], rule exI [of _ "[]"]) simp

lemma writes_trans [trans]: "writes_only c c' \<Longrightarrow> writes_only c' c'' \<Longrightarrow> writes_only c c''"
  unfolding writes_only_def using list_all2_appendI list_all_append by (metis append_assoc)

lemma writes_publish [writing]:
  "send_publish cap topic payload retain c = (c', ok) \<Longrightarrow> cap \<le> 268435455 \<Longrightarrow> writes_only c c'"
  using send_publish_sends [of cap topic payload retain c c' ok] writes_refl [of c]
  by (fastforce simp: writes_only_def ordinary_def intro: exI [of _ "[Publish topic payload retain]"])

lemma writes_announce_point [writing]: "announce_point name pt c = (c', ok) \<Longrightarrow> writes_only c c'"
  by (auto simp: announce_point_def Let_def intro: writing split: option.splits result.splits)

lemma writes_announce_points: "announce_points s dev is c = (c', ok) \<Longrightarrow> writes_only c c'"
proof (induction "is" arbitrary: c)
  case (Cons i "is")
  then show ?case
    by (auto split: option.splits prod.splits if_splits intro: writing writes_trans [OF writes_announce_point])
qed (simp add: writing)

lemma writes_discovery [writing]: "writes_only c (announce_devices s devs c)"
  by (induction devs arbitrary: c)
    (auto split: prod.splits intro: writing writes_announce_points writes_trans [OF writes_announce_points])

lemma writes_point: "publish_point dev i (s, c) = ((s', c'), ok) \<Longrightarrow> writes_only c c'"
  by (auto simp: publish_point_def Let_def intro: writing split: option.splits if_splits prod.splits)

lemma writes_points: "publish_points_of dev is (s, c) = ((s', c'), ok) \<Longrightarrow> writes_only c c'"
proof (induction "is" arbitrary: s c)
  case (Cons i "is")
  obtain s1 c1 ok1 where "publish_point dev i (s, c) = ((s1, c1), ok1)" by (metis prod.exhaust)
  with Cons show ?case by (auto split: if_splits intro: writes_point writes_trans [OF writes_point])
qed (simp add: writing)

lemma writes_devices: "publish_devices devs (s, c) = ((s', c'), ok) \<Longrightarrow> writes_only c c'"
proof (induction devs arbitrary: s c)
  case (Cons dev devs)
  obtain s1 c1 ok1 where "publish_points_of dev [0..<point_counts s ! dev] (s, c) = ((s1, c1), ok1)"
    by (metis prod.exhaust)
  with Cons show ?case by (auto split: if_splits intro: writes_points writes_trans [OF writes_points])
qed (simp add: writing)

lemma writes_short:
  assumes "encode_packet (replicate 2 0) p = Ok (buf, n)" and "write_all (take n buf) c = Some c'" and "ordinary p"
  shows "writes_only c c'"
proof -
  have "sends p (take n buf)" using assms(1) by (intro sendsI) simp_all
  then show ?thesis
    using assms(2,3) unfolding writes_only_def
    by - (rule exI [of _ "[p]"], rule exI [of _ "[take n buf]"], auto simp: write_all_def split: nat.splits)
qed

lemma writes_round:
  assumes "session_round (ticks, (s, c)) = ((ticks', (s', c')), running)"
  shows "writes_only c c'"
proof -
  obtain s1 c1 ok where p: "publish_dirty_points (s, c) = ((s1, c1), ok)" by (metis prod.exhaust)
  have "writes_only c c1" using p by (auto simp: publish_dirty_points_def intro: writes_devices)
  moreover have "writes_only c1 c'"
    using assms p writes_short [of Pingreq]
    by (auto simp: session_round_def Let_def ordinary_def intro: writing split: if_splits result.splits option.splits)
  ultimately show ?thesis by (rule writes_trans)
qed

lemma writes_disconnect [writing]: "writes_only c (try_disconnect c)"
  using writes_short [of Disconnect] by (auto simp: try_disconnect_def ordinary_def intro: writing split: result.split option.split)

lemma writes_loop [writing]: "writes_only c (session_loop ticks c ss)"
proof (induction ss arbitrary: ticks c)
  case (Cons s ss)
  obtain t1 s1 c1 r where p: "session_round (ticks, (s, c)) = ((t1, (s1, c1)), r)" by (metis prod.exhaust)
  then show ?case
    using writes_trans [OF writes_round [OF p] Cons.IH] writes_trans [OF writes_round [OF p] writes_disconnect] by simp
qed (simp add: writing)

text \<open>
  C34: a session, whatever the broker answers and whenever the connection breaks, sends nothing or
  a CONNECT with the fixed client identifier, a keep-alive of 60 seconds and no credentials; only when the broker has
  accepted it does anything follow, and that is never a second CONNECT. The receiver reads back all of it.
\<close>

theorem mqtt_session_packets:
  "\<exists>ps. receive (concat (written_packets (mqtt_session connack states \<lparr>written_packets = [], writes_left = n\<rparr>))) = Some ps
    \<and> (ps = [] \<or> hd ps = Connect CLIENT_ID 60 None None)
    \<and> list_all ordinary (tl ps)
    \<and> (tl ps = [] \<or> (case connack of Some resp \<Rightarrow> decode_connack resp = Ok True | None \<Rightarrow> False))"
proof -
  let ?c = "\<lparr>written_packets = [], writes_left = n\<rparr>" and ?p = "Connect CLIENT_ID 60 None None"
  let ?e = "encode_connect (replicate 128 0) CLIENT_ID KEEP_ALIVE_SECS None None"
  define c' where "c' = mqtt_session connack states ?c"
  have e: "?e = encode_packet (replicate 128 0) ?p" by (simp add: KEEP_ALIVE_SECS_def)
  have "\<exists>ps. list_all2 sends ps (written_packets c') \<and> (ps = [] \<or> hd ps = ?p) \<and> list_all ordinary (tl ps)
    \<and> (tl ps = [] \<or> (case connack of Some resp \<Rightarrow> decode_connack resp = Ok True | None \<Rightarrow> False))"
  proof (cases "\<exists>buf k c. ?e = Ok (buf, k) \<and> write_all (take k buf) ?c = Some c")
    case False
    then have "c' = ?c" by (auto simp: c'_def mqtt_session_def split: result.split option.split)
    then show ?thesis by (intro exI [of _ "[]"]) simp
  next
    case True
    then obtain buf k c where ok: "?e = Ok (buf, k)" and w: "write_all (take k buf) ?c = Some c" by blast
    have s: "sends ?p (take k buf)"
      using ok unfolding e by (intro sendsI) simp_all
    have c: "written_packets c = [take k buf]" using w by (auto simp: write_all_def split: nat.splits)
    show ?thesis
    proof (cases "case connack of Some resp \<Rightarrow> decode_connack resp = Ok True | None \<Rightarrow> False")
      case False
      then have "c' = c" using ok w by (auto simp: c'_def mqtt_session_def split: result.split option.splits bool.splits)
      with s c show ?thesis by (intro exI [of _ "[?p]"]) simp
    next
      case True
      then have "c' = session_loop 0 (case states of [] \<Rightarrow> c | s # _ \<Rightarrow> publish_ha_discovery s c) states"
        using ok w by (auto simp: c'_def mqtt_session_def split: option.splits)
      moreover have "writes_only c (case states of [] \<Rightarrow> c | s # _ \<Rightarrow> publish_ha_discovery s c)"
        by (auto simp: publish_ha_discovery_def intro: writing split: list.split)
      ultimately have "writes_only c c'" using writes_trans [OF _ writes_loop] by blast
      then obtain ps bss where "written_packets c' = take k buf # bss" "list_all2 sends ps bss" "list_all ordinary ps"
        by (auto simp: writes_only_def c)
      with s True show ?thesis by (intro exI [of _ "?p # ps"]) simp
    qed
  qed
  then show ?thesis unfolding c'_def using receive_sent by blast
qed

text \<open>One device, one analog input whose value has just been set.\<close>

definition one_point :: BridgeStateInner where
  "one_point = (update_point bridge_new 0 \<lparr>object_type = AnalogInput, instance_no = 1\<rparr> Null 62)\<lparr>device_count := 1\<rparr>"

lemma one_point_ok: "state_ok one_point"
proof -
  have "state_ok (update_point bridge_new 0 \<lparr>object_type = AnalogInput, instance_no = 1\<rparr> Null 62)"
    by (rule update_point_ok [OF bridge_new_ok])
  moreover have "distinct (map f (take (Suc 0) xs))" for f :: "DeviceEntry \<Rightarrow> u32" and xs by (cases xs) simp_all
  ultimately show ?thesis by (simp add: state_ok_def one_point_def MAX_DEVICES_def)
qed

lemma one_point_changed: "changed one_point = [fresh_point \<lparr>object_type = AnalogInput, instance_no = 1\<rparr> Null 62]"
proof -
  have "find_point bridge_new 0 oid = None" for oid
    by (simp add: find_point_def bridge_new_def MAX_DEVICES_def find_index_None)
  then show ?thesis
    by (simp add: changed_def entries_def one_point_def update_point_def set_point_def bridge_new_def bridge_consts
        fresh_point_def numeral_eq_Suc)
qed


end
