(* ===== verification/Auth.thy ===== *)
theory Auth
  imports Config
begin

text \<open>
  \<open>bridge-core/src/auth.rs\<close>: tokens, passwords and the permission matrix.

  SHA-256 is the code of the \<open>sha2\<close> crate and a parameter \<open>sha256\<close> of the model: a function from
  the hashed bytes to the digest.
\<close>

section \<open>Hashes\<close>

definition ZERO_HASH :: bytes where "ZERO_HASH = replicate 32 0"

definition hash_token :: "(bytes \<Rightarrow> bytes) \<Rightarrow> bytes \<Rightarrow> bytes" where
  "hash_token sha256 token = sha256 token"

definition hash_password :: "(bytes \<Rightarrow> bytes) \<Rightarrow> bytes \<Rightarrow> bytes \<Rightarrow> bytes" where
  "hash_password sha256 password salt =
     (let pw_len = min (length password) 64;
          buf = overwrite (replicate 96 0) 0 salt;
          buf = overwrite buf 32 (take pw_len password) in
      sha256 (take (32 + pw_len) buf))"

definition constant_time_eq :: "bytes \<Rightarrow> bytes \<Rightarrow> bool" where
  "constant_time_eq a b \<longleftrightarrow> foldl (\<lambda>diff i. diff OR (a ! i XOR b ! i)) 0 [0..<32] = 0"

definition verify_password :: "(bytes \<Rightarrow> bytes) \<Rightarrow> bytes \<Rightarrow> bytes \<Rightarrow> bytes \<Rightarrow> bool" where
  "verify_password sha256 password salt stored_digest =
     (if stored_digest = ZERO_HASH then False
      else constant_time_eq (hash_password sha256 password salt) stored_digest)"

fun role_of_hash :: "bytes \<Rightarrow> TokenConfig list \<Rightarrow> UserRole option" where
  "role_of_hash h [] = None"
| "role_of_hash h (t # ts) = (if constant_time_eq h (token_hash t) then Some (token_role t) else role_of_hash h ts)"

definition find_token_role :: "(bytes \<Rightarrow> bytes) \<Rightarrow> bytes \<Rightarrow> TokenConfig list \<Rightarrow> UserRole option" where
  "find_token_role sha256 token ts = role_of_hash (hash_token sha256 token) ts"

section \<open>Permissions\<close>

datatype Permission =
    ViewDashboard | ViewConfig | WritePoints | EditPointConfig | EditSystemConfig | ManageUsers | ManageTls
  | ManageFirmware | ExportConfig

fun has_permission :: "UserRole \<Rightarrow> Permission \<Rightarrow> bool" where
  "has_permission role ViewDashboard = True"
| "has_permission role ViewConfig = True"
| "has_permission role WritePoints = (case role of Operator \<Rightarrow> True | Admin \<Rightarrow> True | Viewer \<Rightarrow> False)"
| "has_permission role EditPointConfig = (case role of Operator \<Rightarrow> True | Admin \<Rightarrow> True | Viewer \<Rightarrow> False)"
| "has_permission role EditSystemConfig = (role = Admin)"
| "has_permission role ManageUsers = (role = Admin)"
| "has_permission role ManageTls = (role = Admin)"
| "has_permission role ManageFirmware = (role = Admin)"
| "has_permission role ExportConfig = (role = Admin)"

text \<open>The order of the roles the documentation gives, lowest to highest privilege.\<close>

fun privilege :: "UserRole \<Rightarrow> nat" where
  "privilege Viewer = 0"
| "privilege Operator = 1"
| "privilege Admin = 2"

lemma privilege_inject: "privilege a = privilege b \<Longrightarrow> a = b"
  by (cases a; cases b) simp_all

instantiation UserRole :: linorder
begin

definition less_eq_UserRole :: "UserRole \<Rightarrow> UserRole \<Rightarrow> bool" where
  "less_eq_UserRole a b \<longleftrightarrow> privilege a \<le> privilege b"

definition less_UserRole :: "UserRole \<Rightarrow> UserRole \<Rightarrow> bool" where
  "less_UserRole a b \<longleftrightarrow> privilege a < privilege b"

instance
  by standard (auto simp: less_eq_UserRole_def less_UserRole_def intro: privilege_inject)

end

text \<open>The lowest role the table of the documentation grants an action to.\<close>

fun required_role :: "Permission \<Rightarrow> UserRole" where
  "required_role ViewDashboard = Viewer"
| "required_role ViewConfig = Viewer"
| "required_role WritePoints = Operator"
| "required_role EditPointConfig = Operator"
| "required_role _ = Admin"

lemma has_permission_iff: "has_permission role a \<longleftrightarrow> required_role a \<le> role"
  by (cases a; cases role) (simp_all add: less_eq_UserRole_def)

lemma has_permission_mono: "role \<le> role' \<Longrightarrow> has_permission role a \<Longrightarrow> has_permission role' a"
  by (auto simp: has_permission_iff)

section \<open>Correctness\<close>

lemma or_fold_zero:
  "foldl (\<lambda>diff i. diff OR f i) d is = (0 :: u8) \<longleftrightarrow> d = 0 \<and> (\<forall>i \<in> set is. f i = 0)"
  by (induction "is" arbitrary: d) (auto simp: or_eq_0_iff)

lemma xor_zero_iff: "a XOR b = 0 \<longleftrightarrow> a = (b :: u8)"
proof
  assume "a XOR b = 0"
  then have "(a XOR b) XOR b = b" by simp
  moreover have "(a XOR b) XOR b = a" by (simp only: xor.assoc xor_self_eq xor.right_neutral)
  ultimately show "a = b" by simp
qed simp

lemma constant_time_eq_iff:
  assumes "length a = 32" and "length b = 32"
  shows "constant_time_eq a b \<longleftrightarrow> a = b"
  using assms by (auto simp: constant_time_eq_def or_fold_zero xor_zero_iff list_eq_iff_nth_eq)

lemma hash_password_eq:
  assumes "length salt = 32"
  shows "hash_password sha256 password salt = sha256 (salt @ take 64 password)"
proof -
  have "take (32 + min (length password) 64)
      (overwrite (overwrite (replicate 96 0) 0 salt) 32 (take (min (length password) 64) password)) = salt @ take 64 password"
    using assms by (simp add: overwrite_def min_def)
  then show ?thesis by (simp add: hash_password_def Let_def)
qed

lemma verify_password_eq:
  assumes "\<And>x. length (sha256 x) = 32" and "length salt = 32" and "length stored = 32"
  shows "verify_password sha256 password salt stored \<longleftrightarrow> stored \<noteq> ZERO_HASH \<and> sha256 (salt @ take 64 password) = stored"
  using assms by (simp add: verify_password_def constant_time_eq_iff hash_password_eq)

lemma find_token_role_eq:
  assumes "\<And>x. length (sha256 x) = 32" and "\<forall>t \<in> set ts. length (token_hash t) = 32"
  shows "find_token_role sha256 token ts = map_option token_role (find (\<lambda>t. token_hash t = sha256 token) ts)"
  using assms(2)
  by (induction ts) (auto simp: find_token_role_def hash_token_def constant_time_eq_iff assms(1))

text \<open>
  With a digest of 32 bytes, a password is accepted for the salt and digest stored for another
  one exactly when both give the same digest on their first 64 bytes, and never when the stored digest is zero; so
  the password that was set is accepted unless its digest is zero.
\<close>

theorem password_check:
  assumes "\<forall>x. length (sha256 x) = 32" and "length salt = 32"
  shows "verify_password sha256 password salt (hash_password sha256 chosen salt) \<longleftrightarrow>
     sha256 (salt @ take 64 chosen) \<noteq> ZERO_HASH \<and> sha256 (salt @ take 64 password) = sha256 (salt @ take 64 chosen)"
  using assms by (auto simp: verify_password_eq hash_password_eq)

text \<open>A digest function for the witness: the last 32 of the padded bytes.\<close>

definition last32 :: "bytes \<Rightarrow> bytes" where
  "last32 x = drop (length x) (replicate 32 1 @ x)"

lemma password_check_witness:
  "verify_password last32 [7] (replicate 32 0) (hash_password last32 [7] (replicate 32 0))
   \<and> \<not> verify_password last32 [8] (replicate 32 0) (hash_password last32 [7] (replicate 32 0))"
proof -
  have l: "\<forall>x. length (last32 x) = 32" by (simp add: last32_def del: drop_append)
  have d: "last32 (replicate 32 0 @ take 64 [b]) = replicate 31 0 @ [b]" for b by (simp add: last32_def)
  have "last ZERO_HASH = 0" by (simp add: ZERO_HASH_def)
  then have "replicate 31 0 @ [7] \<noteq> ZERO_HASH" by (auto dest: arg_cong [where f = last])
  with password_check [OF l, of "replicate 32 0" "[7]" "[7]"] password_check [OF l, of "replicate 32 0" "[8]" "[7]"]
  show ?thesis unfolding d by simp
qed

end
