(* ===== verification/Http_Session.thy ===== *)
theory Http_Session
  imports Auth
begin

text \<open>
  The session store of \<open>firmware/src/http.rs\<close>: four slots, each the hash of a session token, its
  role and the time of the login in milliseconds.

  \<open>SESSION_STORE\<close> is locked for each operation, so an operation is one step. The clock
  (\<open>Instant::now().as_millis()\<close>) is an argument.
\<close>

section \<open>The store\<close>

type_synonym u64 = "64 word"

definition SESSION_EXPIRY_MS :: u64 where "SESSION_EXPIRY_MS = 86400000"
definition MAX_SESSIONS :: nat where "MAX_SESSIONS = 4"

record Session =
  session_hash :: bytes
  session_role :: UserRole
  session_created :: u64

definition session_empty :: Session where
  "session_empty = \<lparr>session_hash = ZERO_HASH, session_role = Viewer, session_created = 0\<rparr>"

type_synonym sessions = "Session list"

definition sessions_new :: sessions where
  "sessions_new = replicate MAX_SESSIONS session_empty"

definition saturating_sub :: "u64 \<Rightarrow> u64 \<Rightarrow> u64" where
  "saturating_sub a b = (if a < b then 0 else a - b)"

text \<open>The position \<open>min_by_key\<close> finds: the first one of the least key.\<close>

fun min_slot :: "sessions \<Rightarrow> nat" where
  "min_slot [] = 0"
| "min_slot [s] = 0"
| "min_slot (s # t # ss) =
     (let i = min_slot (t # ss) in
      if session_created s \<le> session_created ((t # ss) ! i) then 0 else Suc i)"

fun first_slot :: "(Session \<Rightarrow> bool) \<Rightarrow> sessions \<Rightarrow> nat option" where
  "first_slot P [] = None"
| "first_slot P (s # ss) = (if P s then Some 0 else map_option Suc (first_slot P ss))"

definition session_insert :: "u64 \<Rightarrow> bytes \<Rightarrow> UserRole \<Rightarrow> sessions \<Rightarrow> sessions" where
  "session_insert now hash role ses =
     (let s = \<lparr>session_hash = hash, session_role = role, session_created = now\<rparr> in
      case first_slot (\<lambda>slot. session_hash slot = ZERO_HASH) ses of
        Some i \<Rightarrow> ses[i := s]
      | None \<Rightarrow> ses[min_slot ses := s])"

definition session_remove :: "bytes \<Rightarrow> sessions \<Rightarrow> sessions" where
  "session_remove hash ses =
     (case first_slot (\<lambda>slot. session_hash slot = hash) ses of
        Some i \<Rightarrow> ses[i := session_empty]
      | None \<Rightarrow> ses)"

fun session_find :: "u64 \<Rightarrow> bytes \<Rightarrow> sessions \<Rightarrow> UserRole option" where
  "session_find now hash [] = None"
| "session_find now hash (slot # ses) =
     (if session_hash slot = ZERO_HASH then session_find now hash ses
      else if session_hash slot = hash then
        (if saturating_sub now (session_created slot) < SESSION_EXPIRY_MS then Some (session_role slot) else None)
      else session_find now hash ses)"

section \<open>What the store holds\<close>

definition used :: "sessions \<Rightarrow> Session list" where
  "used ses = filter (\<lambda>s. session_hash s \<noteq> ZERO_HASH) ses"

definition store_ok :: "sessions \<Rightarrow> bool" where
  "store_ok ses \<longleftrightarrow> length ses = MAX_SESSIONS \<and> distinct (map session_hash (used ses))"

text \<open>The store as a map from the hash of a token to the role and the time of its login.\<close>

definition session_map :: "sessions \<Rightarrow> bytes \<rightharpoonup> UserRole \<times> u64" where
  "session_map ses = map_of (map (\<lambda>s. (session_hash s, session_role s, session_created s)) (used ses))"

definition fresh :: "u64 \<Rightarrow> u64 \<Rightarrow> bool" where
  "fresh now created \<longleftrightarrow> saturating_sub now created < SESSION_EXPIRY_MS"

lemma session_find_eq:
  "session_find now h ses =
     (case session_map ses h of Some (r, t) \<Rightarrow> if fresh now t then Some r else None | None \<Rightarrow> None)"
  by (induction ses) (simp_all add: session_map_def used_def fresh_def)

lemma first_slot_Some:
  "first_slot P ss = Some i \<Longrightarrow> i < length ss \<and> P (ss ! i) \<and> (\<forall>j < i. \<not> P (ss ! j))"
proof (induction ss arbitrary: i)
  case (Cons s ss)
  show ?case
  proof (cases "P s")
    case False
    then obtain k where k: "first_slot P ss = Some k" "i = Suc k" using Cons.prems by auto
    then show ?thesis using Cons.IH [OF k(1)] False by (auto simp: less_Suc_eq_0_disj)
  qed (use Cons.prems in auto)
qed simp

lemma first_slot_None: "first_slot P ss = None \<longleftrightarrow> (\<forall>s \<in> set ss. \<not> P s)"
  by (induction ss) auto

lemma min_slot_least:
  "ss \<noteq> [] \<Longrightarrow> min_slot ss < length ss \<and> (\<forall>s \<in> set ss. session_created (ss ! min_slot ss) \<le> session_created s)"
  by (induction ss rule: min_slot.induct) (auto simp: Let_def)

text \<open>Replacing one slot: the old session of the slot is forgotten, the new one is known.\<close>

lemma used_update:
  assumes "i < length ses"
  shows "used (ses[i := s]) = used (take i ses) @ used [s] @ used (drop (Suc i) ses)"
    and "used ses = used (take i ses) @ used [ses ! i] @ used (drop (Suc i) ses)"
proof -
  show "used (ses[i := s]) = used (take i ses) @ used [s] @ used (drop (Suc i) ses)"
    using assms by (simp add: upd_conv_take_nth_drop used_def)
  have "ses = take i ses @ [ses ! i] @ drop (Suc i) ses" using assms by (simp add: id_take_nth_drop)
  then show "used ses = used (take i ses) @ used [ses ! i] @ used (drop (Suc i) ses)"
    by (metis filter_append used_def)
qed

definition entry :: "Session \<Rightarrow> bytes \<times> UserRole \<times> u64" where
  "entry s = (session_hash s, session_role s, session_created s)"

lemma session_map_entry: "session_map ses = map_of (map entry (used ses))"
  by (simp add: session_map_def entry_def [abs_def])

lemma map_of_entry_None: "map_of (map entry ss) h = None \<longleftrightarrow> h \<notin> session_hash ` set ss"
  by (force simp: map_of_eq_None_iff entry_def)

lemma used_one: "used [s] = (if session_hash s = ZERO_HASH then [] else [s])"
  by (simp add: used_def)

lemma session_map_update:
  assumes "store_ok ses" and "i < length ses"
    and "session_hash s = ZERO_HASH \<or> session_hash s \<notin> session_hash ` set (used ses)"
  shows "session_map (ses[i := s]) h =
      (if session_hash s = h \<and> h \<noteq> ZERO_HASH then Some (session_role s, session_created s)
       else if session_hash (ses ! i) = h then None else session_map ses h)"
    and "store_ok (ses[i := s])"
proof -
  let ?a = "used (take i ses)" and ?b = "used (drop (Suc i) ses)"
  note u = used_update [OF assms(2)]
  show "store_ok (ses[i := s])"
    using assms(1,3) unfolding store_ok_def u(2) by (auto simp: u(1) used_one)
  have z: "map_of (map entry (used ss)) ZERO_HASH = None" for ss by (auto simp: map_of_entry_None used_def)
  have old: "map_of (map entry ?a) (session_hash (ses ! i)) = None" "map_of (map entry ?b) (session_hash (ses ! i)) = None"
    using assms(1) z unfolding store_ok_def u(2)
    by (cases "session_hash (ses ! i) = ZERO_HASH"; auto simp: map_of_entry_None used_one)+
  have new: "map_of (map entry ?a) (session_hash s) = None"
    using assms(3) z unfolding u(2) by (cases "session_hash s = ZERO_HASH") (auto simp: map_of_entry_None)
  show "session_map (ses[i := s]) h =
      (if session_hash s = h \<and> h \<noteq> ZERO_HASH then Some (session_role s, session_created s)
       else if session_hash (ses ! i) = h then None else session_map ses h)"
    using old new z [of "take i ses"] z [of "drop (Suc i) ses"] unfolding session_map_entry u
    by (auto simp: used_one entry_def map_add_def split: option.split)
qed

section \<open>The laws of a session store\<close>

text \<open>
  What the login, the logout and the check of a request rely on: the store keeps a map of known
  sessions; a login may forget others but never invents one, a logout forgets its own.
\<close>

locale token_store =
  fixes find_s :: "u64 \<Rightarrow> bytes \<Rightarrow> 's \<Rightarrow> UserRole option"
    and insert_s :: "u64 \<Rightarrow> bytes \<Rightarrow> UserRole \<Rightarrow> 's \<Rightarrow> 's"
    and remove_s :: "bytes \<Rightarrow> 's \<Rightarrow> 's"
    and ok :: "'s \<Rightarrow> bool"
    and known :: "'s \<Rightarrow> bytes \<rightharpoonup> UserRole \<times> u64"
  assumes find_known: "find_s now h s = (case known s h of Some (r, t) \<Rightarrow> if fresh now t then Some r else None | None \<Rightarrow> None)"
    and insert_ok: "ok s \<Longrightarrow> h \<noteq> ZERO_HASH \<Longrightarrow> known s h = None \<Longrightarrow> ok (insert_s now h r s)"
    and insert_new: "ok s \<Longrightarrow> h \<noteq> ZERO_HASH \<Longrightarrow> known s h = None \<Longrightarrow> known (insert_s now h r s) h = Some (r, now)"
    and insert_old: "ok s \<Longrightarrow> h \<noteq> ZERO_HASH \<Longrightarrow> known s h = None \<Longrightarrow> h' \<noteq> h \<Longrightarrow>
      known (insert_s now h r s) h' = known s h' \<or> known (insert_s now h r s) h' = None"
    and remove_ok: "ok s \<Longrightarrow> ok (remove_s h s)"
    and remove_known: "ok s \<Longrightarrow> known (remove_s h s) = (known s)(h := None)"

text \<open>A history of the store, and the sessions that have been opened and not closed in it.\<close>

datatype session_op = Login u64 bytes UserRole | Logout bytes

fun live :: "(bytes \<times> UserRole \<times> u64) set \<Rightarrow> session_op list \<Rightarrow> (bytes \<times> UserRole \<times> u64) set" where
  "live L [] = L"
| "live L (Login t h r # ops) = live (insert (h, r, t) L) ops"
| "live L (Logout h # ops) = live {x \<in> L. fst x \<noteq> h} ops"

fun logins :: "session_op list \<Rightarrow> bytes list" where
  "logins [] = []"
| "logins (Login t h r # ops) = h # logins ops"
| "logins (Logout h # ops) = logins ops"

fun run_ops :: "(u64 \<Rightarrow> bytes \<Rightarrow> UserRole \<Rightarrow> 's \<Rightarrow> 's) \<Rightarrow> (bytes \<Rightarrow> 's \<Rightarrow> 's) \<Rightarrow> session_op list \<Rightarrow> 's \<Rightarrow> 's" where
  "run_ops ins rem [] s = s"
| "run_ops ins rem (Login t h r # ops) s = run_ops ins rem ops (ins t h r s)"
| "run_ops ins rem (Logout h # ops) s = run_ops ins rem ops (rem h s)"

context token_store
begin

lemma login_found:
  "ok s \<Longrightarrow> h \<noteq> ZERO_HASH \<Longrightarrow> known s h = None \<Longrightarrow> fresh now t \<Longrightarrow> find_s now h (insert_s t h r s) = Some r"
  by (simp add: find_known insert_new)

lemma logout_forgets: "ok s \<Longrightarrow> find_s now h (remove_s h s) = None"
  by (simp add: find_known remove_known)

lemma run_live:
  assumes "ok s" and "\<And>h x. known s h = Some x \<Longrightarrow> (h, x) \<in> L"
    and "distinct (logins ops)" and "ZERO_HASH \<notin> set (logins ops)" and "\<And>h. h \<in> set (logins ops) \<Longrightarrow> known s h = None"
  shows "ok (run_ops insert_s remove_s ops s) \<and> (\<forall>h x. known (run_ops insert_s remove_s ops s) h = Some x \<longrightarrow> (h, x) \<in> live L ops)"
  using assms
proof (induction ops arbitrary: s L rule: logins.induct)
  case (2 t h r ops)
  have n: "known s h = None" and z: "h \<noteq> ZERO_HASH" using "2.prems" by auto
  have k: "known (insert_s t h r s) h' = Some x \<Longrightarrow> (h', x) \<in> insert (h, r, t) L" for h' x
    using insert_new [OF "2.prems"(1) z n, of t r] insert_old [OF "2.prems"(1) z n, of h' t r] "2.prems"(2) [of h' x]
    by (cases "h' = h") auto
  have "known (insert_s t h r s) h' = None" if "h' \<in> set (logins ops)" for h'
    using insert_old [OF "2.prems"(1) z n, of h'] "2.prems"(3,5) that by fastforce
  then show ?case
    using "2.IH" [OF insert_ok [OF "2.prems"(1) z n] k] "2.prems"(3,4) by simp
next
  case (3 h ops)
  have k: "known (remove_s h s) h' = Some x \<Longrightarrow> (h', x) \<in> {x \<in> L. fst x \<noteq> h}" for h' x
    using "3.prems"(2) by (simp add: remove_known "3.prems"(1) split: if_splits)
  have "known (remove_s h s) h' = None" if "h' \<in> set (logins ops)" for h'
    using "3.prems"(5) that by (simp add: remove_known "3.prems"(1))
  then show ?case
    using "3.IH" [OF remove_ok [OF "3.prems"(1)] k] "3.prems"(3,4) by simp
qed simp

lemma found_live:
  assumes "ok s" and "known s = Map.empty" and "distinct (logins ops)" and "ZERO_HASH \<notin> set (logins ops)"
    and "find_s now h (run_ops insert_s remove_s ops s) = Some r"
  shows "\<exists>t. (h, r, t) \<in> live {} ops \<and> fresh now t"
  using run_live [OF assms(1) _ assms(3,4), of "{}"] assms(2,5)
  by (fastforce simp: find_known split: option.splits if_splits)

end

section \<open>The four slots satisfy them\<close>

lemma session_insert_slot:
  assumes "length ses = MAX_SESSIONS"
  obtains i where "i < length ses"
    and "session_insert now h r ses = ses[i := \<lparr>session_hash = h, session_role = r, session_created = now\<rparr>]"
    and "session_hash (ses ! i) = ZERO_HASH \<or> i = min_slot ses \<and> (\<forall>s \<in> set ses. session_hash s \<noteq> ZERO_HASH)"
proof (cases "first_slot (\<lambda>slot. session_hash slot = ZERO_HASH) ses")
  case None
  moreover have "ses \<noteq> []" using assms by (auto simp: MAX_SESSIONS_def)
  moreover from None have "\<forall>s \<in> set ses. session_hash s \<noteq> ZERO_HASH" by (simp add: first_slot_None)
  ultimately show ?thesis
    using that [of "min_slot ses"] min_slot_least [of ses] by (simp add: session_insert_def)
next
  case (Some i)
  then show ?thesis using that [of i] first_slot_Some [OF Some] by (simp add: session_insert_def)
qed

lemma session_map_None: "session_map ses h = None \<longleftrightarrow> h \<notin> session_hash ` set (used ses)"
  by (simp add: session_map_entry map_of_entry_None)

lemma session_insert_map:
  assumes "store_ok ses" and "h \<noteq> ZERO_HASH" and "session_map ses h = None"
  shows "store_ok (session_insert now h r ses)" "session_map (session_insert now h r ses) h = Some (r, now)"
    and "h' \<noteq> h \<Longrightarrow> session_map (session_insert now h r ses) h' = session_map ses h'
      \<or> session_map (session_insert now h r ses) h' = None"
proof -
  obtain i where i: "i < length ses"
    and s: "session_insert now h r ses = ses[i := \<lparr>session_hash = h, session_role = r, session_created = now\<rparr>]"
    using session_insert_slot [of ses now h r] assms(1) by (auto simp: store_ok_def)
  note u = session_map_update [OF assms(1) i, of "\<lparr>session_hash = h, session_role = r, session_created = now\<rparr>"]
  show "store_ok (session_insert now h r ses)" "session_map (session_insert now h r ses) h = Some (r, now)"
    "h' \<noteq> h \<Longrightarrow> session_map (session_insert now h r ses) h' = session_map ses h'
      \<or> session_map (session_insert now h r ses) h' = None"
    using u assms(2,3) unfolding s by (simp_all add: session_map_None)
qed

lemma session_remove_map:
  assumes "store_ok ses"
  shows "store_ok (session_remove h ses)" "session_map (session_remove h ses) = (session_map ses)(h := None)"
proof -
  have "store_ok (session_remove h ses) \<and> session_map (session_remove h ses) = (session_map ses)(h := None)"
  proof (cases "first_slot (\<lambda>slot. session_hash slot = h) ses")
    case None
    then have "session_map ses h = None" by (auto simp: session_map_None first_slot_None used_def)
    with None assms show ?thesis by (auto simp: session_remove_def)
  next
    case (Some i)
    from first_slot_Some [OF Some] have i: "i < length ses" "session_hash (ses ! i) = h" by simp_all
    have e: "session_hash session_empty = ZERO_HASH" by (simp add: session_empty_def)
    have "session_map (ses[i := session_empty]) x = (if x = h then None else session_map ses x)" for x
      using session_map_update(1) [OF assms i(1), of session_empty x] e i(2) by auto
    with Some e show ?thesis
      using session_map_update(2) [OF assms i(1), of session_empty] by (simp add: session_remove_def fun_eq_iff)
  qed
  then show "store_ok (session_remove h ses)" "session_map (session_remove h ses) = (session_map ses)(h := None)" by simp_all
qed

interpretation http_sessions: token_store session_find session_insert session_remove store_ok session_map
  by unfold_locales (simp_all add: session_find_eq session_insert_map session_remove_map)

lemma sessions_new_ok: "store_ok sessions_new" "session_map sessions_new = Map.empty"
  by (simp_all add: store_ok_def sessions_new_def session_map_def used_def session_empty_def)

text \<open>
  C21: whatever sequence of logins and logouts the store has seen since the start, a token is accepted
  only for a login with this token and role that has not been logged out and is younger than 24 hours. (The hashes
  of the random tokens are different and not zero.)
\<close>

theorem session_sound:
  assumes "distinct (logins ops)" and "ZERO_HASH \<notin> set (logins ops)"
    and "session_find now h (run_ops session_insert session_remove ops sessions_new) = Some r"
  shows "\<exists>t. (h, r, t) \<in> live {} ops \<and> (now < t \<or> now - t < 86400000)"
  using http_sessions.found_live [OF sessions_new_ok assms]
  by (auto simp: fresh_def saturating_sub_def SESSION_EXPIRY_MS_def split: if_splits)

lemma session_sound_witness:
  "\<exists>t. (replicate 32 1, Admin, t) \<in> live {} [Login 10 (replicate 32 1) Admin] \<and> ((20 :: u64) < t \<or> 20 - t < 86400000)"
proof (rule session_sound)
  show "session_find 20 (replicate 32 1)
      (run_ops session_insert session_remove [Login 10 (replicate 32 1) Admin] sessions_new) = Some Admin"
    using http_sessions.login_found [OF sessions_new_ok(1), of "replicate 32 1" 20 10 Admin]
    by (simp add: sessions_new_ok(2) ZERO_HASH_def fresh_def saturating_sub_def SESSION_EXPIRY_MS_def)
qed (simp_all add: ZERO_HASH_def)

section \<open>How long a session lasts\<close>

text \<open>
  The session \<open>s0\<close> stands in a slot, no other slot has its hash or its time, and at most \<open>k\<close>
  slots hold a younger session.
\<close>

definition younger :: "sessions \<Rightarrow> nat \<Rightarrow> u64 \<Rightarrow> nat set" where
  "younger ses i t = {j. j < MAX_SESSIONS \<and> j \<noteq> i \<and> session_hash (ses ! j) \<noteq> ZERO_HASH \<and> t < session_created (ses ! j)}"

definition held :: "Session \<Rightarrow> nat \<Rightarrow> sessions \<Rightarrow> bool" where
  "held s0 k ses \<longleftrightarrow> length ses = MAX_SESSIONS \<and> session_hash s0 \<noteq> ZERO_HASH
     \<and> (\<exists>i < MAX_SESSIONS. ses ! i = s0
          \<and> (\<forall>j < MAX_SESSIONS. j \<noteq> i \<longrightarrow> session_hash (ses ! j) \<noteq> session_hash s0
               \<and> (session_hash (ses ! j) = ZERO_HASH \<or> session_created (ses ! j) \<noteq> session_created s0))
          \<and> card (younger ses i (session_created s0)) \<le> k)"

lemma finite_younger [simp]: "finite (younger ses i t)"
  by (simp add: younger_def)

lemma find_unique:
  assumes "\<forall>s \<in> set ses. session_hash s = session_hash s0 \<longrightarrow> s = s0" and "s0 \<in> set ses"
    and "session_hash s0 \<noteq> ZERO_HASH" and "fresh now (session_created s0)"
  shows "session_find now (session_hash s0) ses = Some (session_role s0)"
  using assms by (induction ses) (auto simp: fresh_def)

lemma held_found:
  assumes "held s0 k ses" and "fresh now (session_created s0)"
  shows "session_find now (session_hash s0) ses = Some (session_role s0)"
proof (rule find_unique [OF _ _ _ assms(2)])
  obtain i where i: "i < length ses" "ses ! i = s0"
    and o: "\<forall>j < length ses. j \<noteq> i \<longrightarrow> session_hash (ses ! j) \<noteq> session_hash s0"
    using assms(1) by (auto simp: held_def)
  then show "\<forall>s \<in> set ses. session_hash s = session_hash s0 \<longrightarrow> s = s0" by (metis in_set_conv_nth)
  show "s0 \<in> set ses" using i by auto
  show "session_hash s0 \<noteq> ZERO_HASH" using assms(1) by (simp add: held_def)
qed

lemma held_new:
  assumes "length ses = MAX_SESSIONS" and "h \<noteq> ZERO_HASH" and "\<forall>s \<in> set ses. session_hash s \<noteq> h"
    and "\<forall>s \<in> set (used ses). session_created s < t"
  shows "held \<lparr>session_hash = h, session_role = r, session_created = t\<rparr> 0 (session_insert t h r ses)"
proof -
  obtain i where i: "i < length ses"
    and s: "session_insert t h r ses = ses[i := \<lparr>session_hash = h, session_role = r, session_created = t\<rparr>]"
    using session_insert_slot [OF assms(1)] by metis
  have o: "session_hash (ses ! j) \<noteq> h \<and> (session_hash (ses ! j) = ZERO_HASH \<or> session_created (ses ! j) < t)"
    if "j < MAX_SESSIONS" for j
  proof -
    have "ses ! j \<in> set ses" using that by (simp add: assms(1))
    with assms(3,4) show ?thesis by (auto simp: used_def)
  qed
  then have "younger (session_insert t h r ses) i t = {}" unfolding s by (fastforce simp: younger_def)
  with i o assms(1,2) show ?thesis
    unfolding held_def s by (intro conjI exI [of _ i]) fastforce+
qed

lemma held_insert:
  assumes "held s0 k ses" and "k < 3" and "t > session_created s0" and "h \<noteq> session_hash s0"
  shows "held s0 (Suc k) (session_insert t h r ses)"
proof -
  let ?t = "session_created s0"
  obtain i where i: "i < MAX_SESSIONS" "ses ! i = s0"
    and o: "\<forall>j < MAX_SESSIONS. j \<noteq> i \<longrightarrow> session_hash (ses ! j) \<noteq> session_hash s0
      \<and> (session_hash (ses ! j) = ZERO_HASH \<or> session_created (ses ! j) \<noteq> ?t)"
    and c: "card (younger ses i ?t) \<le> k" and l: "length ses = MAX_SESSIONS" and z: "session_hash s0 \<noteq> ZERO_HASH"
    using assms(1) by (auto simp: held_def)
  obtain m where m: "m < MAX_SESSIONS"
    and s: "session_insert t h r ses = ses[m := \<lparr>session_hash = h, session_role = r, session_created = t\<rparr>]"
    and e: "session_hash (ses ! m) = ZERO_HASH \<or> m = min_slot ses \<and> (\<forall>s \<in> set ses. session_hash s \<noteq> ZERO_HASH)"
    using session_insert_slot [OF l] l by metis
  have "m \<noteq> i"
  proof
    assume "m = i"
    with e z i have mi: "i = min_slot ses" and f: "\<forall>s \<in> set ses. session_hash s \<noteq> ZERO_HASH" by auto
    have "ses \<noteq> []" using l by (auto simp: MAX_SESSIONS_def)
    from min_slot_least [OF this] have le: "\<forall>s \<in> set ses. ?t \<le> session_created s" using mi i by simp
    have "{j. j < MAX_SESSIONS \<and> j \<noteq> i} \<subseteq> younger ses i ?t"
    proof
      fix j assume "j \<in> {j. j < MAX_SESSIONS \<and> j \<noteq> i}"
      then have j: "j < MAX_SESSIONS" "j \<noteq> i" "ses ! j \<in> set ses" using l by auto
      then have "session_hash (ses ! j) \<noteq> ZERO_HASH" "session_created (ses ! j) \<noteq> ?t" "?t \<le> session_created (ses ! j)"
        using o f le by auto
      with j show "j \<in> younger ses i ?t" by (simp add: younger_def)
    qed
    then have "card {j. j < MAX_SESSIONS \<and> j \<noteq> i} \<le> k" using c by (meson card_mono finite_younger le_trans)
    moreover have "{j. j < MAX_SESSIONS \<and> j \<noteq> i} = {..<MAX_SESSIONS} - {i}" by auto
    ultimately show False using i(1) assms(2) by (simp add: MAX_SESSIONS_def)
  qed
  have "younger (session_insert t h r ses) i ?t \<subseteq> insert m (younger ses i ?t)"
    using m l unfolding s by (auto simp: younger_def nth_list_update split: if_splits)
  then have "card (younger (session_insert t h r ses) i ?t) \<le> card (insert m (younger ses i ?t))"
    by (intro card_mono) simp_all
  then have "card (younger (session_insert t h r ses) i ?t) \<le> Suc k"
    using c by (simp add: card_insert_if split: if_splits)
  moreover have "session_insert t h r ses ! i = s0" using i \<open>m \<noteq> i\<close> by (simp add: s)
  moreover have "session_hash (session_insert t h r ses ! j) \<noteq> session_hash s0
      \<and> (session_hash (session_insert t h r ses ! j) = ZERO_HASH \<or> session_created (session_insert t h r ses ! j) \<noteq> ?t)"
    if "j < MAX_SESSIONS" "j \<noteq> i" for j
    using o that assms(3,4) l unfolding s by (cases "j = m") auto
  ultimately show ?thesis
    using i(1) z l unfolding held_def by (auto simp: s)
qed

lemma held_remove:
  assumes "held s0 k ses" and "h \<noteq> session_hash s0"
  shows "held s0 k (session_remove h ses)"
proof (cases "first_slot (\<lambda>slot. session_hash slot = h) ses")
  case None
  with assms show ?thesis by (simp add: session_remove_def)
next
  case (Some m)
  have s: "session_remove h ses = ses[m := session_empty]" using Some by (simp add: session_remove_def)
  have m: "m < length ses" "session_hash (ses ! m) = h" using first_slot_Some [OF Some] by simp_all
  obtain i where i: "i < MAX_SESSIONS" "ses ! i = s0"
    and o: "\<forall>j < MAX_SESSIONS. j \<noteq> i \<longrightarrow> session_hash (ses ! j) \<noteq> session_hash s0
      \<and> (session_hash (ses ! j) = ZERO_HASH \<or> session_created (ses ! j) \<noteq> session_created s0)"
    and c: "card (younger ses i (session_created s0)) \<le> k" and l: "length ses = MAX_SESSIONS" and z: "session_hash s0 \<noteq> ZERO_HASH"
    using assms(1) by (auto simp: held_def)
  have mi: "m \<noteq> i" using assms(2) m i by auto
  have "younger (session_remove h ses) i (session_created s0) \<subseteq> younger ses i (session_created s0)"
    using m(1) unfolding s by (auto simp: younger_def nth_list_update session_empty_def split: if_splits)
  then have "card (younger (session_remove h ses) i (session_created s0)) \<le> k"
    using c by (meson card_mono finite_younger le_trans)
  moreover have "session_remove h ses ! i = s0" using i mi by (simp add: s)
  moreover have "session_hash (session_remove h ses ! j) \<noteq> session_hash s0
      \<and> (session_hash (session_remove h ses ! j) = ZERO_HASH \<or> session_created (session_remove h ses ! j) \<noteq> session_created s0)"
    if "j < MAX_SESSIONS" "j \<noteq> i" for j
    using o that z l unfolding s by (cases "j = m") (auto simp: session_empty_def)
  ultimately show ?thesis
    using i(1) z l unfolding held_def by (auto simp: s)
qed

text \<open>What happens later: younger logins with other tokens, logouts of other tokens.\<close>

fun others :: "bytes \<Rightarrow> u64 \<Rightarrow> session_op \<Rightarrow> bool" where
  "others h t (Login t' h' r) \<longleftrightarrow> t < t' \<and> h' \<noteq> h"
| "others h t (Logout h') \<longleftrightarrow> h' \<noteq> h"

lemma held_run:
  assumes "held s0 k ses" and "list_all (others (session_hash s0) (session_created s0)) ops"
    and "k + length (logins ops) \<le> 3"
  shows "held s0 (k + length (logins ops)) (run_ops session_insert session_remove ops ses)"
  using assms
proof (induction ops arbitrary: k ses rule: logins.induct)
  case (2 t h r ops)
  have "held s0 (Suc k) (session_insert t h r ses)" using "2.prems" by (intro held_insert) simp_all
  with "2.IH" [of "Suc k"] "2.prems" show ?case by simp
next
  case (3 h ops)
  with held_remove [OF "3.prems"(1), of h] show ?case by simp
qed simp

text \<open>
  C36: a login that is younger than the sessions in the store is found, with its role, for 24 hours
  from then on, however many other sessions are closed and as long as at most three later logins follow; only a
  fourth one may evict it.
\<close>

theorem session_lasts:
  assumes "store_ok ses" and "h \<noteq> ZERO_HASH" and "\<forall>s \<in> set ses. session_hash s \<noteq> h"
    and "\<forall>s \<in> set (used ses). session_created s < t"
    and "list_all (others h t) ops" and "length (logins ops) \<le> 3"
    and "now < t \<or> now - t < 86400000"
  shows "session_find now h (run_ops session_insert session_remove ops (session_insert t h r ses)) = Some r"
proof -
  let ?s0 = "\<lparr>session_hash = h, session_role = r, session_created = t\<rparr>"
  have "held ?s0 0 (session_insert t h r ses)" using assms(1-4) by (intro held_new) (simp_all add: store_ok_def)
  from held_run [OF this, of ops] have "held ?s0 (length (logins ops)) (run_ops session_insert session_remove ops (session_insert t h r ses))"
    using assms(5,6) by simp
  from held_found [OF this, of now] assms(7) show ?thesis
    by (auto simp: fresh_def saturating_sub_def SESSION_EXPIRY_MS_def)
qed

lemma session_lasts_witness:
  "session_find 500 (replicate 32 1) (run_ops session_insert session_remove
     [Login 20 (replicate 32 2) Viewer, Login 30 (replicate 32 3) Viewer, Logout (replicate 32 2), Login 40 (replicate 32 4) Viewer]
     (session_insert 10 (replicate 32 1) Admin sessions_new)) = Some Admin"
  by (rule session_lasts) (simp_all add: sessions_new_ok, simp_all add: sessions_new_def used_def session_empty_def ZERO_HASH_def)

end
