(* ===== verification/Http_Text.thy ===== *)
theory Http_Text
  imports Bridge Auth
begin

text \<open>
  The text helpers of \<open>firmware/src/http.rs\<close>: JSON escaping, the extraction of a string field, roles
  and hexadecimal digits, and the values of the event stream.
\<close>

section \<open>Helpers\<close>

definition hex_nibble_char :: "u8 \<Rightarrow> u8" where
  "hex_nibble_char n = (if n \<le> 9 then 48 + n else 97 + n - 10)"

definition hex_upper :: "u8 \<Rightarrow> u8" where
  "hex_upper n = (if n \<le> 9 then 48 + n else 65 + n - 10)"

text \<open>The plaintext of a token: \<open>let _ = plaintext.push(..)\<close>, twice for each random byte.\<close>

definition push_hex :: "bytes \<Rightarrow> u8 \<Rightarrow> bytes" where
  "push_hex s byte =
     push_ignore 64 (push_ignore 64 s [hex_nibble_char (drop_bit 4 byte)]) [hex_nibble_char (byte AND 0x0F)]"

definition plaintext_token :: "bytes \<Rightarrow> bytes" where
  "plaintext_token raw = foldl push_hex [] raw"

definition parse_role :: "bytes \<Rightarrow> UserRole" where
  "parse_role s =
     (if s = str ''admin'' \<or> s = str ''Admin'' then Admin
      else if s = str ''operator'' \<or> s = str ''Operator'' then Operator
      else Viewer)"

fun role_str :: "UserRole \<Rightarrow> bytes" where
  "role_str Admin = str ''admin''"
| "role_str Operator = str ''operator''"
| "role_str Viewer = str ''viewer''"

text \<open>What \<open>json_escape_into\<close> appends for one character; \<open>92\<close> is the backslash.\<close>

definition escaped :: "bytes \<Rightarrow> bytes" where
  "escaped ch =
     (case ch of
        [b] \<Rightarrow>
          if b = QUOTE then [92, QUOTE]
          else if b = 92 then [92, 92]
          else if b = 10 then [92, 110]
          else if b = 13 then [92, 114]
          else if b = 9 then [92, 116]
          else if b < 0x20 then push_until 8 [] [[92, 117], [48, 48, hex_upper (drop_bit 4 b), hex_upper (b AND 0x0F)]]
          else [b]
      | _ \<Rightarrow> ch)"

fun json_escape_chars :: "nat \<Rightarrow> bytes list \<Rightarrow> bytes \<Rightarrow> bytes \<times> bool" where
  "json_escape_chars cap [] out = (out, True)"
| "json_escape_chars cap (ch # cs) out =
     (case push_str cap out (escaped ch) of None \<Rightarrow> (out, False) | Some out \<Rightarrow> json_escape_chars cap cs out)"

definition json_escape_into :: "nat \<Rightarrow> bytes \<Rightarrow> bytes \<Rightarrow> bytes \<times> bool" where
  "json_escape_into cap s out = json_escape_chars cap (chars s) out"

definition extract_json_str :: "bytes \<Rightarrow> bytes \<Rightarrow> bytes option" where
  "extract_json_str js key =
     (let pattern = push_ignore 64 (push_ignore 64 (push_ignore 64 [] [QUOTE]) key) [QUOTE, 58, QUOTE] in
      Option.bind (str_find pattern js) (\<lambda>i.
      let rest = drop (i + length pattern) js in
      Option.bind (str_find [QUOTE] rest) (\<lambda>end_pos. Some (take end_pos rest))))"

text \<open>\<open>{}\<close> of a \<open>bool\<close>.\<close>

definition bool_text :: "bool \<Rightarrow> bytes" where
  "bool_text b = (if b then str ''true'' else str ''false'')"

fun format_point_value :: "BacnetValue option \<Rightarrow> bytes \<Rightarrow> bytes" where
  "format_point_value (Some (Real f)) out =
     (let whole = f32_to_i32 f;
          frac = f32_to_u32 (f32_mul (f32_abs (f32_sub f (f32_of_i32 whole))) (f32_of_u32 1000)) in
      push_until 64 out (dec_int (sint whole) @ [str ''.''] @ dec_padded 3 (unat frac)))"
| "format_point_value (Some (UnsignedInt n)) out = push_until 64 out [dec_digits (unat n)]"
| "format_point_value (Some (Boolean b)) out = push_until 64 out [bool_text b]"
| "format_point_value (Some (SignedInt n)) out = push_until 64 out (dec_int (sint n))"
| "format_point_value (Some (Enumerated n)) out = push_until 64 out [dec_digits (unat n)]"
| "format_point_value (Some (CharString cs)) out =
     push_ignore 64
       (foldl (\<lambda>out ch.
          if ch = [QUOTE] then push_ignore 64 (push_ignore 64 out [92]) [QUOTE]
          else if ch = [92] then push_ignore 64 (push_ignore 64 out [92]) [92]
          else push_ignore 64 out ch) (push_ignore 64 out [QUOTE]) (chars cs))
       [QUOTE]"
| "format_point_value (Some (ObjectIdentifier oid)) out =
     push_until 64 out
       [[QUOTE], dec_digits (unat (object_type_code (object_type oid))), str '':'', dec_digits (unat (instance_no oid)), [QUOTE]]"
| "format_point_value (Some Null) out = push_ignore 64 out (str ''null'')"
| "format_point_value None out = push_ignore 64 out (str ''null'')"

section \<open>JSON strings\<close>

text \<open>
  A reader of the contents of a JSON string (RFC 8259) up to its closing quote: the text and what
  follows it. Raw quotes end it, raw control characters are errors, \<open>\u\<close> escapes are read for
  characters of one byte.
\<close>

definition hex_value :: "u8 \<Rightarrow> nat option" where
  "hex_value c =
     (if 48 \<le> c \<and> c \<le> 57 then Some (unat (c - 48))
      else if 65 \<le> c \<and> c \<le> 70 then Some (unat (c - 55))
      else if 97 \<le> c \<and> c \<le> 102 then Some (unat (c - 87)) else None)"

definition escape_value :: "u8 \<Rightarrow> u8 option" where
  "escape_value c =
     (if c = 34 \<or> c = 92 \<or> c = 47 then Some c else if c = 98 then Some 8 else if c = 102 then Some 12
      else if c = 110 then Some 10 else if c = 114 then Some 13 else if c = 116 then Some 9 else None)"

definition cons_text :: "u8 \<Rightarrow> (bytes \<times> bytes) option \<Rightarrow> (bytes \<times> bytes) option" where
  "cons_text b r = map_option (\<lambda>(t, rest). (b # t, rest)) r"

function json_text :: "bytes \<Rightarrow> (bytes \<times> bytes) option" where
  "json_text [] = None"
| "json_text (b # bs) =
     (if b = 34 then Some ([], bs)
      else if b < 0x20 then None
      else if b \<noteq> 92 then cons_text b (json_text bs)
      else case bs of
        [] \<Rightarrow> None
      | e # r \<Rightarrow>
          if e = 117 then
            (case r of
               z1 # z2 # h1 # h2 # r \<Rightarrow>
                 (case (hex_value z1, hex_value z2, hex_value h1, hex_value h2) of
                    (Some 0, Some 0, Some a, Some c) \<Rightarrow>
                      if a < 8 then cons_text (of_nat (16 * a + c)) (json_text r) else None
                  | _ \<Rightarrow> None)
             | _ \<Rightarrow> None)
          else (case escape_value e of None \<Rightarrow> None | Some v \<Rightarrow> cons_text v (json_text r)))"
  by pat_completeness auto
termination by (relation "measure length") auto

declare json_text.simps [simp del]

lemma json_text_plain: "b \<noteq> 34 \<Longrightarrow> b \<noteq> 92 \<Longrightarrow> 0x20 \<le> b \<Longrightarrow> json_text (b # bs) = cons_text b (json_text bs)"
  by (simp add: json_text.simps(2) word_le_nat_alt word_less_nat_alt)

definition text_after :: "bytes \<Rightarrow> (bytes \<times> bytes) option \<Rightarrow> (bytes \<times> bytes) option" where
  "text_after s r = map_option (\<lambda>(t, rest). (s @ t, rest)) r"

lemma text_after_simps [simp]:
  "text_after [] r = r" "text_after (b # s) r = cons_text b (text_after s r)"
  "text_after s (text_after s' r) = text_after (s @ s') r"
  by (cases r; simp add: text_after_def cons_text_def case_prod_unfold)+

lemma json_text_group: "\<forall>b \<in> set s. 0x80 \<le> b \<Longrightarrow> json_text (s @ r) = text_after s (json_text r)"
proof (induction s)
  case (Cons b s)
  have "0x20 \<le> b" using Cons.prems by (auto intro: order_trans [of _ "0x80"])
  moreover have "b \<noteq> 34" "b \<noteq> 92" using Cons.prems by auto
  ultimately show ?case using Cons by (simp add: json_text_plain)
qed simp

text \<open>The escape sequence of one byte is read back as this byte.\<close>

definition hex_pair :: "u8 \<Rightarrow> bool" where
  "hex_pair b \<longleftrightarrow> (case (hex_value (hex_upper (drop_bit 4 b)), hex_value (hex_upper (b AND 0x0F))) of
     (Some a, Some c) \<Rightarrow> a < 16 \<and> (b < 0x20 \<longrightarrow> a < 8) \<and> of_nat (16 * a + c) = b | _ \<Rightarrow> False)"

lemma hex_pair: "hex_pair b"
  by (rule all_bytes) code_simp

lemma json_text_escaped_byte: "b < 0x80 \<Longrightarrow> json_text (escaped [b] @ r) = cons_text b (json_text r)"
proof (cases "b = QUOTE \<or> b = 92 \<or> b = 10 \<or> b = 13 \<or> b = 9")
  case True
  then show ?thesis by (auto simp: escaped_def QUOTE_def json_text.simps(2) [of 92] escape_value_def)
next
  case False
  show ?thesis
  proof (cases "b < 0x20")
    case True
    have "hex_value 48 = Some 0" by (simp add: hex_value_def)
    then show ?thesis
      using False True hex_pair [of b]
      by (auto simp: escaped_def push_str_def json_text.simps(2) [of 92] hex_pair_def split: option.splits)
  next
    case f: False
    with False have "escaped [b] = [b]" by (simp add: escaped_def)
    with False f show ?thesis by (simp add: QUOTE_def json_text_plain)
  qed
qed

lemma json_text_escaped_char:
  assumes "(\<exists>b. ch = [b] \<and> b < 0x80) \<or> (\<forall>c \<in> set ch. 0x80 \<le> c)"
  shows "json_text (escaped ch @ r) = text_after ch (json_text r)"
proof (cases "\<forall>c \<in> set ch. 0x80 \<le> c")
  case True
  then have "b \<noteq> QUOTE \<and> b \<noteq> 92 \<and> b \<noteq> 10 \<and> b \<noteq> 13 \<and> b \<noteq> 9 \<and> \<not> b < 0x20" if "ch = [b]" for b
    using True that by (auto simp: QUOTE_def word_le_nat_alt word_less_nat_alt)
  then have "escaped ch = ch" by (auto simp: escaped_def split: list.split)
  with True show ?thesis by (simp add: json_text_group)
next
  case False
  with assms show ?thesis by (auto simp: json_text_escaped_byte)
qed

lemma json_text_escaped:
  "\<forall>ch \<in> set cs. (\<exists>b. ch = [b] \<and> b < 0x80) \<or> (\<forall>c \<in> set ch. 0x80 \<le> c) \<Longrightarrow>
   json_text (concat (map escaped cs) @ r) = text_after (concat cs) (json_text r)"
  by (induction cs) (simp_all add: json_text_escaped_char)

lemma json_escape_chars_eq:
  "json_escape_chars cap cs out = (out', True) \<Longrightarrow> out' = out @ concat (map escaped cs)"
proof (induction cs arbitrary: out)
  case (Cons ch cs)
  then show ?case using Cons.IH [of "out @ escaped ch"] by (simp add: push_str_def split: if_splits)
qed simp

lemma json_escape_chars_prefix:
  "length out \<le> cap \<Longrightarrow> json_escape_chars cap cs out = (out', ok) \<Longrightarrow>
   length out' \<le> cap \<and> (\<exists>n. out' = out @ concat (map escaped (take n cs)) \<and> (ok \<longrightarrow> n = length cs))"
proof (induction cs arbitrary: out)
  case (Cons ch cs)
  show ?case
  proof (cases "length out + length (escaped ch) \<le> cap")
    case True
    then have "length out' \<le> cap \<and> (\<exists>n. out' = (out @ escaped ch) @ concat (map escaped (take n cs)) \<and> (ok \<longrightarrow> n = length cs))"
      using Cons.prems(2) by (intro Cons.IH) (simp_all add: push_str_def)
    then obtain n where "length out' \<le> cap" "out' = (out @ escaped ch) @ concat (map escaped (take n cs)) \<and> (ok \<longrightarrow> n = length cs)"
      by blast
    then show ?thesis by (intro conjI exI [of _ "Suc n"]) simp_all
  next
    case False
    with Cons.prems show ?thesis by (intro conjI exI [of _ 0]) (simp_all add: push_str_def)
  qed
qed simp

text \<open>
  C37: whatever valid text is escaped, what has been written fits the buffer and is, followed by a
  quote, the contents of a well-formed JSON string which reads back as a prefix of whole characters of the text, and
  as all of it when the function reports success.
\<close>

theorem json_escape_valid:
  assumes "utf8_valid s" and "json_escape_into cap s [] = (out, ok)"
  shows "length out \<le> cap \<and> (\<exists>n. json_text (out @ QUOTE # rest) = Some (concat (take n (chars s)), rest)
    \<and> (ok \<longrightarrow> concat (take n (chars s)) = s))"
proof -
  obtain n where n: "length out \<le> cap" "out = concat (map escaped (take n (chars s)))" "ok \<longrightarrow> n = length (chars s)"
    using json_escape_chars_prefix [of "[]" cap "chars s" out ok] assms(2) by (auto simp: json_escape_into_def)
  have "\<forall>ch \<in> set (take n (chars s)). (\<exists>b. ch = [b] \<and> b < 0x80) \<or> (\<forall>c \<in> set ch. 0x80 \<le> c)"
    using utf8_chars [OF assms(1)] by (meson in_set_takeD)
  from json_text_escaped [OF this, of "QUOTE # rest"]
  have "json_text (out @ QUOTE # rest) = Some (concat (take n (chars s)), rest)"
    by (simp add: n(2) QUOTE_def json_text.simps(2) text_after_def)
  with n(1,3) show ?thesis by (intro conjI exI [of _ n]) auto
qed

lemma json_escape_valid_witness:
  "json_text ([65, 92, 34, 66, 92, 117, 48, 48, 48, 49] @ QUOTE # [125]) = Some ([65, 34, 66, 1], [125])"
proof -
  have e: "json_escape_into 256 [65, 34, 66, 1] [] = ([65, 92, 34, 66, 92, 117, 48, 48, 48, 49], True)" by code_simp
  have "utf8_valid [65, 34, 66, 1]" by code_simp
  from json_escape_valid [OF this e, of "[125]"] show ?thesis by auto
qed

section \<open>Tokens\<close>

lemma plaintext_token_eq:
  assumes "length raw \<le> 32"
  shows "plaintext_token raw =
    concat (map (\<lambda>b. [hex_nibble_char (drop_bit 4 b), hex_nibble_char (b AND 0x0F)]) raw)"
proof -
  have "length s + 2 * length bs \<le> 64 \<Longrightarrow> foldl push_hex s bs =
      s @ concat (map (\<lambda>b. [hex_nibble_char (drop_bit 4 b), hex_nibble_char (b AND 0x0F)]) bs)" for s bs
    by (induction bs arbitrary: s) (simp_all add: push_hex_def push_ignore_def push_str_def)
  from this [of "[]" raw] assms show ?thesis by (simp add: plaintext_token_def)
qed

lemma hex_ascii: "hex_nibble_char (drop_bit 4 b) < 0x80 \<and> hex_nibble_char (b AND 0x0F) < 0x80"
  by (rule all_bytes [of "\<lambda>b. hex_nibble_char (drop_bit 4 b) < 0x80 \<and> hex_nibble_char (b AND 0x0F) < 0x80"]) code_simp

lemma utf8_all_ascii: "\<forall>b \<in> set s. b < 0x80 \<Longrightarrow> utf8_valid s"
  by (induction s) simp_all

lemma plaintext_token_ascii:
  assumes "length raw = 32"
  shows "length (plaintext_token raw) = 64" "\<forall>b \<in> set (plaintext_token raw). b < 0x80"
  using assms hex_ascii by (auto simp: plaintext_token_eq length_concat comp_def sum_list_triv)

section \<open>Assets\<close>

text \<open>\<open>send_gzip_asset\<close>: the cache header, and the body in pieces of 512 bytes from an offset on.\<close>

definition cache_control :: "bool \<Rightarrow> bytes" where
  "cache_control immutable = (if immutable then str ''public, max-age=31536000, immutable'' else str ''no-cache'')"

function write_content :: "nat \<Rightarrow> bytes \<Rightarrow> bytes list" where
  "write_content i d =
     (if i < length d then
        (let j = min (i + 512) (length d) in take (j - i) (drop i d) # write_content j d)
      else [])"
  by pat_completeness auto
termination by (relation "measure (\<lambda>(i, d). length d - i)") auto

declare write_content.simps [simp del]

text \<open>The pieces are the body, none is empty or longer than 512 bytes.\<close>

lemma write_content_body: "concat (write_content i d) = drop i d"
proof (induction i d rule: write_content.induct)
  case (1 i d)
  show ?case
  proof (cases "i < length d")
    case True
    let ?j = "min (i + 512) (length d)"
    have "concat (write_content i d) = take (?j - i) (drop i d) @ drop ?j d"
      using 1 [OF True refl] True by (simp add: write_content.simps [of i d] Let_def)
    also have "drop ?j d = drop (?j - i) (drop i d)" using True by simp
    finally show ?thesis by (simp only: append_take_drop_id)
  qed (simp add: write_content.simps [of i d])
qed

lemma write_content_pieces: "\<forall>p \<in> set (write_content i d). p \<noteq> [] \<and> length p \<le> 512"
proof (induction i d rule: write_content.induct)
  case (1 i d)
  then show ?case by (cases "i < length d") (auto simp: write_content.simps [of i d] Let_def min_def)
qed

end
