(* ===== verification/Ota.thy ===== *)
theory Ota
  imports Rust_Str
begin

text \<open>
  \<open>bridge-core/src/ota.rs\<close>: the check of a firmware header, UF2 blocks, the update manifest and the
  comparison of versions.
\<close>

section \<open>Firmware images\<close>

definition MAX_FIRMWARE_SIZE :: nat where "MAX_FIRMWARE_SIZE = 1500000"
definition FLASH_BASE :: u32 where "FLASH_BASE = 0x10000000"
definition FLASH_END_MAX :: u32 where "FLASH_END_MAX = 0x10400000"
definition RAM_BASE :: u32 where "RAM_BASE = 0x20000000"
definition RAM_END_RP2040 :: u32 where "RAM_END_RP2040 = 0x20042000"
definition RAM_END_RP2350 :: u32 where "RAM_END_RP2350 = 0x20082000"

lemmas ota_consts = FLASH_BASE_def FLASH_END_MAX_def RAM_BASE_def RAM_END_RP2040_def RAM_END_RP2350_def

text \<open>\<open>u32::from_le_bytes\<close> of the four bytes at a position.\<close>

definition le32_at :: "bytes \<Rightarrow> nat \<Rightarrow> u32" where
  "le32_at d i = ucast (d ! i) OR push_bit 8 (ucast (d ! (i + 1))) OR push_bit 16 (ucast (d ! (i + 2)))
     OR push_bit 24 (ucast (d ! (i + 3)))"

definition validate_firmware_image :: "bytes \<Rightarrow> bool" where
  "validate_firmware_image hdr =
     (if length hdr < 8 then False
      else
        let sp = le32_at hdr 0;
            reset_raw = le32_at hdr 4;
            reset_vec = reset_raw AND NOT 1;
            sp_valid = sp mod 4 = 0 \<and> sp \<ge> RAM_BASE \<and> (sp \<le> RAM_END_RP2040 \<or> sp \<le> RAM_END_RP2350);
            rv_valid = FLASH_BASE \<le> reset_vec \<and> reset_vec < FLASH_END_MAX in
        sp_valid \<and> rv_valid)"

section \<open>UF2\<close>

definition UF2_BLOCK_SIZE :: nat where "UF2_BLOCK_SIZE = 512"
definition UF2_PAYLOAD_SIZE :: nat where "UF2_PAYLOAD_SIZE = 256"
definition UF2_MAGIC1 :: u32 where "UF2_MAGIC1 = 0x0A324655"
definition UF2_MAGIC2 :: u32 where "UF2_MAGIC2 = 0x9E5D5157"
definition UF2_MAGIC3 :: u32 where "UF2_MAGIC3 = 0x0AB16F30"

definition is_uf2 :: "bytes \<Rightarrow> bool" where
  "is_uf2 d = (if length d < 4 then False else le32_at d 0 = UF2_MAGIC1)"

definition parse_uf2_block :: "bytes \<Rightarrow> (string, u32 \<times> bytes \<times> u32 \<times> u32) result" where
  "parse_uf2_block block =
     (if length block < UF2_BLOCK_SIZE then Err ''block too short''
      else
        let magic1 = le32_at block 0;
            magic2 = le32_at block 4;
            target_addr = le32_at block 12;
            payload_size = unat (le32_at block 16);
            block_num = le32_at block 20;
            total_blocks = le32_at block 24;
            magic3 = le32_at block 508 in
        if magic1 \<noteq> UF2_MAGIC1 then Err ''bad magic1''
        else if magic2 \<noteq> UF2_MAGIC2 then Err ''bad magic2''
        else if magic3 \<noteq> UF2_MAGIC3 then Err ''bad magic3''
        else if payload_size > UF2_PAYLOAD_SIZE then Err ''payload too large''
        else Ok (target_addr, take payload_size (drop 32 block), block_num, total_blocks))"

section \<open>Manifest\<close>

record ManifestEntry =
  mf_version :: bytes
  mf_url :: bytes
  mf_sha256 :: bytes
  mf_size :: u32

text \<open>\<open>windows(n).position(..)\<close>\<close>

definition find_bytes :: "bytes \<Rightarrow> bytes \<Rightarrow> nat option" where
  "find_bytes haystack needle = (if needle = [] then Some 0 else str_find needle haystack)"

fun position :: "(u8 \<Rightarrow> bool) \<Rightarrow> bytes \<Rightarrow> nat option" where
  "position P [] = None"
| "position P (b # bs) = (if P b then Some 0 else map_option Suc (position P bs))"

text \<open>A slice that starts behind the end panics.\<close>

definition find_after :: "bytes \<Rightarrow> nat \<Rightarrow> u8 \<Rightarrow> (DecodeError, nat option) result" where
  "find_after d start b =
     (if start > length d then Panic
      else Ok (map_option (\<lambda>p. start + p) (position (\<lambda>x. x = b) (drop start d))))"

definition require :: "(DecodeError, 'a option) result \<Rightarrow> (DecodeError, 'a) result" where
  "require m = and_then m (ok_or InvalidData)"

definition build_quoted_key :: "bytes \<Rightarrow> (DecodeError, bytes) result" where
  "build_quoted_key key = (if length key + 2 > 34 then Err LengthOutOfBounds else Ok (34 # key @ [34]))"

text \<open>The loop of \<open>find_closing_brace\<close>: position, depth (an \<open>i32\<close>), and the two flags.\<close>

fun closing_loop :: "bytes \<Rightarrow> nat \<Rightarrow> int \<Rightarrow> bool \<Rightarrow> bool \<Rightarrow> nat option" where
  "closing_loop [] i depth in_string escape = None"
| "closing_loop (b # bs) i depth in_string escape =
     (if escape then closing_loop bs (i + 1) depth in_string False
      else if in_string then
        (if b = 92 then closing_loop bs (i + 1) depth in_string True
         else if b = 34 then closing_loop bs (i + 1) depth False False
         else closing_loop bs (i + 1) depth in_string False)
      else if b = 34 then closing_loop bs (i + 1) depth True False
      else if b = 123 then closing_loop bs (i + 1) (depth + 1) False False
      else if b = 125 then
        (if depth - 1 = 0 then Some i else closing_loop bs (i + 1) (depth - 1) False False)
      else closing_loop bs (i + 1) depth False False)"

definition find_closing_brace :: "bytes \<Rightarrow> nat \<Rightarrow> nat option" where
  "find_closing_brace d open_pos = closing_loop (drop open_pos d) open_pos 0 False False"

definition extract_string_field :: "bytes \<Rightarrow> bytes \<Rightarrow> (DecodeError, bytes) result" where
  "extract_string_field obj key =
     (if length key + 2 > 66 then Err InvalidData
      else
        let needle = 34 # key @ [34] in
        and_then (ok_or InvalidData (find_bytes obj needle)) (\<lambda>key_pos.
        let after_key = key_pos + length needle in
        and_then (require (find_after obj after_key 58)) (\<lambda>colon.
        and_then (require (find_after obj (colon + 1) 34)) (\<lambda>value_quote.
        let value_start = value_quote + 1 in
        and_then (require (find_after obj value_start 34)) (\<lambda>closing.
          Ok (take (closing - value_start) (drop value_start obj)))))))"

fun skip_blanks :: "bytes \<Rightarrow> bytes" where
  "skip_blanks [] = []"
| "skip_blanks (b # bs) = (if b = 32 \<or> b = 9 \<or> b = 10 then skip_blanks bs else b # bs)"

definition sat_mul10_add :: "u32 \<Rightarrow> u8 \<Rightarrow> u32" where
  "sat_mul10_add v b =
     (let m = min (unat v * 10) (2 ^ 32 - 1) in of_nat (min (m + unat (b - 48)) (2 ^ 32 - 1)))"

fun number_loop :: "bytes \<Rightarrow> u32 \<Rightarrow> bool \<Rightarrow> u32 \<times> bool" where
  "number_loop [] v found = (v, found)"
| "number_loop (b # bs) v found =
     (if is_digit b then number_loop bs (sat_mul10_add v b) True else (v, found))"

definition extract_number_field :: "bytes \<Rightarrow> bytes \<Rightarrow> (DecodeError, u32) result" where
  "extract_number_field obj key =
     (if length key + 2 > 66 then Err InvalidData
      else
        let needle = 34 # key @ [34] in
        and_then (ok_or InvalidData (find_bytes obj needle)) (\<lambda>key_pos.
        let after_key = key_pos + length needle in
        and_then (require (find_after obj after_key 58)) (\<lambda>colon.
          let (value, found_digit) = number_loop (skip_blanks (drop (colon + 1) obj)) 0 False in
          if \<not> found_digit then Err InvalidData else Ok value)))"

definition hex_nibble :: "u8 \<Rightarrow> (DecodeError, u8) result" where
  "hex_nibble b =
     (if 48 \<le> b \<and> b \<le> 57 then Ok (b - 48)
      else if 97 \<le> b \<and> b \<le> 102 then Ok (b - 97 + 10)
      else if 65 \<le> b \<and> b \<le> 70 then Ok (b - 65 + 10)
      else Err InvalidData)"

fun hex_bytes :: "bytes \<Rightarrow> (DecodeError, bytes) result" where
  "hex_bytes (a # b # r) =
     and_then (hex_nibble a) (\<lambda>hi. and_then (hex_nibble b) (\<lambda>lo.
       and_then (hex_bytes r) (\<lambda>bs. Ok ((push_bit 4 hi OR lo) # bs))))"
| "hex_bytes _ = Ok []"

definition parse_sha256_hex :: "bytes \<Rightarrow> (DecodeError, bytes) result" where
  "parse_sha256_hex hex = (if length hex \<noteq> 64 then Err InvalidData else hex_bytes hex)"

text \<open>\<open>s.push(b as char)\<close>: a byte from 0x80 on is a character of two bytes.\<close>

fun push_bytes :: "nat \<Rightarrow> bytes \<Rightarrow> bytes \<Rightarrow> (DecodeError, bytes) result" where
  "push_bytes cap s [] = Ok s"
| "push_bytes cap s (b # bs) =
     (case push_str cap s (if b < 0x80 then [b] else [0xC0 OR drop_bit 6 b, 0x80 OR (b AND 0x3F)]) of
        None \<Rightarrow> Err LengthOutOfBounds
      | Some s \<Rightarrow> push_bytes cap s bs)"

definition parse_manifest :: "bytes \<Rightarrow> bytes \<Rightarrow> (DecodeError, ManifestEntry) result" where
  "parse_manifest js chan =
     (let channels_key = 34 # str ''channels'' @ [34] in
      and_then (ok_or InvalidData (find_bytes js channels_key)) (\<lambda>ch_pos.
      and_then (require (find_after js (ch_pos + length channels_key) 123)) (\<lambda>brace_pos.
      and_then (build_quoted_key chan) (\<lambda>chan_key.
      and_then (ok_or InvalidData (find_bytes (drop brace_pos js) chan_key)) (\<lambda>chan_pos.
      let chan_start = brace_pos + chan_pos + length chan_key in
      and_then (require (find_after js chan_start 123)) (\<lambda>chan_brace.
      and_then (ok_or InvalidData (find_closing_brace js chan_brace)) (\<lambda>chan_end.
      let chan_obj = take (chan_end + 1 - chan_brace) (drop chan_brace js) in
      and_then (extract_string_field chan_obj (str ''version'')) (\<lambda>version_raw.
      and_then (extract_string_field chan_obj (str ''url'')) (\<lambda>url_raw.
      and_then (extract_string_field chan_obj (str ''sha256'')) (\<lambda>sha256_raw.
      and_then (extract_number_field chan_obj (str ''size'')) (\<lambda>size_raw.
      and_then (push_bytes 32 [] version_raw) (\<lambda>version.
      and_then (push_bytes 128 [] url_raw) (\<lambda>url.
      and_then (parse_sha256_hex sha256_raw) (\<lambda>sha256.
        Ok \<lparr>mf_version = version, mf_url = url, mf_sha256 = sha256, mf_size = size_raw\<rparr>))))))))))))))"

section \<open>Versions\<close>

definition part_number :: "bytes list \<Rightarrow> nat \<Rightarrow> nat" where
  "part_number parts i =
     (if i < length parts then (case parse_uint 32 (parts ! i) of Some n \<Rightarrow> n | None \<Rightarrow> 0) else 0)"

definition parse_semver :: "bytes \<Rightarrow> nat \<times> nat \<times> nat" where
  "parse_semver s =
     (let base = split_on 45 s ! 0; parts = split_on 46 base in
      (part_number parts 0, part_number parts 1, part_number parts 2))"

definition is_newer_version :: "bytes \<Rightarrow> bytes \<Rightarrow> bool" where
  "is_newer_version current available =
     (case (parse_semver available, parse_semver current) of
        ((a1, a2, a3), (c1, c2, c3)) \<Rightarrow> a1 > c1 \<or> (a1 = c1 \<and> (a2 > c2 \<or> (a2 = c2 \<and> a3 > c3))))"

end
