(* ===== verification/Http.thy ===== *)
theory Http
  imports Http_Session Http_Text Ota
begin

text \<open>
  The request handlers of \<open>firmware/src/http.rs\<close> and their routing.

  A handler maps the state the tasks share (the configuration, the session store, the bridge tables,
  the request to save) and a request to the new state, the response and what happens after the
  response has been sent. It takes its locks one after the other; the model runs it without another
  task in between. The libraries are parameters, collected in \<open>HttpEnv\<close>: the digest (\<open>sha2\<close>), the
  JSON parser and printer (\<open>serde_json_core\<close>), the random numbers, the embedded files, the clock,
  and the answer of \<open>picoserve\<close> to a method a route has no handler for. Writing the response does not
  fail in the model.
\<close>

section \<open>Environment and state\<close>

record MstpStatus =
  active_baud :: u32
  frames_rx :: u32
  frames_tx :: u32
  errors_rx :: u32
  bus_active :: bool
  detecting :: bool
  loopback_ok :: u8

datatype Response =
    Json bytes
  | Text nat bytes
  | NoBody nat
  | GzipAsset bytes bytes bool
  | EventStream
  | Unsupported

datatype After = Serve | SystemReset | RebootIntoNewSlot

record HttpEnv =
  sha :: "bytes \<Rightarrow> bytes"
  now_ms :: u64
  random32 :: bytes
  parse_network :: "bytes \<Rightarrow> NetworkConfig option"
  parse_bacnet :: "bytes \<Rightarrow> BacnetDeviceConfig option"
  parse_ntp :: "bytes \<Rightarrow> NtpConfig option"
  parse_syslog :: "bytes \<Rightarrow> SyslogConfig option"
  parse_mqtt :: "bytes \<Rightarrow> MqttConfig option"
  parse_snmp :: "bytes \<Rightarrow> SnmpConfig option"
  parse_ota :: "bytes \<Rightarrow> OtaConfig option"
  parse_convertors :: "bytes \<Rightarrow> Convertor list option"
  parse_points :: "bytes \<Rightarrow> PointRule list option"
  parse_bridge :: "bytes \<Rightarrow> BridgeConfig option"
  render_bridge :: "BridgeConfig \<Rightarrow> bytes option"
  get_asset :: "bytes \<Rightarrow> (bytes \<times> bytes) option"
  current_ip :: u32
  mstp_status :: MstpStatus
  firmware_version :: bytes
  firmware_error :: "bytes option"

record Request =
  req_method :: bytes
  req_path :: bytes
  req_authorization :: "bytes option"
  req_body :: "bytes option"
  req_content_length :: nat

record HttpState =
  h_config :: "BridgeConfig option"
  h_sessions :: sessions
  h_bridge :: BridgeStateInner
  h_save :: bool

type_synonym handler = "HttpEnv \<Rightarrow> Request \<Rightarrow> HttpState \<Rightarrow> HttpState \<times> Response \<times> After"

definition line :: "string \<Rightarrow> bytes" where
  "line s = str s @ [13, 10]"

definition answer :: "Response \<Rightarrow> HttpState \<Rightarrow> HttpState \<times> Response \<times> After" where
  "answer r s = (s, r, Serve)"

definition request_save :: "HttpState \<Rightarrow> HttpState" where
  "request_save s = s\<lparr>h_save := True\<rparr>"

definition ok_json :: bytes where "ok_json = json ''{^ok^:true}''"

text \<open>\<open>from_utf8(body).unwrap_or("")\<close>\<close>

definition body_str :: "bytes \<Rightarrow> bytes" where
  "body_str b = (if utf8_valid b then b else [])"

section \<open>Authorization\<close>

definition bearer_token_ok :: "HttpEnv \<Rightarrow> bytes option \<Rightarrow> HttpState \<Rightarrow> bool" where
  "bearer_token_ok env authorization s =
     (let check = \<lambda>maybe_hash.
        (case h_config s of
           None \<Rightarrow> False
         | Some cfg \<Rightarrow>
             if \<not> provisioned cfg then True
             else case maybe_hash of
               None \<Rightarrow> False
             | Some hash \<Rightarrow>
                 if list_ex (\<lambda>t. token_hash t = hash) (tokens cfg) then True
                 else session_find (now_ms env) hash (h_sessions s) \<noteq> None) in
      case authorization of
        None \<Rightarrow> check None
      | Some v \<Rightarrow>
          if \<not> utf8_valid v then False
          else case strip_prefix (str ''Bearer '') v of
            None \<Rightarrow> False
          | Some t \<Rightarrow> check (Some (hash_token (sha env) t)))"

definition unauthorized :: Response where
  "unauthorized = Text 401 (line ''Unauthorized'')"

definition guarded :: "handler \<Rightarrow> handler" where
  "guarded h env req s =
     (if bearer_token_ok env (req_authorization req) s then h env req s else answer unauthorized s)"

section \<open>System handlers\<close>

definition ota_handler :: handler where
  "ota_handler env req s =
     (if req_content_length req = 0 then answer (Text 400 (line ''Content-Length must be non-zero'')) s
      else if req_content_length req > MAX_FIRMWARE_SIZE then
        answer (Text 413 (line ''Firmware image exceeds maximum allowed size'')) s
      else case firmware_error env of
        None \<Rightarrow> (s, Text 200 (line ''Firmware update complete. Rebooting...''), RebootIntoNewSlot)
      | Some msg \<Rightarrow> answer (Text 500 msg) s)"

definition reboot_handler :: handler where
  "reboot_handler env req s = (s, Text 200 ok_json, SystemReset)"

definition factory_reset_handler :: handler where
  "factory_reset_handler env req s =
     (let s = s\<lparr>h_config := map_option (\<lambda>_. bridge_config_default) (h_config s)\<rparr> in
      (request_save s, Text 200 ok_json, SystemReset))"

definition get_status_handler :: handler where
  "get_status_handler env req s =
     (let ip_packed = current_ip env;
          octet = \<lambda>n. dec_digits (unat (drop_bit n ip_packed AND 0xFF));
          m = mstp_status env in
      answer (Json (push_until 512 []
        [json ''{^uptime^:'', dec_digits (unat (now_ms env div 1000)), json '',^ip^:^'',
         octet 24, str ''.'', octet 16, str ''.'', octet 8, str ''.'', octet 0,
         json ''^,^deviceCount^:'', dec_digits (device_count (h_bridge s)),
         json '',^vendor^:^Icomb Place^,^firmware^:^'', firmware_version env,
         json ''^,^serial^:{^baud^:'', dec_digits (unat (active_baud m)),
         json '',^parity^:^8N1^,^framesRx^:'', dec_digits (unat (frames_rx m)),
         json '',^framesTx^:'', dec_digits (unat (frames_tx m)),
         json '',^errorsRx^:'', dec_digits (unat (errors_rx m)),
         json '',^busActive^:'', bool_text (bus_active m),
         json '',^detecting^:'', bool_text (detecting m),
         json '',^loopback^:'', dec_digits (unat (loopback_ok m)), json ''}}''])) s)"

definition static_json :: "bytes \<Rightarrow> handler" where
  "static_json body env req s = answer (Json body) s"

definition sse_handler :: handler where
  "sse_handler env req s = answer EventStream s"

definition openapi_handler :: handler where
  "openapi_handler env req s =
     answer (Json (json ''{^openapi^:^3.1.0^,^info^:{^title^:^BACnet Bridge API^,^version^:^'' @ firmware_version env
       @ json ''^,^contact^:{^name^:^Icomb Place^}},^paths^:{}}'')) s"

section \<open>Devices\<close>

definition device_entry :: "DeviceEntry \<Rightarrow> bytes" where
  "device_entry d =
     push_until 384 []
       [json ''{^deviceId^:'', dec_digits (unat (de_device_id d)),
        json '',^name^:^'', fst (json_escape_into 256 (de_name d) []),
        json ''^,^pointsLoaded^:'', bool_text (de_points_loaded d), json ''}'']"

text \<open>The loop of the list handlers: a comma before each entry but the first one.\<close>

fun push_entries :: "nat \<Rightarrow> bytes list \<Rightarrow> bool \<Rightarrow> bytes \<Rightarrow> bytes" where
  "push_entries cap [] fst_one body = body"
| "push_entries cap (e # es) fst_one body =
     (let body = (if \<not> fst_one then push_ignore cap body (str '','') else body) in
      push_entries cap es False (push_ignore cap body e))"

definition json_list :: "nat \<Rightarrow> bytes list \<Rightarrow> bytes" where
  "json_list cap es = push_ignore cap (push_entries cap es True (push_ignore cap [] (str ''[''))) (str '']'')"

definition get_devices_handler :: handler where
  "get_devices_handler env req s =
     answer (Json (json_list 1024 (map (\<lambda>i. device_entry (devices (h_bridge s) ! i)) [0..<device_count (h_bridge s)]))) s"

section \<open>Network and BACnet configuration\<close>

definition dotted_quad :: "bytes \<Rightarrow> bytes list" where
  "dotted_quad a =
     [dec_digits (unat (a ! 0)), str ''.'', dec_digits (unat (a ! 1)), str ''.'',
      dec_digits (unat (a ! 2)), str ''.'', dec_digits (unat (a ! 3))]"

definition not_ready :: Response where
  "not_ready = Text 404 (line ''config not ready'')"

definition get_network_handler :: handler where
  "get_network_handler env req s =
     (case h_config s of
        None \<Rightarrow> answer not_ready s
      | Some cfg \<Rightarrow>
          let net = network cfg in
          answer (Json (push_until 256 []
            ([json ''{^dhcp^:'', bool_text (dhcp net), json '',^ip^:^''] @ dotted_quad (ip net)
             @ [json ''^,^subnet^:^''] @ dotted_quad (subnet net)
             @ [json ''^,^gateway^:^''] @ dotted_quad (gateway net)
             @ [json ''^,^dns^:^''] @ dotted_quad (dns net) @ [json ''^}'']))) s)"

definition get_bacnet_handler :: handler where
  "get_bacnet_handler env req s =
     (case h_config s of
        None \<Rightarrow> answer not_ready s
      | Some cfg \<Rightarrow>
          let bac = bacnet cfg in
          answer (Json (push_until 384 []
            [json ''{^deviceId^:'', dec_digits (unat (device_id bac)),
             json '',^deviceName^:^'', fst (json_escape_into 256 (device_name bac) []),
             json ''^,^mstpMac^:'', dec_digits (unat (mstp_mac bac)),
             json '',^mstpBaud^:'', dec_digits (unat (mstp_baud bac)),
             json '',^maxMaster^:'', dec_digits (unat (max_master bac)), json ''}''])) s)"

definition change_config :: "(BridgeConfig \<Rightarrow> BridgeConfig) \<Rightarrow> HttpState \<Rightarrow> HttpState" where
  "change_config f s = s\<lparr>h_config := map_option f (h_config s)\<rparr>"

definition put_network :: handler where
  "put_network env req s =
     (case req_body req of
        None \<Rightarrow> answer (Text 400 (line ''failed to read body'')) s
      | Some b \<Rightarrow>
          (case parse_network env (body_str b) of
             None \<Rightarrow> answer (Text 400 (line ''invalid JSON'')) s
           | Some net_cfg \<Rightarrow>
               answer (NoBody 204) (request_save (change_config (\<lambda>cfg. cfg\<lparr>network := net_cfg\<rparr>) s))))"

definition put_network_handler :: handler where
  "put_network_handler = guarded put_network"

definition put_bacnet :: handler where
  "put_bacnet env req s =
     (case req_body req of
        None \<Rightarrow> answer (Text 400 (line ''failed to read body'')) s
      | Some b \<Rightarrow>
          (case parse_bacnet env (body_str b) of
             None \<Rightarrow> answer (Text 400 (line ''invalid JSON'')) s
           | Some bac_cfg \<Rightarrow>
               answer (NoBody 204) (request_save (change_config (\<lambda>cfg. cfg\<lparr>bacnet := bac_cfg\<rparr>) s))))"

definition put_bacnet_handler :: handler where
  "put_bacnet_handler = guarded put_bacnet"

section \<open>Login and logout\<close>

datatype LoginCheck = ConfigMissing | Unprovisioned | Authenticated UserRole | BadCredentials

fun check_user :: "HttpEnv \<Rightarrow> bytes \<Rightarrow> bytes \<Rightarrow> UserConfig list \<Rightarrow> LoginCheck" where
  "check_user env name password [] = BadCredentials"
| "check_user env name password (u # us) =
     (if username u = name then
        (if verify_password (sha env) password (password_salt u) (password_hash u)
         then Authenticated (user_role u) else BadCredentials)
      else check_user env name password us)"

definition login_check :: "HttpEnv \<Rightarrow> bytes \<Rightarrow> bytes \<Rightarrow> HttpState \<Rightarrow> LoginCheck" where
  "login_check env name password s =
     (case h_config s of
        None \<Rightarrow> ConfigMissing
      | Some cfg \<Rightarrow> if users cfg = [] then Unprovisioned else check_user env name password (users cfg))"

definition field_or :: "bytes \<Rightarrow> string \<Rightarrow> bytes \<Rightarrow> bytes" where
  "field_or js key dflt = (case extract_json_str js (str key) of Some v \<Rightarrow> v | None \<Rightarrow> dflt)"

definition auth_login_handler :: handler where
  "auth_login_handler env req s =
     (case req_body req of
        None \<Rightarrow> answer (Text 400 (line ''failed to read body'')) s
      | Some b \<Rightarrow>
          let js = body_str b;
              name = field_or js ''username'' [];
              password = field_or js ''password'' [] in
          case login_check env name password s of
            ConfigMissing \<Rightarrow> answer (Text 503 (line ''config not ready'')) s
          | Unprovisioned \<Rightarrow>
              answer (Json (json ''{^ok^:true,^token^:^setup-token^,^role^:^admin^}'')) s
          | BadCredentials \<Rightarrow> answer (Text 401 (line ''invalid credentials'')) s
          | Authenticated r \<Rightarrow>
              let plaintext = plaintext_token (random32 env);
                  s = s\<lparr>h_sessions :=
                        session_insert (now_ms env) (hash_token (sha env) plaintext) r (h_sessions s)\<rparr> in
              answer (Json (push_until 128 []
                [json ''{^ok^:true,^token^:^'', plaintext, json ''^,^role^:^'', role_str r, json ''^}''])) s)"

definition auth_logout_handler :: handler where
  "auth_logout_handler env req s =
     (let s' = (case req_authorization req of
          None \<Rightarrow> s
        | Some v \<Rightarrow>
            if \<not> utf8_valid v then s
            else case strip_prefix (str ''Bearer '') v of
              None \<Rightarrow> s
            | Some token \<Rightarrow> s\<lparr>h_sessions := session_remove (hash_token (sha env) token) (h_sessions s)\<rparr>) in
      answer (Json ok_json) s')"

section \<open>Users and tokens\<close>

definition user_entry :: "UserConfig \<Rightarrow> bytes" where
  "user_entry u =
     push_until 128 []
       [json ''{^username^:^'', fst (json_escape_into 64 (username u) []), json ''^,^role^:^'', role_str (user_role u),
        json ''^}'']"

definition get_users_handler :: handler where
  "get_users_handler env req s =
     answer (Json (json_list 512 (case h_config s of None \<Rightarrow> [] | Some cfg \<Rightarrow> map user_entry (users cfg)))) s"

definition token_entry :: "TokenConfig \<Rightarrow> bytes" where
  "token_entry t =
     push_until 192 []
       [json ''{^name^:^'', fst (json_escape_into 64 (token_name t) []), json ''^,^role^:^'', role_str (token_role t),
        json ''^,^createdBy^:^'', fst (json_escape_into 64 (created_by t) []), json ''^}'']"

definition get_tokens_handler :: handler where
  "get_tokens_handler env req s =
     answer (Json (json_list 512 (case h_config s of None \<Rightarrow> [] | Some cfg \<Rightarrow> map token_entry (tokens cfg)))) s"

text \<open>\<open>for ch in s.chars().take(n) { let _ = out.push(ch); }\<close>\<close>

definition push_first_chars :: "nat \<Rightarrow> bytes \<Rightarrow> bytes" where
  "push_first_chars n s = foldl (push_ignore n) [] (take n (chars s))"

definition post_users :: handler where
  "post_users env req s =
     (case req_body req of
        None \<Rightarrow> answer (Text 400 (line ''failed to read body'')) s
      | Some b \<Rightarrow>
          let js = body_str b;
              name = field_or js ''username'' [];
              password = field_or js ''password'' [];
              role_text = field_or js ''role'' (str ''admin'') in
          if name = [] \<or> password = [] then answer (Text 400 (line ''username and password required'')) s
          else
            let salt = random32 env;
                user = \<lparr>username = push_first_chars 16 name, password_salt = salt,
                        password_hash = hash_password (sha env) password salt, user_role = parse_role role_text\<rparr> in
            case h_config s of
              None \<Rightarrow> answer (Json ok_json) (request_save s)
            | Some cfg \<Rightarrow>
                (case vec_push 8 (users cfg) user of
                   None \<Rightarrow> answer (Text 422 (line ''user list full'')) s
                 | Some us \<Rightarrow>
                     answer (Json ok_json)
                       (request_save (s\<lparr>h_config := Some (cfg\<lparr>users := us, provisioned := True\<rparr>)\<rparr>))))"

definition post_users_handler :: handler where
  "post_users_handler = guarded post_users"

definition post_tokens :: handler where
  "post_tokens env req s =
     (case req_body req of
        None \<Rightarrow> answer (Text 400 (line ''failed to read body'')) s
      | Some b \<Rightarrow>
          let js = body_str b;
              name = field_or js ''name'' (str ''api-token'');
              role_text = field_or js ''role'' (str ''admin'');
              author = field_or js ''createdBy'' (str ''admin'');
              plaintext = plaintext_token (random32 env);
              token = \<lparr>token_name = push_first_chars 32 name, token_hash = hash_token (sha env) plaintext,
                       token_role = parse_role role_text, created_by = push_first_chars 16 author\<rparr>;
              reply = Json (push_until 128 []
                [json ''{^ok^:true,^name^:^'', name, json ''^,^token^:^'', plaintext, json ''^}'']) in
          case h_config s of
            None \<Rightarrow> answer reply (request_save s)
          | Some cfg \<Rightarrow>
              (case vec_push 16 (tokens cfg) token of
                 None \<Rightarrow> answer (Text 422 (line ''token list full'')) s
               | Some ts \<Rightarrow> answer reply (request_save (s\<lparr>h_config := Some (cfg\<lparr>tokens := ts\<rparr>)\<rparr>))))"

definition post_tokens_handler :: handler where
  "post_tokens_handler = guarded post_tokens"

section \<open>Bulk configuration\<close>

text \<open>The printer writes into a buffer of 2048 bytes, so the copy into a vector of that size is complete.\<close>

definition get_bulk_config_handler :: handler where
  "get_bulk_config_handler env req s =
     (case h_config s of
        None \<Rightarrow> answer not_ready s
      | Some cfg \<Rightarrow>
          (case render_bridge env cfg of
             None \<Rightarrow> answer (Text 500 (line ''config too large'')) s
           | Some js \<Rightarrow> answer (Json (push_ignore 2048 [] js)) s))"

definition put_bulk_config :: handler where
  "put_bulk_config env req s =
     (case req_body req of
        None \<Rightarrow> answer (Text 400 (line ''bad request'')) s
      | Some b \<Rightarrow>
          (case (h_config s, parse_bridge env (body_str b)) of
             (Some cfg, Some new_cfg) \<Rightarrow>
               if validate new_cfg then answer (Json ok_json) (request_save (s\<lparr>h_config := Some new_cfg\<rparr>))
               else answer (Text 400 (line ''invalid config'')) s
           | _ \<Rightarrow> answer (Text 400 (line ''invalid config'')) s))"

definition put_bulk_config_handler :: handler where
  "put_bulk_config_handler = guarded put_bulk_config"

section \<open>Assets and the catch-all service\<close>

definition not_found :: Response where
  "not_found = Text 404 (line ''not found'')"

definition send_asset :: "bytes \<Rightarrow> handler" where
  "send_asset path env req s =
     (case get_asset env path of
        None \<Rightarrow> answer not_found s
      | Some (body, content_type) \<Rightarrow> answer (GzipAsset body content_type (str_contains (str ''immutable'') path)) s)"

text \<open>The new configuration of \<open>PUT /api/v1/config/{section}\<close>, if the body can be parsed.\<close>

definition put_section :: "HttpEnv \<Rightarrow> bytes \<Rightarrow> bytes \<Rightarrow> BridgeConfig \<Rightarrow> BridgeConfig option" where
  "put_section env sect js cfg =
     (if sect = str ''ntp'' then map_option (\<lambda>v. cfg\<lparr>ntp := v\<rparr>) (parse_ntp env js)
      else if sect = str ''syslog'' then map_option (\<lambda>v. cfg\<lparr>syslog := v\<rparr>) (parse_syslog env js)
      else if sect = str ''mqtt'' then map_option (\<lambda>v. cfg\<lparr>mqtt := v\<rparr>) (parse_mqtt env js)
      else if sect = str ''snmp'' then map_option (\<lambda>v. cfg\<lparr>snmp := v\<rparr>) (parse_snmp env js)
      else if sect = str ''ota'' then map_option (\<lambda>v. cfg\<lparr>ota := v\<rparr>) (parse_ota env js)
      else if sect = str ''convertors'' then map_option (\<lambda>v. cfg\<lparr>convertors := v\<rparr>) (parse_convertors env js)
      else if sect = str ''points'' then map_option (\<lambda>v. cfg\<lparr>points := v\<rparr>) (parse_points env js)
      else Some cfg)"

definition put_section_handler :: "bytes \<Rightarrow> handler" where
  "put_section_handler sect env req s =
     (case req_body req of
        None \<Rightarrow> answer (Text 400 (line ''bad request'')) s
      | Some b \<Rightarrow>
          (case Option.bind (h_config s) (put_section env sect (body_str b)) of
             None \<Rightarrow> answer (Text 400 (line ''invalid config JSON'')) s
           | Some cfg \<Rightarrow> answer (NoBody 204) (request_save (s\<lparr>h_config := Some cfg\<rparr>))))"

text \<open>\<open>POST /api/v1/devices/{id}/refresh\<close>: the device, if the path names one.\<close>

definition refresh_id :: "bytes \<Rightarrow> nat option" where
  "refresh_id path =
     Option.bind (strip_prefix (str ''/api/v1/devices/'') path) (\<lambda>rest.
     Option.bind (strip_suffix (str ''/refresh'') rest) (parse_uint 32))"

definition refresh_device :: "nat \<Rightarrow> BridgeStateInner \<Rightarrow> BridgeStateInner" where
  "refresh_device dev b =
     (case find_device b (of_nat dev) of
        None \<Rightarrow> b
      | Some i \<Rightarrow> b\<lparr>devices := (devices b)[i := (devices b ! i)\<lparr>de_points_loaded := False\<rparr>]\<rparr>)"

definition catch_all :: handler where
  "catch_all env req s =
     (let path = req_path req; verb = req_method req in
      if verb \<in> {str ''PUT'', str ''POST'', str ''DELETE''} \<and> \<not> bearer_token_ok env (req_authorization req) s then
        answer unauthorized s
      else if verb = str ''PUT'' \<and> starts_with (str ''/api/v1/config/'') path then
        put_section_handler (drop (length (str ''/api/v1/config/'')) path) env req s
      else if verb = str ''GET'' \<and> starts_with (str ''/api/v1/devices/'') path \<and> str_contains (str ''/points'') path then
        answer (Json (str ''[]'')) s
      else if verb = str ''POST'' \<and> refresh_id path \<noteq> None then
        answer (Json ok_json) (s\<lparr>h_bridge := refresh_device (the (refresh_id path)) (h_bridge s)\<rparr>)
      else if verb = str ''DELETE'' \<and> strip_prefix (str ''/api/v1/users/'') path \<notin> {None, Some []} then
        answer (Json ok_json) (request_save
          (change_config (\<lambda>cfg. cfg\<lparr>users := filter (\<lambda>u. Some (username u) \<noteq> strip_prefix (str ''/api/v1/users/'') path) (users cfg)\<rparr>) s))
      else if verb = str ''DELETE'' \<and> strip_prefix (str ''/api/v1/tokens/'') path \<notin> {None, Some []} then
        answer (Json ok_json) (request_save
          (change_config (\<lambda>cfg. cfg\<lparr>tokens := filter (\<lambda>t. Some (token_name t) \<noteq> strip_prefix (str ''/api/v1/tokens/'') path) (tokens cfg)\<rparr>) s))
      else if verb = str ''GET'' \<and> starts_with (str ''/_app/'') path then send_asset path env req s
      else if verb = str ''GET'' then send_asset (str ''/index.html'') env req s
      else answer not_found s)"

section \<open>Routing\<close>

text \<open>
  The routes of \<open>build_app\<close>: the handlers of a path by method. A path that is not listed goes to the
  catch-all service, a method that a listed path has no handler for is answered by \<open>picoserve\<close>.
\<close>

definition routes :: "(string \<times> (string \<times> handler) list) list" where
  "routes =
     [(''/api/events'', [(''GET'', sse_handler)]),
      (''/api/v1/system/firmware'', [(''POST'', ota_handler)]),
      (''/api/v1/system/reboot'', [(''POST'', reboot_handler)]),
      (''/api/v1/devices'', [(''GET'', get_devices_handler)]),
      (''/api/v1/config/network'', [(''GET'', get_network_handler), (''PUT'', put_network_handler)]),
      (''/api/v1/config/bacnet'', [(''GET'', get_bacnet_handler), (''PUT'', put_bacnet_handler)]),
      (''/api/v1/system/status'', [(''GET'', get_status_handler)]),
      (''/api/v1/config/ntp'', [(''GET'', static_json
         (json ''{^enabled^:true,^use_dhcp_servers^:true,^servers^:[^pool.ntp.org^],^sync_interval_secs^:3600}''))]),
      (''/api/v1/config/syslog'', [(''GET'', static_json (json ''{^enabled^:false,^server^:^^,^port^:514}''))]),
      (''/api/v1/config/mqtt'', [(''GET'', static_json
         (json ''{^enabled^:false,^broker^:^^,^port^:1883,^client_id^:^bacnet-bridge^,^username^:^^,^password^:^^,^topic_prefix^:^bacnet^,^ha_discovery_enabled^:false,^ha_discovery_prefix^:^homeassistant^,^publish_points^:[]}''))]),
      (''/api/v1/config/snmp'', [(''GET'', static_json (json ''{^enabled^:false,^community^:^public^}''))]),
      (''/api/v1/config/points'', [(''GET'', static_json (str ''[]''))]),
      (''/api/v1/config/ota'', [(''GET'', static_json
         (json ''{^auto_update^:false,^manifest_url^:^^,^channel^:^release^,^check_interval_secs^:3600}''))]),
      (''/api/v1/config/convertors'', [(''GET'', static_json (str ''[]''))]),
      (''/api/v1/system/ota/check'', [(''POST'', static_json (json ''{^available^:false}''))]),
      (''/api/v1/auth/login'', [(''POST'', auth_login_handler)]),
      (''/api/v1/auth/logout'', [(''POST'', auth_logout_handler)]),
      (''/api/v1/users'', [(''GET'', get_users_handler), (''POST'', post_users_handler)]),
      (''/api/v1/tokens'', [(''GET'', get_tokens_handler), (''POST'', post_tokens_handler)]),
      (''/api/v1/config'', [(''GET'', get_bulk_config_handler), (''PUT'', put_bulk_config_handler)]),
      (''/api/v1/system/factory-reset'', [(''POST'', factory_reset_handler)]),
      (''/api/openapi.json'', [(''GET'', openapi_handler)]),
      (''/'', [(''GET'', send_asset (str ''/index.html''))]),
      (''/index.html'', [(''GET'', send_asset (str ''/index.html''))]),
      (''/robots.txt'', [(''GET'', send_asset (str ''/robots.txt''))])]"

fun handler_of :: "bytes \<Rightarrow> (string \<times> handler) list \<Rightarrow> handler" where
  "handler_of verb [] = (\<lambda>env req s. answer Unsupported s)"
| "handler_of verb ((m, h) # hs) = (if verb = str m then h else handler_of verb hs)"

fun route :: "bytes \<Rightarrow> bytes \<Rightarrow> (string \<times> (string \<times> handler) list) list \<Rightarrow> handler" where
  "route verb path [] = catch_all"
| "route verb path ((p, hs) # rs) = (if path = str p then handler_of verb hs else route verb path rs)"

definition serve_request :: handler where
  "serve_request env req s = route (req_method req) (req_path req) routes env req s"

end
