(* ===== verification/Http_Props.thy ===== *)
theory Http_Props
  imports Http
begin

text \<open>
  Who may change what over HTTP: the check of the credentials, the handlers that work without it, and
  the life of a session from the login on.
\<close>

section \<open>Credentials\<close>

text \<open>A bearer token that is an API token of the configuration or belongs to a live session.\<close>

definition credentials :: "HttpEnv \<Rightarrow> Request \<Rightarrow> HttpState \<Rightarrow> bool" where
  "credentials env req s \<longleftrightarrow>
     (\<exists>token cfg. req_authorization req = Some (str ''Bearer '' @ token) \<and> utf8_valid (str ''Bearer '' @ token)
        \<and> h_config s = Some cfg
        \<and> ((\<exists>t \<in> set (tokens cfg). token_hash t = sha env token)
           \<or> session_find (now_ms env) (sha env token) (h_sessions s) \<noteq> None))"

lemma bearer_token_ok_iff:
  assumes "h_config s = Some cfg" and "provisioned cfg"
  shows "bearer_token_ok env (req_authorization req) s \<longleftrightarrow> credentials env req s"
proof (cases "req_authorization req")
  case None
  with assms show ?thesis by (simp add: bearer_token_ok_def credentials_def)
next
  case (Some v)
  show ?thesis
  proof (cases "strip_prefix (str ''Bearer '') v")
    case None
    moreover from None have "\<forall>r. v \<noteq> str ''Bearer '' @ r" by (simp add: strip_prefix_None)
    ultimately show ?thesis using assms Some by (auto simp: bearer_token_ok_def credentials_def)
  next
    case t: (Some t)
    then have "v = str ''Bearer '' @ t" by (simp add: strip_prefix_iff)
    with assms Some t show ?thesis
      by (auto simp: bearer_token_ok_def credentials_def hash_token_def list_ex_iff)
  qed
qed

section \<open>What each handler leaves alone\<close>

text \<open>Without credentials the configuration and the bridge tables stay as they are.\<close>

definition untouched :: "HttpState \<Rightarrow> HttpState \<Rightarrow> bool" where
  "untouched s s' \<longleftrightarrow> h_config s' = h_config s \<and> h_bridge s' = h_bridge s \<and> h_save s' = h_save s"

definition harmless :: "handler \<Rightarrow> bool" where
  "harmless h \<longleftrightarrow> (\<forall>env req s. untouched s (fst (h env req s)))"

definition protected :: "handler \<Rightarrow> bool" where
  "protected h \<longleftrightarrow> (\<forall>env req s. \<not> bearer_token_ok env (req_authorization req) s \<longrightarrow> untouched s (fst (h env req s)))"

named_theorems harmless_handlers

lemma untouched_refl [simp]: "untouched s s"
  by (simp add: untouched_def)

lemma answer_fst [simp]: "fst (answer r s) = s"
  by (simp add: answer_def)

lemma harmless_protected: "harmless h \<Longrightarrow> protected h"
  by (simp add: harmless_def protected_def)

lemma guarded_protected: "protected (guarded h)"
  by (simp add: protected_def guarded_def)

lemma harmless_answers [harmless_handlers]:
  "harmless sse_handler" "harmless (static_json b)" "harmless openapi_handler" "harmless get_devices_handler"
  "harmless get_status_handler" "harmless get_users_handler" "harmless get_tokens_handler"
  by (simp_all add: harmless_def sse_handler_def static_json_def openapi_handler_def get_devices_handler_def
      get_status_handler_def Let_def get_users_handler_def get_tokens_handler_def)

lemma harmless_cases [harmless_handlers]:
  "harmless get_network_handler" "harmless get_bacnet_handler" "harmless get_bulk_config_handler" "harmless (send_asset p)"
  by (auto simp: harmless_def get_network_handler_def get_bacnet_handler_def get_bulk_config_handler_def send_asset_def Let_def
      split: option.split)

lemma harmless_system [harmless_handlers]: "harmless ota_handler" "harmless reboot_handler"
  by (auto simp: harmless_def ota_handler_def reboot_handler_def split: option.split)

lemma harmless_auth [harmless_handlers]: "harmless auth_login_handler" "harmless auth_logout_handler"
  by (auto simp: harmless_def auth_login_handler_def auth_logout_handler_def untouched_def Let_def
      split: option.split LoginCheck.split)

lemma catch_all_protected: "protected catch_all"
proof -
  have "untouched s (fst (catch_all env req s))"
    if n: "\<not> bearer_token_ok env (req_authorization req) s" for env req s
  proof (cases "req_method req \<in> {str ''PUT'', str ''POST'', str ''DELETE''}")
    case True
    with n show ?thesis by (simp add: catch_all_def Let_def)
  next
    case False
    then show ?thesis
      using harmless_cases(4) by (auto simp: catch_all_def Let_def harmless_def)
  qed
  then show ?thesis by (simp add: protected_def)
qed

section \<open>Routing\<close>

lemma handler_of_cases: "(\<exists>m. (m, handler_of verb hs) \<in> set hs \<and> verb = str m) \<or> handler_of verb hs = (\<lambda>env req s. answer Unsupported s)"
  by (induction hs rule: handler_of.induct) auto

lemma route_cases:
  "(\<exists>p hs m. (p, hs) \<in> set rs \<and> path = str p \<and> (m, route verb path rs) \<in> set hs \<and> verb = str m)
    \<or> route verb path rs = catch_all \<or> route verb path rs = (\<lambda>env req s. answer Unsupported s)"
proof (induction rs rule: route.induct)
  case (2 verb path p hs rs)
  then show ?case using handler_of_cases [of verb hs] by (cases "path = str p") auto
qed simp

text \<open>Every route but the factory reset is protected.\<close>

lemmas protected_handlers =
  guarded_protected harmless_answers [THEN harmless_protected] harmless_cases [THEN harmless_protected]
  harmless_system [THEN harmless_protected] harmless_auth [THEN harmless_protected]

lemma all_routes_protected:
  "list_all (\<lambda>(p, hs). list_all (\<lambda>(m, h). protected h
     \<or> p = ''/api/v1/system/factory-reset'' \<and> m = ''POST'' \<and> h = factory_reset_handler) hs) routes"
  unfolding routes_def put_network_handler_def put_bacnet_handler_def post_users_handler_def post_tokens_handler_def
    put_bulk_config_handler_def
  by (simp only: list.pred_inject prod.case protected_handlers simp_thms)

lemma routes_protected:
  "(p, hs) \<in> set routes \<Longrightarrow> (m, h) \<in> set hs \<Longrightarrow>
   protected h \<or> p = ''/api/v1/system/factory-reset'' \<and> m = ''POST'' \<and> h = factory_reset_handler"
  using all_routes_protected by (fastforce simp: list_all_iff)

lemma serve_protected:
  assumes "\<not> bearer_token_ok env (req_authorization req) s"
  shows "untouched s (fst (serve_request env req s))
    \<or> req_path req = str ''/api/v1/system/factory-reset'' \<and> req_method req = str ''POST''
      \<and> serve_request env req s = factory_reset_handler env req s"
proof -
  consider (listed) p hs m where "(p, hs) \<in> set routes" "req_path req = str p"
      "(m, route (req_method req) (req_path req) routes) \<in> set hs" "req_method req = str m"
    | (other) "route (req_method req) (req_path req) routes = catch_all"
    | (unsupported) "route (req_method req) (req_path req) routes = (\<lambda>env req s. answer Unsupported s)"
    using route_cases [of routes "req_path req" "req_method req"] by blast
  then show ?thesis
  proof cases
    case listed
    then show ?thesis
      using routes_protected [OF listed(1,3)] assms by (auto simp: serve_request_def protected_def)
  next
    case other
    then show ?thesis using catch_all_protected assms by (simp add: serve_request_def protected_def)
  next
    case unsupported
    then show ?thesis by (simp add: serve_request_def)
  qed
qed


section \<open>Login\<close>

definition bearer_header :: "bytes \<Rightarrow> bytes" where
  "bearer_header token = str ''Bearer '' @ token"

lemma bearer_header_ascii: "\<forall>b \<in> set token. b < 0x80 \<Longrightarrow> utf8_valid (bearer_header token)"
  by (rule utf8_all_ascii) (auto simp: bearer_header_def str_def)

lemma check_user_Authenticated:
  "check_user env name password us = Authenticated r \<Longrightarrow>
   \<exists>u \<in> set us. username u = name \<and> user_role u = r \<and> verify_password (sha env) password (password_salt u) (password_hash u)"
  by (induction us) (auto split: if_splits)

definition keeps_sessions :: "handler \<Rightarrow> bool" where
  "keeps_sessions h \<longleftrightarrow> (\<forall>env req s. h_sessions (fst (h env req s)) = h_sessions s)"

lemma keeps_guarded: "keeps_sessions h \<Longrightarrow> keeps_sessions (guarded h)"
  by (simp add: keeps_sessions_def guarded_def)

lemma h_sessions_simps [simp]:
  "h_sessions (request_save s) = h_sessions s" "h_sessions (change_config f s) = h_sessions s"
  by (simp_all add: request_save_def change_config_def)

lemma keeps_plain:
  "keeps_sessions sse_handler" "keeps_sessions (static_json b)" "keeps_sessions openapi_handler"
  "keeps_sessions get_devices_handler" "keeps_sessions get_status_handler" "keeps_sessions get_users_handler"
  "keeps_sessions get_tokens_handler" "keeps_sessions reboot_handler" "keeps_sessions factory_reset_handler"
  by (simp_all add: keeps_sessions_def sse_handler_def static_json_def openapi_handler_def get_devices_handler_def
      get_status_handler_def Let_def get_users_handler_def get_tokens_handler_def reboot_handler_def factory_reset_handler_def)

lemma keeps_cases:
  "keeps_sessions get_network_handler" "keeps_sessions get_bacnet_handler" "keeps_sessions get_bulk_config_handler"
  "keeps_sessions (send_asset p)" "keeps_sessions ota_handler" "keeps_sessions put_network_handler"
  "keeps_sessions put_bacnet_handler" "keeps_sessions put_bulk_config_handler"
  unfolding put_network_handler_def put_bacnet_handler_def put_bulk_config_handler_def
  by (auto simp: keeps_sessions_def get_network_handler_def get_bacnet_handler_def get_bulk_config_handler_def send_asset_def
      Let_def ota_handler_def put_network_def put_bacnet_def put_bulk_config_def
      split: option.split intro!: keeps_guarded [unfolded keeps_sessions_def, rule_format])

lemma keeps_posts: "keeps_sessions post_users_handler" "keeps_sessions post_tokens_handler"
  unfolding post_users_handler_def post_tokens_handler_def
  by (auto simp: keeps_sessions_def Let_def post_users_def post_tokens_def
      split: option.split intro!: keeps_guarded [unfolded keeps_sessions_def, rule_format])

lemma keeps_catch_all: "keeps_sessions catch_all"
  using keeps_cases(4)
  by (auto simp: keeps_sessions_def catch_all_def Let_def put_section_handler_def split: option.split)

lemma all_routes_keep:
  "list_all (\<lambda>(p, hs). list_all (\<lambda>(m, h). keeps_sessions h \<or> h = auth_login_handler \<or> h = auth_logout_handler) hs) routes"
  unfolding routes_def by (simp only: list.pred_inject prod.case keeps_plain keeps_cases keeps_posts simp_thms)

lemma serve_sessions:
  "h_sessions (fst (serve_request env req s)) = h_sessions s
    \<or> serve_request env req s = auth_login_handler env req s \<or> serve_request env req s = auth_logout_handler env req s"
proof -
  consider (listed) p hs m where "(p, hs) \<in> set routes" "(m, route (req_method req) (req_path req) routes) \<in> set hs"
    | (other) "route (req_method req) (req_path req) routes = catch_all"
    | (unsupported) "route (req_method req) (req_path req) routes = (\<lambda>env req s. answer Unsupported s)"
    using route_cases [of routes "req_path req" "req_method req"] by blast
  then show ?thesis
  proof cases
    case listed
    then have "keeps_sessions (route (req_method req) (req_path req) routes)
        \<or> route (req_method req) (req_path req) routes \<in> {auth_login_handler, auth_logout_handler}"
      using all_routes_keep by (fastforce simp: list_all_iff)
    then show ?thesis by (auto simp: serve_request_def keeps_sessions_def)
  next
    case other
    then show ?thesis using keeps_catch_all by (simp add: serve_request_def keeps_sessions_def)
  next
    case unsupported
    then show ?thesis by (simp add: serve_request_def)
  qed
qed

lemma login_sessions:
  assumes "h_sessions (fst (auth_login_handler env req s)) \<noteq> h_sessions s"
  shows "\<exists>cfg u body. h_config s = Some cfg \<and> u \<in> set (users cfg) \<and> req_body req = Some body
      \<and> username u = field_or (body_str body) ''username'' []
      \<and> verify_password (sha env) (field_or (body_str body) ''password'' []) (password_salt u) (password_hash u)
      \<and> h_sessions (fst (auth_login_handler env req s)) = session_insert (now_ms env)
          (sha env (plaintext_token (random32 env))) (user_role u) (h_sessions s)"
proof -
  obtain body where b: "req_body req = Some body" using assms by (auto simp: auth_login_handler_def split: option.splits)
  let ?name = "field_or (body_str body) ''username'' []" and ?password = "field_or (body_str body) ''password'' []"
  obtain r where l: "login_check env ?name ?password s = Authenticated r"
    using assms b by (cases "login_check env ?name ?password s") (auto simp: auth_login_handler_def Let_def)
  then obtain cfg where c: "h_config s = Some cfg" and "check_user env ?name ?password (users cfg) = Authenticated r"
    by (auto simp: login_check_def split: option.splits if_splits)
  with check_user_Authenticated obtain u where "u \<in> set (users cfg)" "username u = ?name" "user_role u = r"
      "verify_password (sha env) ?password (password_salt u) (password_hash u)"
    by blast
  with b c l show ?thesis by (auto simp: auth_login_handler_def Let_def hash_token_def)
qed

lemma logout_sessions:
  "h_sessions (fst (auth_logout_handler env req s)) \<noteq> h_sessions s \<Longrightarrow>
   \<exists>token. req_authorization req = Some (bearer_header token)
     \<and> h_sessions (fst (auth_logout_handler env req s)) = session_remove (sha env token) (h_sessions s)"
  by (auto simp: auth_logout_handler_def Let_def bearer_header_def strip_prefix_iff strip_prefix_None hash_token_def
      split: option.splits if_splits)

text \<open>
  C20: no request opens a session but a login that names a user of the configuration with the
  password that fits the salt and digest of this user; the session gets the role of the user. Any other change of the
  store is a logout.
\<close>

theorem sessions_need_password:
  assumes "h_sessions (fst (serve_request env req s)) \<noteq> h_sessions s"
  shows "(\<exists>cfg u body. h_config s = Some cfg \<and> u \<in> set (users cfg) \<and> req_body req = Some body
      \<and> username u = field_or (body_str body) ''username'' []
      \<and> verify_password (sha env) (field_or (body_str body) ''password'' []) (password_salt u) (password_hash u)
      \<and> h_sessions (fst (serve_request env req s)) = session_insert (now_ms env)
          (sha env (plaintext_token (random32 env))) (user_role u) (h_sessions s))
    \<or> (\<exists>token. req_authorization req = Some (bearer_header token)
      \<and> h_sessions (fst (serve_request env req s)) = session_remove (sha env token) (h_sessions s))"
  using assms serve_sessions [of env req s] login_sessions [of env req s] logout_sessions [of env req s] by metis


section \<open>A concrete bridge\<close>

definition demo_env :: HttpEnv where
  "demo_env = \<lparr>sha = last32, now_ms = 1000, random32 = replicate 32 7,
     parse_network = (\<lambda>_. Some network_default), parse_bacnet = (\<lambda>_. None), parse_ntp = (\<lambda>_. None),
     parse_syslog = (\<lambda>_. None), parse_mqtt = (\<lambda>_. None), parse_snmp = (\<lambda>_. None), parse_ota = (\<lambda>_. None),
     parse_convertors = (\<lambda>_. None), parse_points = (\<lambda>_. None), parse_bridge = (\<lambda>_. None),
     render_bridge = (\<lambda>_. None), get_asset = (\<lambda>_. None), current_ip = 0,
     mstp_status = \<lparr>active_baud = 0, frames_rx = 0, frames_tx = 0, errors_rx = 0, bus_active = False, detecting = False, loopback_ok = 0\<rparr>,
     firmware_version = [], firmware_error = None\<rparr>"

definition demo_user :: UserConfig where
  "demo_user = \<lparr>username = str ''ann'', password_salt = replicate 32 0,
     password_hash = hash_password last32 (str ''pw'') (replicate 32 0), user_role = Operator\<rparr>"

definition demo_state :: HttpState where
  "demo_state = \<lparr>h_config = Some (bridge_config_default\<lparr>provisioned := True, users := [demo_user]\<rparr>),
     h_sessions = sessions_new, h_bridge = bridge_new, h_save = False\<rparr>"

definition demo_login :: Request where
  "demo_login = \<lparr>req_method = str ''POST'', req_path = str ''/api/v1/auth/login'', req_authorization = None,
     req_body = Some (json ''{^username^:^ann^,^password^:^pw^}''), req_content_length = 33\<rparr>"

definition demo_put :: Request where
  "demo_put = \<lparr>req_method = str ''PUT'', req_path = str ''/api/v1/config/network'', req_authorization = None,
     req_body = Some [], req_content_length = 0\<rparr>"


lemma demo_fields:
  "field_or (body_str (json ''{^username^:^ann^,^password^:^pw^}'')) ''username'' [] = str ''ann''"
  "field_or (body_str (json ''{^username^:^ann^,^password^:^pw^}'')) ''password'' [] = str ''pw''"
  by code_simp+

lemma demo_selectors:
  "sha demo_env = last32" "now_ms demo_env = 1000" "random32 demo_env = replicate 32 7"
  "h_sessions demo_state = sessions_new" "req_authorization demo_login = None"
  by (simp_all add: demo_env_def demo_state_def demo_login_def)

lemma demo_login_body: "req_body demo_login = Some (json ''{^username^:^ann^,^password^:^pw^}'')"
  by (simp add: demo_login_def)

lemma demo_verify: "verify_password last32 (str ''pw'') (password_salt demo_user) (password_hash demo_user)"
proof -
  have l: "length (last32 x) = 32" for x by (simp add: last32_def del: drop_append)
  have "last32 (replicate 32 0 @ take 64 (str ''pw'')) = replicate 30 0 @ str ''pw''" by (simp add: last32_def)
  moreover have "\<dots> \<noteq> ZERO_HASH" by (auto simp: ZERO_HASH_def str_def dest: arg_cong [where f = last])
  ultimately show ?thesis by (simp add: demo_user_def verify_password_eq l hash_password_eq)
qed

lemma demo_login_route: "serve_request demo_env demo_login demo_state = auth_login_handler demo_env demo_login demo_state"
  by (simp add: serve_request_def routes_def demo_login_def str_def)

lemma demo_hash: "last32 (plaintext_token (replicate 32 7)) \<noteq> ZERO_HASH"
  by code_simp

lemma demo_session:
  "h_sessions (fst (auth_login_handler demo_env demo_login demo_state)) =
     session_insert 1000 (last32 (plaintext_token (replicate 32 7))) Operator sessions_new"
proof -
  have "login_check demo_env (str ''ann'') (str ''pw'') demo_state = Authenticated Operator"
    using demo_verify by (simp add: login_check_def demo_state_def demo_env_def, simp add: demo_user_def)
  then show ?thesis
    by (simp add: auth_login_handler_def demo_login_def demo_fields Let_def hash_token_def)
      (simp add: demo_env_def demo_state_def)
qed

lemma demo_session_changes:
  "session_insert 1000 (last32 (plaintext_token (replicate 32 7))) Operator sessions_new \<noteq> sessions_new"
  using http_sessions.insert_new [OF sessions_new_ok(1) demo_hash, of 1000 Operator] sessions_new_ok(2) by auto


lemma sessions_need_password_witness:
  "\<exists>u :: UserConfig. username u = str ''ann'' \<and> verify_password last32 (str ''pw'') (password_salt u) (password_hash u)
     \<and> h_sessions (fst (serve_request demo_env demo_login demo_state)) =
         session_insert 1000 (last32 (plaintext_token (replicate 32 7))) (user_role u) sessions_new"
proof -
  have "h_sessions (fst (auth_login_handler demo_env demo_login demo_state)) \<noteq> h_sessions demo_state"
    using demo_session_changes by (simp add: demo_session) (simp add: demo_state_def)
  from sessions_need_password [of demo_env demo_login demo_state, unfolded demo_login_route, OF this]
  show ?thesis
  proof (elim disjE exE conjE)
    fix cfg body and u :: UserConfig
    assume b: "req_body demo_login = Some body" and n: "username u = field_or (body_str body) ''username'' []"
      and v: "verify_password (sha demo_env) (field_or (body_str body) ''password'' []) (password_salt u) (password_hash u)"
      and i: "h_sessions (fst (auth_login_handler demo_env demo_login demo_state)) = session_insert (now_ms demo_env)
          (sha demo_env (plaintext_token (random32 demo_env))) (user_role u) (h_sessions demo_state)"
    from b have "body = json ''{^username^:^ann^,^password^:^pw^}''" by (simp add: demo_login_body)
    with n v i show ?thesis
      unfolding demo_login_route by - (rule exI [of _ u], simp only: demo_fields demo_selectors simp_thms)
  next
    fix token
    assume "req_authorization demo_login = Some (bearer_header token)"
    then show ?thesis by (simp add: demo_selectors)
  qed
qed

end
