(* ===== verification/Flash.thy ===== *)
theory Flash
  imports Rust_Str
begin

text \<open>
  The flash memory: the layout of \<open>firmware/src/platform.rs\<close> and what the code relies on of the driver.

  The driver (\<open>embassy_rp::flash\<close>) is a parameter: a record of its three operations on a flash state of
  any type, each with the new state and whether it succeeded, and a view \<open>cell\<close> of the bytes. \<open>nor_flash\<close>
  states its documented behaviour: erasing sets the bytes of the range to 0xFF, programming erased bytes
  stores them, reading returns them, and neither touches a byte outside its range, also when it fails.
\<close>

section \<open>Layout\<close>

definition FLASH_SIZE :: nat where "FLASH_SIZE = 2 * 1024 * 1024"
definition SECTOR_SIZE :: nat where "SECTOR_SIZE = 4096"
definition CONFIG_OFFSET :: nat where "CONFIG_OFFSET = FLASH_SIZE - 64 * 1024"
definition CONFIG_SIZE :: nat where "CONFIG_SIZE = 32 * 1024"
definition IDENTITY_OFFSET :: nat where "IDENTITY_OFFSET = FLASH_SIZE - 4 * 1024"
definition SLOT_A_OFFSET :: nat where "SLOT_A_OFFSET = 0"
definition SLOT_B_OFFSET :: nat where "SLOT_B_OFFSET = FLASH_SIZE div 2"
definition PROTECTED_OFFSET :: nat where "PROTECTED_OFFSET = CONFIG_OFFSET"
definition XIP_BASE :: u32 where "XIP_BASE = 0x10000000"

lemmas flash_layout =
  FLASH_SIZE_def SECTOR_SIZE_def CONFIG_OFFSET_def CONFIG_SIZE_def IDENTITY_OFFSET_def SLOT_A_OFFSET_def
  SLOT_B_OFFSET_def PROTECTED_OFFSET_def

text \<open>The slot the code does not run from; \<open>pc\<close> is the program counter.\<close>

definition ota_target_slot :: "u32 \<Rightarrow> nat" where
  "ota_target_slot pc = (if pc < XIP_BASE + of_nat SLOT_B_OFFSET then SLOT_B_OFFSET else SLOT_A_OFFSET)"

section \<open>The driver\<close>

record 'f flash_driver =
  blocking_erase :: "nat \<Rightarrow> nat \<Rightarrow> 'f \<Rightarrow> 'f \<times> bool"
  blocking_write :: "nat \<Rightarrow> bytes \<Rightarrow> 'f \<Rightarrow> 'f \<times> bool"
  blocking_read :: "nat \<Rightarrow> nat \<Rightarrow> 'f \<Rightarrow> bytes option"

definition outside :: "('f \<Rightarrow> nat \<Rightarrow> u8) \<Rightarrow> nat \<Rightarrow> nat \<Rightarrow> 'f \<Rightarrow> 'f \<Rightarrow> bool" where
  "outside cell a b f f' \<longleftrightarrow> (\<forall>i. i < a \<or> b \<le> i \<longrightarrow> cell f' i = cell f i)"

definition nor_flash :: "'f flash_driver \<Rightarrow> ('f \<Rightarrow> nat \<Rightarrow> u8) \<Rightarrow> bool" where
  "nor_flash drv cell \<longleftrightarrow>
     (\<forall>a b f f' ok. blocking_erase drv a b f = (f', ok) \<longrightarrow>
        outside cell a b f f' \<and> (ok \<longrightarrow> (\<forall>i. a \<le> i \<and> i < b \<longrightarrow> cell f' i = 0xFF)))
     \<and> (\<forall>a bs f f' ok. blocking_write drv a bs f = (f', ok) \<longrightarrow>
        outside cell a (a + length bs) f f'
        \<and> (ok \<and> (\<forall>i < length bs. cell f (a + i) = 0xFF) \<longrightarrow> (\<forall>i < length bs. cell f' (a + i) = bs ! i)))
     \<and> (\<forall>a n f bs. blocking_read drv a n f = Some bs \<longrightarrow> bs = map (cell f) [a..<a + n])"

lemma outside_refl [simp]: "outside cell a b f f"
  by (simp add: outside_def)

lemma outside_trans: "outside cell a b f f' \<Longrightarrow> outside cell a b f' f'' \<Longrightarrow> outside cell a b f f''"
  by (simp add: outside_def)

lemma outside_weaken: "outside cell a b f f' \<Longrightarrow> a' \<le> a \<Longrightarrow> b \<le> b' \<Longrightarrow> outside cell a' b' f f'"
  by (auto simp: outside_def)

lemma nor_erase:
  assumes "nor_flash drv cell" and "blocking_erase drv a b f = (f', ok)"
  shows "outside cell a b f f'" "ok \<Longrightarrow> a \<le> i \<Longrightarrow> i < b \<Longrightarrow> cell f' i = 0xFF"
proof -
  have "outside cell a b f f' \<and> (ok \<longrightarrow> (\<forall>i. a \<le> i \<and> i < b \<longrightarrow> cell f' i = 0xFF))"
    using assms by (simp add: nor_flash_def)
  then show "outside cell a b f f'" "ok \<Longrightarrow> a \<le> i \<Longrightarrow> i < b \<Longrightarrow> cell f' i = 0xFF" by auto
qed

lemma nor_write:
  assumes "nor_flash drv cell" and "blocking_write drv a bs f = (f', ok)"
  shows "outside cell a (a + length bs) f f'"
    and "ok \<Longrightarrow> \<forall>i < length bs. cell f (a + i) = 0xFF \<Longrightarrow> i < length bs \<Longrightarrow> cell f' (a + i) = bs ! i"
proof -
  have "outside cell a (a + length bs) f f'
      \<and> (ok \<and> (\<forall>i < length bs. cell f (a + i) = 0xFF) \<longrightarrow> (\<forall>i < length bs. cell f' (a + i) = bs ! i))"
    using assms by (simp add: nor_flash_def)
  then show "outside cell a (a + length bs) f f'"
    "ok \<Longrightarrow> \<forall>i < length bs. cell f (a + i) = 0xFF \<Longrightarrow> i < length bs \<Longrightarrow> cell f' (a + i) = bs ! i" by auto
qed

lemma nor_read: "nor_flash drv cell \<Longrightarrow> blocking_read drv a n f = Some bs \<Longrightarrow> bs = map (cell f) [a..<a + n]"
  by (simp add: nor_flash_def)

section \<open>An instance\<close>

text \<open>
  A flash of bytes that programs by clearing bits and never fails within \<open>FLASH_SIZE\<close>: the driver behaviour can hold.
\<close>

definition ideal_flash :: "(nat \<Rightarrow> u8) flash_driver" where
  "ideal_flash = \<lparr>
     blocking_erase = (\<lambda>a b f. if b \<le> FLASH_SIZE then (\<lambda>i. if a \<le> i \<and> i < b then 0xFF else f i, True) else (f, False)),
     blocking_write = (\<lambda>a bs f. if a + length bs \<le> FLASH_SIZE
       then (\<lambda>i. if a \<le> i \<and> i < a + length bs then f i AND bs ! (i - a) else f i, True) else (f, False)),
     blocking_read = (\<lambda>a n f. if a + n \<le> FLASH_SIZE then Some (map f [a..<a + n]) else None)\<rparr>"

lemma byte_and_ff: "0xFF AND (b :: u8) = b"
  by (rule all_bytes) code_simp

lemma ideal_nor: "nor_flash ideal_flash (\<lambda>f. f)"
  unfolding nor_flash_def by (intro conjI allI impI) (auto simp: ideal_flash_def outside_def byte_and_ff split: if_splits)

end
