(* ===== verification/Config_Store.thy ===== *)
theory Config_Store
  imports Flash Config
begin

text \<open>
  \<open>firmware/src/config.rs\<close>: the configuration and the MAC address in the flash, and the task that saves
  the configuration.

  The JSON library is a parameter: \<open>to_slice\<close> writes a configuration into a buffer and returns the number of
  bytes (\<open>None\<close> when it does not fit), \<open>from_json\<close> is \<open>serde_json_core::from_slice\<close>. \<open>json_library\<close> states
  what the code relies on. Pausing the other core and logging are outside the model.
\<close>

definition IDENTITY_MAGIC :: bytes where "IDENTITY_MAGIC = [0x49, 0x44, 0x4E, 0x54]"
definition JSON_BUF_SIZE :: nat where "JSON_BUF_SIZE = 8192"

section \<open>MAC address\<close>

definition load_mac :: "'f flash_driver \<Rightarrow> 'f \<Rightarrow> bytes option" where
  "load_mac drv f =
     (case blocking_read drv IDENTITY_OFFSET 16 f of
        None \<Rightarrow> None
      | Some buf \<Rightarrow>
          if take 4 buf \<noteq> IDENTITY_MAGIC then None
          else
            let mac = take 6 (drop 4 buf) in
            if mac = replicate 6 0 then None else Some mac)"

definition erase_identity :: "'f flash_driver \<Rightarrow> 'f \<Rightarrow> 'f" where
  "erase_identity drv f = fst (blocking_erase drv IDENTITY_OFFSET (IDENTITY_OFFSET + SECTOR_SIZE) f)"

definition save_mac :: "'f flash_driver \<Rightarrow> bytes \<Rightarrow> 'f \<Rightarrow> 'f" where
  "save_mac drv mac f =
     (let sector = overwrite (overwrite (replicate SECTOR_SIZE 0xFF) 0 IDENTITY_MAGIC) 4 mac;
          (f, ok) = blocking_erase drv IDENTITY_OFFSET (IDENTITY_OFFSET + SECTOR_SIZE) f in
      if \<not> ok then f
      else fst (blocking_write drv IDENTITY_OFFSET (take 256 sector) f))"

section \<open>Configuration\<close>

type_synonym printer = "BridgeConfig \<Rightarrow> bytes \<Rightarrow> bytes \<times> nat option"

definition is_end :: "u8 \<Rightarrow> bool" where
  "is_end b \<longleftrightarrow> b = 0xFF \<or> b = 0x00"

definition json_end :: "bytes \<Rightarrow> nat" where
  "json_end buf = length (takeWhile (\<lambda>b. \<not> is_end b) buf)"

definition load_config :: "'f flash_driver \<Rightarrow> (bytes \<Rightarrow> BridgeConfig option) \<Rightarrow> 'f \<Rightarrow> BridgeConfig" where
  "load_config drv from_json f =
     (case blocking_read drv CONFIG_OFFSET JSON_BUF_SIZE f of
        None \<Rightarrow> bridge_config_default
      | Some sector_buf \<Rightarrow>
          let n = json_end sector_buf in
          if n < 2 then bridge_config_default
          else case from_json (take n sector_buf) of
            Some cfg \<Rightarrow> if validate cfg then cfg else bridge_config_default
          | None \<Rightarrow> bridge_config_default)"

definition page_aligned :: "nat \<Rightarrow> nat" where
  "page_aligned n = (n + 255) div 256 * 256"

text \<open>Erase the region and program the buffer up to the end of the page.\<close>

definition write_config :: "'f flash_driver \<Rightarrow> bytes \<Rightarrow> nat \<Rightarrow> 'f \<Rightarrow> 'f" where
  "write_config drv json_buf n f =
     (let (f, ok) = blocking_erase drv CONFIG_OFFSET (CONFIG_OFFSET + CONFIG_SIZE) f in
      if \<not> ok then f
      else fst (blocking_write drv CONFIG_OFFSET (take (min (page_aligned n) JSON_BUF_SIZE) json_buf) f))"

definition save_config :: "'f flash_driver \<Rightarrow> printer \<Rightarrow> BridgeConfig \<Rightarrow> 'f \<Rightarrow> 'f" where
  "save_config drv to_slice c f =
     (case to_slice c (replicate JSON_BUF_SIZE 0) of
        (json_buf, None) \<Rightarrow> f
      | (json_buf, Some n) \<Rightarrow> write_config drv json_buf n f)"

text \<open>One round of \<open>config_save_task\<close>: the static buffer and the flash; \<open>None\<close> is a configuration not set yet.\<close>

definition save_round :: "'f flash_driver \<Rightarrow> printer \<Rightarrow> BridgeConfig option \<Rightarrow> bytes \<times> 'f \<Rightarrow> bytes \<times> 'f" where
  "save_round drv to_slice config = (\<lambda>(buf, f).
     case config of
       None \<Rightarrow> (buf, f)
     | Some c \<Rightarrow>
         (case to_slice c buf of
            (buf, None) \<Rightarrow> (buf, f)
          | (buf, Some n) \<Rightarrow> (buf, write_config drv buf n f)))"

definition save_buf_new :: bytes where "save_buf_new = replicate JSON_BUF_SIZE 0"

text \<open>The task over the configurations it finds at its wake-ups, from the start of the device.\<close>

definition save_task :: "'f flash_driver \<Rightarrow> printer \<Rightarrow> BridgeConfig option list \<Rightarrow> 'f \<Rightarrow> bytes \<times> 'f" where
  "save_task drv to_slice configs f = fold (save_round drv to_slice) configs (save_buf_new, f)"

section \<open>The JSON library\<close>

text \<open>
  For the configurations \<open>C\<close> that are stored: the printer writes a fixed text, if it fits, and leaves the bytes behind
  it alone; the text has at least two bytes and none of the two that end it in the flash; the parser reads it back.
\<close>

definition json_library ::
  "printer \<Rightarrow> (bytes \<Rightarrow> BridgeConfig option) \<Rightarrow> (BridgeConfig \<Rightarrow> bytes) \<Rightarrow> BridgeConfig set \<Rightarrow> bool" where
  "json_library to_slice from_json text_of C \<longleftrightarrow>
     (\<forall>c \<in> C. (\<forall>buf buf' r. to_slice c buf = (buf', r) \<longrightarrow> length buf' = length buf
          \<and> (r = None \<longleftrightarrow> length buf < length (text_of c))
          \<and> (\<forall>n. r = Some n \<longrightarrow> n = length (text_of c) \<and> buf' = overwrite buf 0 (text_of c)))
        \<and> 2 \<le> length (text_of c) \<and> list_all (\<lambda>b. \<not> is_end b) (text_of c) \<and> from_json (text_of c) = Some c)"

lemma json_printer:
  assumes "json_library to_slice from_json text_of C" and "c \<in> C" and "to_slice c buf = (buf', r)"
  shows "length buf' = length buf" "r = None \<longleftrightarrow> length buf < length (text_of c)"
    and "r = Some n \<Longrightarrow> n = length (text_of c) \<and> buf' = overwrite buf 0 (text_of c)"
  using assms by (simp_all add: json_library_def)

lemma json_text_of:
  assumes "json_library to_slice from_json text_of C" and "c \<in> C"
  shows "2 \<le> length (text_of c)" "list_all (\<lambda>b. \<not> is_end b) (text_of c)" "from_json (text_of c) = Some c"
  using assms by (simp_all add: json_library_def)

section \<open>What is read back\<close>

lemma page_aligned_bounds: "n \<le> page_aligned n" "page_aligned n < n + 256" "n \<le> JSON_BUF_SIZE \<Longrightarrow> page_aligned n \<le> JSON_BUF_SIZE"
proof -
  have m: "(n + 255) div 256 * 256 + (n + 255) mod 256 = n + 255" by simp
  show "n \<le> page_aligned n" "page_aligned n < n + 256" unfolding page_aligned_def using m by linarith+
  assume "n \<le> JSON_BUF_SIZE"
  then show "page_aligned n \<le> JSON_BUF_SIZE" by (simp add: page_aligned_def JSON_BUF_SIZE_def)
qed

text \<open>After a successful save the region starts with the buffer up to the page end, and is erased behind it.\<close>

lemma write_config_cells:
  assumes "nor_flash drv cell" and "length buf = JSON_BUF_SIZE"
    and "blocking_erase drv CONFIG_OFFSET (CONFIG_OFFSET + CONFIG_SIZE) f = (f1, True)"
    and "blocking_write drv CONFIG_OFFSET (take (min (page_aligned n) JSON_BUF_SIZE) buf) f1 = (f2, True)"
  shows "map (cell f2) [CONFIG_OFFSET..<CONFIG_OFFSET + JSON_BUF_SIZE] =
      take (min (page_aligned n) JSON_BUF_SIZE) buf @ replicate (JSON_BUF_SIZE - min (page_aligned n) JSON_BUF_SIZE) 0xFF"
proof -
  let ?k = "min (page_aligned n) JSON_BUF_SIZE"
  have l: "length (take ?k buf) = ?k" using assms(2) by simp
  have e: "cell f1 (CONFIG_OFFSET + i) = 0xFF" if "i < JSON_BUF_SIZE" for i
    using nor_erase(2) [OF assms(1,3)] that by (simp add: JSON_BUF_SIZE_def CONFIG_SIZE_def)
  have w: "cell f2 (CONFIG_OFFSET + i) = buf ! i" if "i < ?k" for i
    using nor_write(2) [OF assms(1,4), of i] e that l assms(2) by simp
  have o: "cell f2 (CONFIG_OFFSET + i) = 0xFF" if "?k \<le> i" "i < JSON_BUF_SIZE" for i
    using nor_write(1) [OF assms(1,4)] e [OF that(2)] that(1) unfolding l by (simp add: outside_def)
  show ?thesis
    using w o l by (intro nth_equalityI) (auto simp: nth_append)
qed

text \<open>What stands behind a text of \<open>n\<close> bytes in its last page of the buffer, up to the next end byte.\<close>

definition stale :: "nat \<Rightarrow> bytes \<Rightarrow> bytes" where
  "stale n buf = takeWhile (\<lambda>b. \<not> is_end b) (take (page_aligned n - n) (drop n buf))"

lemma take_json_end: "take (json_end buf) buf = takeWhile (\<lambda>b. \<not> is_end b) buf"
  by (simp add: json_end_def takeWhile_eq_take [symmetric])

lemma takeWhile_mid:
  assumes "list_all P as" and "takeWhile P cs = []"
  shows "takeWhile P (as @ bs @ cs) = as @ takeWhile P bs"
proof -
  have "takeWhile P (bs @ cs) = takeWhile P bs" using assms(2) by (induction bs) auto
  with assms(1) show ?thesis by (induction as) auto
qed

text \<open>Erasing and programming the configuration succeed, and so does reading it back.\<close>

definition works :: "'f flash_driver \<Rightarrow> bool" where
  "works drv \<longleftrightarrow> (\<forall>f. snd (blocking_erase drv CONFIG_OFFSET (CONFIG_OFFSET + CONFIG_SIZE) f)
     \<and> (\<forall>bs. length bs \<le> JSON_BUF_SIZE \<longrightarrow> snd (blocking_write drv CONFIG_OFFSET bs f))
     \<and> blocking_read drv CONFIG_OFFSET JSON_BUF_SIZE f \<noteq> None)"

definition loaded :: "(bytes \<Rightarrow> BridgeConfig option) \<Rightarrow> bytes \<Rightarrow> BridgeConfig" where
  "loaded from_json js =
     (case from_json js of Some cfg \<Rightarrow> if validate cfg then cfg else bridge_config_default | None \<Rightarrow> bridge_config_default)"

lemma load_written:
  assumes "nor_flash drv cell" and "works drv" and "json_library to_slice from_json text_of C" and "c \<in> C"
    and "length buf = JSON_BUF_SIZE" and "length (text_of c) \<le> JSON_BUF_SIZE"
  shows "load_config drv from_json (write_config drv (overwrite buf 0 (text_of c)) (length (text_of c)) f) =
    loaded from_json (text_of c @ stale (length (text_of c)) buf)"
proof -
  let ?n = "length (text_of c)" and ?buf = "overwrite buf 0 (text_of c)"
  let ?k = "min (page_aligned ?n) JSON_BUF_SIZE"
  have k: "?k = page_aligned ?n" "?n \<le> page_aligned ?n" using page_aligned_bounds [of ?n] assms(6) by auto
  have b: "length ?buf = JSON_BUF_SIZE" "?buf = text_of c @ drop ?n buf" using assms(5,6) by (simp_all add: overwrite_def)
  obtain f1 where e: "blocking_erase drv CONFIG_OFFSET (CONFIG_OFFSET + CONFIG_SIZE) f = (f1, True)"
    using assms(2) by (metis prod.collapse works_def)
  moreover have "length (take ?k ?buf) \<le> JSON_BUF_SIZE" by simp
  then obtain f2 where w: "blocking_write drv CONFIG_OFFSET (take ?k ?buf) f1 = (f2, True)"
    using assms(2) by (metis prod.collapse works_def)
  ultimately have r: "write_config drv ?buf ?n f = f2" by (simp add: write_config_def)
  obtain sector where s: "blocking_read drv CONFIG_OFFSET JSON_BUF_SIZE f2 = Some sector"
    using assms(2) by (auto simp: works_def)
  have "sector = take ?k ?buf @ replicate (JSON_BUF_SIZE - ?k) 0xFF"
    using nor_read [OF assms(1) s] write_config_cells [OF assms(1) b(1) e w] by simp
  moreover have "take ?k ?buf = text_of c @ take (page_aligned ?n - ?n) (drop ?n buf)"
    using k by (simp add: b(2))
  moreover have "takeWhile (\<lambda>b. \<not> is_end b) (replicate m 0xFF) = []" for m by (cases m) (simp_all add: is_end_def)
  ultimately have "takeWhile (\<lambda>b. \<not> is_end b) sector = text_of c @ stale ?n buf"
    using json_text_of(2) [OF assms(3,4)] by (simp add: stale_def takeWhile_mid)
  then have t: "take (json_end sector) sector = text_of c @ stale ?n buf" "\<not> json_end sector < 2"
    using json_text_of(1) [OF assms(3,4)] by (simp_all add: take_json_end, simp add: json_end_def)
  show ?thesis unfolding r by (simp add: load_config_def s t loaded_def Let_def)
qed

lemma save_round_loaded:
  assumes "nor_flash drv cell" and "works drv" and "json_library to_slice from_json text_of C" and "c \<in> C"
    and "length buf = JSON_BUF_SIZE" and "length (text_of c) \<le> JSON_BUF_SIZE"
  shows "save_round drv to_slice (Some c) (buf, f) =
      (overwrite buf 0 (text_of c), write_config drv (overwrite buf 0 (text_of c)) (length (text_of c)) f)"
proof -
  obtain buf' r where p: "to_slice c buf = (buf', r)" by fastforce
  with json_printer [OF assms(3,4) p] assms(5,6) show ?thesis by (cases r) (auto simp: save_round_def)
qed

lemma stale_zero: "stale n (replicate m 0) = []"
  by (cases "min (m - n) (page_aligned n - n)") (simp_all add: stale_def is_end_def)


text \<open>A driver and a JSON library for the witnesses: two configurations with a short and a longer text.\<close>

lemma ideal_works: "works ideal_flash"
proof -
  have "CONFIG_OFFSET + CONFIG_SIZE \<le> FLASH_SIZE" "CONFIG_OFFSET + JSON_BUF_SIZE \<le> FLASH_SIZE"
    by (simp_all add: flash_layout JSON_BUF_SIZE_def)
  then show ?thesis by (simp add: works_def ideal_flash_def)
qed

definition demo_config :: BridgeConfig where
  "demo_config = bridge_config_default\<lparr>provisioned := True\<rparr>"

definition demo_text :: "BridgeConfig \<Rightarrow> bytes" where
  "demo_text c = (if provisioned c then [123, 125] else [123, 32, 125])"

definition demo_to_slice :: printer where
  "demo_to_slice c buf =
     (if length (demo_text c) \<le> length buf then (overwrite buf 0 (demo_text c), Some (length (demo_text c))) else (buf, None))"

definition demo_from_json :: "bytes \<Rightarrow> BridgeConfig option" where
  "demo_from_json js =
     (if js = [123, 125] then Some demo_config
      else if js = [123, 32, 125] then Some bridge_config_default else None)"

lemma demo_library: "json_library demo_to_slice demo_from_json demo_text {demo_config, bridge_config_default}"
  by (auto simp: json_library_def demo_to_slice_def demo_text_def demo_from_json_def demo_config_def
      bridge_config_default_def is_end_def split: if_splits)


text \<open>
  C38: the save task writes the bytes an earlier, longer text has left behind in its
  buffer, up to the end of the page. When the parser rejects characters behind the configuration, the next start
  finds the defaults instead of the configuration that was saved last.
\<close>

theorem config_lost_after_shrinking:
  assumes "nor_flash drv cell" and "works drv" and "json_library to_slice from_json text_of {c1, c2}"
    and "length (text_of c1) \<le> JSON_BUF_SIZE" and "length (text_of c2) < length (text_of c1)"
    and "length (text_of c2) mod 256 \<noteq> 0"
    and "\<forall>r. r \<noteq> [] \<longrightarrow> from_json (text_of c2 @ r) = None"
  shows "load_config drv from_json (snd (save_task drv to_slice [Some c1, Some c2] f)) = bridge_config_default"
proof -
  let ?n = "length (text_of c2)" and ?buf = "overwrite save_buf_new 0 (text_of c1)"
  have c: "c1 \<in> {c1, c2}" "c2 \<in> {c1, c2}" by simp_all
  have b: "length save_buf_new = JSON_BUF_SIZE" "length ?buf = JSON_BUF_SIZE" "length (text_of c2) \<le> JSON_BUF_SIZE"
    using assms(4,5) by (simp_all add: save_buf_new_def)
  have "page_aligned ?n mod 256 = 0" by (simp add: page_aligned_def)
  with assms(6) have "?n \<noteq> page_aligned ?n" by metis
  then have k: "?n < page_aligned ?n" using page_aligned_bounds(1) [of ?n] by linarith
  have e: "\<not> is_end (text_of c1 ! ?n)"
    using json_text_of(2) [OF assms(3) c(1)] assms(5) by (simp add: list_all_length)
  have "?buf = text_of c1 @ drop (length (text_of c1)) save_buf_new" using b(1) assms(4) by (simp add: overwrite_def)
  then have "drop ?n ?buf = text_of c1 ! ?n # (drop (Suc ?n) (text_of c1) @ drop (length (text_of c1)) save_buf_new)"
    using assms(5) by (simp add: Cons_nth_drop_Suc [symmetric])
  with k e have "stale ?n ?buf \<noteq> []" by (cases "page_aligned ?n - ?n") (simp_all add: stale_def)
  then have "from_json (text_of c2 @ stale ?n ?buf) = None" using assms(7) by blast
  with load_written [OF assms(1-3) c(2) b(2,3)] show ?thesis
    by (simp add: save_task_def save_round_loaded [OF assms(1-3) c(1) b(1) assms(4)] save_round_loaded [OF assms(1-3) c(2) b(2,3)] loaded_def)
qed

lemma config_lost_after_shrinking_witness:
  "load_config ideal_flash demo_from_json
     (snd (save_task ideal_flash demo_to_slice [Some bridge_config_default, Some demo_config] (\<lambda>_. 0))) = bridge_config_default"
proof (rule config_lost_after_shrinking [OF ideal_nor ideal_works])
  show "json_library demo_to_slice demo_from_json demo_text {bridge_config_default, demo_config}"
    using demo_library by (simp add: insert_commute)
qed (simp_all add: demo_text_def demo_config_def bridge_config_default_def JSON_BUF_SIZE_def demo_from_json_def)

section \<open>MAC address\<close>

text \<open>
  A MAC address of six bytes, not all zero, is loaded again after it has been saved, whatever was in
  the flash.
\<close>

theorem mac_saved:
  assumes "nor_flash drv cell" and "length mac = 6" and "mac \<noteq> replicate 6 0"
    and "\<forall>f. snd (blocking_erase drv IDENTITY_OFFSET (IDENTITY_OFFSET + SECTOR_SIZE) f)"
    and "\<forall>bs f. length bs = 256 \<longrightarrow> snd (blocking_write drv IDENTITY_OFFSET bs f)"
    and "\<forall>f. blocking_read drv IDENTITY_OFFSET 16 f \<noteq> None"
  shows "load_mac drv (save_mac drv mac f) = Some mac"
proof -
  let ?sector = "overwrite (overwrite (replicate SECTOR_SIZE 0xFF) 0 IDENTITY_MAGIC) 4 mac"
  have s: "take 256 ?sector = IDENTITY_MAGIC @ mac @ replicate 246 0xFF"
    using assms(2) by (simp add: overwrite_def SECTOR_SIZE_def IDENTITY_MAGIC_def)
  have l: "length (take 256 ?sector) = 256" unfolding s using assms(2) by (simp add: IDENTITY_MAGIC_def)
  obtain f1 where e: "blocking_erase drv IDENTITY_OFFSET (IDENTITY_OFFSET + SECTOR_SIZE) f = (f1, True)"
    using assms(4) by (metis prod.collapse)
  obtain f2 where w: "blocking_write drv IDENTITY_OFFSET (take 256 ?sector) f1 = (f2, True)"
    using assms(5) l by (metis prod.collapse)
  have r: "save_mac drv mac f = f2" using e w by (simp add: save_mac_def)
  obtain buf where b: "blocking_read drv IDENTITY_OFFSET 16 f2 = Some buf" using assms(6) by blast
  have "cell f1 (IDENTITY_OFFSET + i) = 0xFF" if "i < 256" for i
    using nor_erase(2) [OF assms(1) e] that by (simp add: SECTOR_SIZE_def)
  then have "cell f2 (IDENTITY_OFFSET + i) = take 256 ?sector ! i" if "i < 256" for i
    using nor_write(2) [OF assms(1) w, of i] that l by simp
  then have "buf = take 16 (take 256 ?sector)"
    unfolding nor_read [OF assms(1) b] using l by (intro nth_equalityI) simp_all
  then have "buf = IDENTITY_MAGIC @ mac @ replicate 6 0xFF" unfolding s using assms(2) by (simp add: IDENTITY_MAGIC_def)
  then have "take 4 buf = IDENTITY_MAGIC" "take 6 (drop 4 buf) = mac" using assms(2) by (simp_all add: IDENTITY_MAGIC_def)
  then show ?thesis using assms(3) by (simp add: r load_mac_def b)
qed

lemma mac_saved_witness:
  "load_mac ideal_flash (save_mac ideal_flash [2, 0, 0, 1, 2, 3] (\<lambda>_. 0)) = Some [2, 0, 0, 1, 2, 3]"
proof -
  have b: "IDENTITY_OFFSET + SECTOR_SIZE \<le> FLASH_SIZE" "IDENTITY_OFFSET + 256 \<le> FLASH_SIZE" "IDENTITY_OFFSET + 16 \<le> FLASH_SIZE"
    by (simp_all add: flash_layout)
  have n: "[2, 0, 0, 1, 2, 3] \<noteq> replicate 6 (0 :: u8)" by (auto dest: arg_cong [where f = hd])
  show ?thesis by (rule mac_saved [OF ideal_nor _ n]) (use b in \<open>simp_all add: ideal_flash_def\<close>)
qed

end
