(* ===== verification/Ota_Task.thy ===== *)
theory Ota_Task
  imports Ota Flash
begin

text \<open>
  \<open>firmware/src/ota.rs\<close>: the upload of a firmware image, raw or UF2, into the slot that is not running.

  The body of the request is read in pieces the network chooses: a \<open>reader\<close> is the list of pieces still to come
  and how the stream ends. A read takes a piece, or a part of it when the buffer is shorter; an empty piece is
  what \<open>Ok(0)\<close> reports. The flash driver is the parameter of \<open>Flash\<close>. A handler returns the flash and the
  result; \<open>None\<close> for the flash is the mutex before \<open>main\<close> has filled it.
\<close>

section \<open>Reading\<close>

record reader =
  pieces :: "bytes list"
  breaks :: bool

datatype read_result = Got bytes | ReadError

fun read_pieces :: "nat \<Rightarrow> bytes list \<Rightarrow> bool \<Rightarrow> read_result \<times> bytes list" where
  "read_pieces k [] br = (if br then ReadError else Got [], [])"
| "read_pieces k (p # ps) br = (if length p \<le> k then (Got p, ps) else (Got (take k p), drop k p # ps))"

definition read_some :: "nat \<Rightarrow> reader \<Rightarrow> read_result \<times> reader" where
  "read_some k r = (let (x, ps) = read_pieces k (pieces r) (breaks r) in (x, r\<lparr>pieces := ps\<rparr>))"

lemma read_pieces_length: "read_pieces k ps br = (Got bs, ps') \<Longrightarrow> length bs \<le> k"
  by (cases ps) (auto split: if_splits)

lemma read_some_length: "read_some k r = (Got bs, r') \<Longrightarrow> length bs \<le> k"
  using read_pieces_length by (auto simp: read_some_def split: prod.splits)

text \<open>\<open>while filled < sector_data_len { reader.read(..) }\<close>\<close>

function fill :: "nat \<Rightarrow> reader \<Rightarrow> (string, bytes \<times> reader) result" where
  "fill want r =
     (if want = 0 then Ok ([], r)
      else case read_some want r of
        (ReadError, r') \<Rightarrow> Err ''Socket read error''
      | (Got bs, r') \<Rightarrow>
          if bs = [] then Err ''Connection closed before image fully received''
          else and_then (fill (want - length bs) r') (\<lambda>(rest, r'). Ok (bs @ rest, r')))"
  by pat_completeness auto
termination by (relation "measure fst") auto

declare fill.simps [simp del]

section \<open>UF2 upload\<close>

text \<open>One complete block: the sector erased last (\<open>-1\<close> before the first), the flash, and the outcome.\<close>

definition uf2_erase :: "'f flash_driver \<Rightarrow> nat \<Rightarrow> int \<Rightarrow> 'f \<Rightarrow> 'f \<times> bool" where
  "uf2_erase drv sector_num highest f =
     (if int sector_num > highest
      then blocking_erase drv (sector_num * SECTOR_SIZE) (sector_num * SECTOR_SIZE + SECTOR_SIZE) f
      else (f, True))"

definition uf2_block_write ::
  "'f flash_driver \<Rightarrow> nat \<Rightarrow> bytes \<Rightarrow> int \<times> 'f \<Rightarrow> (int \<times> 'f) \<times> string option" where
  "uf2_block_write drv target block = (\<lambda>(highest, f).
     case parse_uf2_block block of
       Ok (target_addr, payload, _, _) \<Rightarrow>
         if target_addr < XIP_BASE then ((highest, f), Some ''UF2 block has invalid target address'')
         else
           let write_addr = target + unat (target_addr - XIP_BASE) in
           if write_addr + length payload > PROTECTED_OFFSET then
             ((highest, f), Some ''UF2 block would overwrite config area'')
           else
             let sector_num = write_addr div SECTOR_SIZE;
                 (f, erased) = uf2_erase drv sector_num highest f in
             if \<not> erased then ((highest, f), Some ''Flash erase error during UF2 staging'')
             else
               let highest = max highest (int sector_num);
                   (f, written) = blocking_write drv write_addr payload f in
               if \<not> written then ((highest, f), Some ''Flash write error during UF2 staging'')
               else ((highest, f), None)
     | _ \<Rightarrow> ((highest, f), Some ''Invalid UF2 block''))"

text \<open>
  The loop of \<open>handle_uf2_stream\<close>: the filled part of the block buffer, the rest of the first piece, the number of bytes
  still to read, the reader and the flash. The result is \<open>None\<close> for success.
\<close>

function uf2_loop ::
  "'f flash_driver \<Rightarrow> nat \<Rightarrow> bytes \<Rightarrow> bytes \<Rightarrow> nat \<Rightarrow> reader \<Rightarrow> int \<times> 'f \<Rightarrow> 'f \<times> string option" where
  "uf2_loop drv target pend extra remaining r st =
     (if length pend \<ge> UF2_BLOCK_SIZE then
        (let (st, err) = uf2_block_write drv target (take UF2_BLOCK_SIZE pend) st in
         case err of
           Some e \<Rightarrow> (snd st, Some e)
         | None \<Rightarrow> uf2_loop drv target (drop UF2_BLOCK_SIZE pend) extra remaining r st)
      else if extra \<noteq> [] then
        (let n = min (length extra) (UF2_BLOCK_SIZE - length pend) in
         uf2_loop drv target (pend @ take n extra) (drop n extra) remaining r st)
      else if remaining = 0 then (snd st, None)
      else case read_some (min remaining (UF2_BLOCK_SIZE - length pend)) r of
        (ReadError, r') \<Rightarrow> (snd st, Some ''Socket read error during UF2 upload'')
      | (Got bs, r') \<Rightarrow>
          if bs = [] then (snd st, None)
          else uf2_loop drv target (pend @ bs) extra (remaining - length bs) r' st)"
  by pat_completeness auto
termination
proof (relation "measures [\<lambda>(drv, target, pend, extra, remaining, r, st). length extra + remaining,
    \<lambda>(drv, target, pend, extra, remaining, r, st). length pend]")
qed (auto simp: UF2_BLOCK_SIZE_def dest: read_some_length)

declare uf2_loop.simps [simp del]

definition handle_uf2_stream ::
  "'f flash_driver \<Rightarrow> nat \<Rightarrow> bytes \<Rightarrow> nat \<Rightarrow> reader \<Rightarrow> 'f \<Rightarrow> 'f \<times> string option" where
  "handle_uf2_stream drv content_length first_chunk target r f =
     (let first_len = min (length first_chunk) UF2_BLOCK_SIZE in
      uf2_loop drv target (take first_len first_chunk) (drop first_len first_chunk)
        (content_length - length first_chunk) r (- 1, f))"

section \<open>Raw upload\<close>

text \<open>The sectors of the image one after the other; the first one decides on the format.\<close>

primrec raw_sectors ::
  "'f flash_driver \<Rightarrow> nat \<Rightarrow> nat \<Rightarrow> nat list \<Rightarrow> bool \<Rightarrow> reader \<Rightarrow> 'f \<Rightarrow> 'f \<times> string option" where
  "raw_sectors drv target content_length [] = (\<lambda>first_sector r f. (f, None))"
| "raw_sectors drv target content_length (i # is) = (\<lambda>first_sector r f.
     let data_len = min ((i + 1) * SECTOR_SIZE) content_length - i * SECTOR_SIZE in
      case fill data_len r of
        Ok (chunk, r) \<Rightarrow>
          let sector_buf = chunk @ replicate (SECTOR_SIZE - data_len) 0xFF in
          if first_sector \<and> is_uf2 sector_buf then handle_uf2_stream drv content_length (take data_len sector_buf) target r f
          else if first_sector \<and> \<not> validate_firmware_image (take (min 8 data_len) sector_buf) then
            (f, Some ''Invalid firmware: bad ARM vector table'')
          else
            let aligned = (data_len + 255) div 256 * 256;
                (f, written) = blocking_write drv (target + i * SECTOR_SIZE) (take aligned sector_buf) f in
            if \<not> written then (f, Some ''Flash write error'')
            else raw_sectors drv target content_length is False r f
      | Err e \<Rightarrow> (f, Some e)
      | Panic \<Rightarrow> (f, Some []))"

definition handle_firmware_stream ::
  "'f flash_driver \<Rightarrow> u32 \<Rightarrow> reader \<Rightarrow> nat \<Rightarrow> 'f option \<Rightarrow> 'f option \<times> string option" where
  "handle_firmware_stream drv pc r content_length flash =
     (let target = ota_target_slot pc;
          max_size = (if target = SLOT_B_OFFSET then PROTECTED_OFFSET - SLOT_B_OFFSET else SLOT_B_OFFSET) in
      if content_length > max_size then (flash, Some ''Firmware image exceeds slot size'')
      else if content_length > MAX_FIRMWARE_SIZE then (flash, Some ''Firmware image exceeds maximum allowed size'')
      else
        let num_sectors = (content_length + SECTOR_SIZE - 1) div SECTOR_SIZE in
        case flash of
          None \<Rightarrow> (None, Some ''Flash not initialised'')
        | Some f \<Rightarrow>
            let (f, erased) = blocking_erase drv target (target + num_sectors * SECTOR_SIZE) f in
            if \<not> erased then (Some f, Some ''Failed to erase target slot'')
            else
              let (f, err) = raw_sectors drv target content_length [0..<num_sectors] True r f in (Some f, err))"

lemma fill_simps:
  "fill 0 r = Ok ([], r)"
  "want \<noteq> 0 \<Longrightarrow> read_some want r = (ReadError, r') \<Longrightarrow> fill want r = Err ''Socket read error''"
  "want \<noteq> 0 \<Longrightarrow> read_some want r = (Got [], r') \<Longrightarrow> fill want r = Err ''Connection closed before image fully received''"
  "want \<noteq> 0 \<Longrightarrow> read_some want r = (Got (b # bs), r') \<Longrightarrow>
     fill want r = and_then (fill (want - Suc (length bs)) r') (\<lambda>(rest, r'). Ok (b # bs @ rest, r'))"
  by (simp_all add: fill.simps [of want] fill.simps [of 0])

text \<open>A filled buffer has the wanted length; the bytes come off the front of the pieces.\<close>

lemma fill_induct [case_names Zero Error Closed Piece]:
  assumes "\<And>r. P 0 r"
    and "\<And>want r r'. want \<noteq> 0 \<Longrightarrow> read_some want r = (ReadError, r') \<Longrightarrow> P want r"
    and "\<And>want r r'. want \<noteq> 0 \<Longrightarrow> read_some want r = (Got [], r') \<Longrightarrow> P want r"
    and "\<And>want r r' b bs. want \<noteq> 0 \<Longrightarrow> read_some want r = (Got (b # bs), r') \<Longrightarrow> length (b # bs) \<le> want \<Longrightarrow>
      P (want - Suc (length bs)) r' \<Longrightarrow> P want r"
  shows "P want r"
proof (induction want arbitrary: r rule: less_induct)
  case (less want)
  obtain x r' where x: "read_some want r = (x, r')" by fastforce
  show ?case
  proof (cases "want = 0")
    case False
    show ?thesis
    proof (cases x)
      case ReadError
      with x assms(2) False show ?thesis by simp
    next
      case (Got bs)
      show ?thesis
      proof (cases bs)
        case Nil
        with Got x assms(3) False show ?thesis by simp
      next
        case (Cons b cs)
        with Got x have "read_some want r = (Got (b # cs), r')" by simp
        with read_some_length [OF this] assms(4) False less show ?thesis by simp
      qed
    qed
  qed (use assms(1) in simp)
qed

lemma fill_not_Panic: "fill want r \<noteq> Panic"
proof (induction want r rule: fill_induct)
  case (Piece want r r' b bs)
  then show ?case by (simp add: fill_simps(4) [OF Piece.hyps(1,2)] and_then_eq_Panic split_beta)
qed (simp_all add: fill_simps(1-3))

lemma fill_length: "fill want r = Ok (bs, r') \<Longrightarrow> length bs = want"
proof (induction want r arbitrary: bs r' rule: fill_induct)
  case (Piece want r r1 b cs)
  from Piece.prems obtain rest where "fill (want - Suc (length cs)) r1 = Ok (rest, r')" "bs = b # cs @ rest"
    unfolding fill_simps(4) [OF Piece.hyps(1,2)] and_then_eq_Ok by auto
  with Piece.IH [OF this(1)] Piece.hyps(3) show ?case by simp
next
  case (Error want r r1)
  then show ?case by (simp add: fill_simps(2) [OF Error.hyps])
next
  case (Closed want r r1)
  then show ?case by (simp add: fill_simps(3) [OF Closed.hyps])
qed (simp add: fill_simps(1))

section \<open>What is never written\<close>

text \<open>
  Everything from the second sector of the configuration region on: the rest of the region and the identity sector
  with the MAC address.
\<close>

definition keeps_tail :: "('f \<Rightarrow> nat \<Rightarrow> u8) \<Rightarrow> 'f \<Rightarrow> 'f \<Rightarrow> bool" where
  "keeps_tail cell f f' \<longleftrightarrow> outside cell 0 (PROTECTED_OFFSET + SECTOR_SIZE) f f'"

lemma keeps_tail_refl [simp]: "keeps_tail cell f f"
  by (simp add: keeps_tail_def)

lemma keeps_tail_trans: "keeps_tail cell f f' \<Longrightarrow> keeps_tail cell f' f'' \<Longrightarrow> keeps_tail cell f f''"
  unfolding keeps_tail_def by (rule outside_trans)

lemma keeps_tail_erase:
  "nor_flash drv cell \<Longrightarrow> blocking_erase drv a b f = (f', ok) \<Longrightarrow> b \<le> PROTECTED_OFFSET + SECTOR_SIZE \<Longrightarrow> keeps_tail cell f f'"
  unfolding keeps_tail_def by (rule outside_weaken [OF nor_erase(1)]) simp_all

lemma keeps_tail_write:
  "nor_flash drv cell \<Longrightarrow> blocking_write drv a bs f = (f', ok) \<Longrightarrow> a + length bs \<le> PROTECTED_OFFSET + SECTOR_SIZE \<Longrightarrow>
   keeps_tail cell f f'"
  unfolding keeps_tail_def by (rule outside_weaken [OF nor_write(1)]) simp_all

lemma sector_start:
  assumes "a \<le> PROTECTED_OFFSET"
  shows "a div SECTOR_SIZE * SECTOR_SIZE + SECTOR_SIZE \<le> PROTECTED_OFFSET + SECTOR_SIZE"
  using assms div_times_less_eq_dividend [of a SECTOR_SIZE] by linarith

lemma uf2_erase_keeps:
  assumes "nor_flash drv cell" and "uf2_erase drv (a div SECTOR_SIZE) h f = (f', ok)" and "a \<le> PROTECTED_OFFSET"
  shows "keeps_tail cell f f'"
proof (cases "int (a div SECTOR_SIZE) > h")
  case True
  with assms(2) show ?thesis
    using keeps_tail_erase [OF assms(1) _ sector_start [OF assms(3)]] by (simp add: uf2_erase_def)
qed (use assms(2) in \<open>simp add: uf2_erase_def\<close>)

text \<open>The outcome of a block that passes the checks, and of one that does not.\<close>

lemma uf2_block_accepted:
  assumes "parse_uf2_block block = Ok (addr, payload, n, m)" and "\<not> addr < XIP_BASE"
    and "a = target + unat (addr - XIP_BASE)" and "\<not> a + length payload > PROTECTED_OFFSET"
    and "uf2_erase drv (a div SECTOR_SIZE) h f = (f1, erased)" and "blocking_write drv a payload f1 = (f2, written)"
  shows "uf2_block_write drv target block (h, f) =
    (if \<not> erased then ((h, f1), Some ''Flash erase error during UF2 staging'')
     else ((max h (int (a div SECTOR_SIZE)), f2), if written then None else Some ''Flash write error during UF2 staging''))"
  using assms(5,6) unfolding uf2_block_write_def prod.case assms(1) result.case Let_def assms(3) [symmetric]
  by (simp only: assms(2,4) if_False prod.case) simp

lemma uf2_block_rejected:
  assumes "\<And>addr payload n m. parse_uf2_block block = Ok (addr, payload, n, m) \<Longrightarrow>
    addr < XIP_BASE \<or> target + unat (addr - XIP_BASE) + length payload > PROTECTED_OFFSET"
  shows "fst (uf2_block_write drv target block st) = st"
proof (cases "parse_uf2_block block")
  case (Ok x)
  then obtain addr payload n m where p: "parse_uf2_block block = Ok (addr, payload, n, m)" by (cases x) auto
  show ?thesis
  proof (cases "addr < XIP_BASE")
    case False
    then have "target + unat (addr - XIP_BASE) + length payload > PROTECTED_OFFSET" using assms [OF p] by simp
    then show ?thesis unfolding uf2_block_write_def p result.case prod.case Let_def
      by (cases st) (simp only: False if_False if_True prod.case fst_conv)
  qed (cases st, simp add: uf2_block_write_def p)
qed (cases st, simp add: uf2_block_write_def)+

lemma uf2_block_keeps:
  assumes "nor_flash drv cell" and "uf2_block_write drv target block (h, f) = ((h', f'), err)"
  shows "keeps_tail cell f f'"
proof (cases "\<exists>addr payload n m. parse_uf2_block block = Ok (addr, payload, n, m) \<and> \<not> addr < XIP_BASE
    \<and> \<not> target + unat (addr - XIP_BASE) + length payload > PROTECTED_OFFSET")
  case True
  then obtain addr payload n m where p: "parse_uf2_block block = Ok (addr, payload, n, m)" "\<not> addr < XIP_BASE"
    "\<not> target + unat (addr - XIP_BASE) + length payload > PROTECTED_OFFSET" by blast
  define a where "a = target + unat (addr - XIP_BASE)"
  have g: "\<not> a + length payload > PROTECTED_OFFSET" using p(3) by (simp add: a_def)
  obtain f1 erased where e: "uf2_erase drv (a div SECTOR_SIZE) h f = (f1, erased)" by fastforce
  obtain f2 written where w: "blocking_write drv a payload f1 = (f2, written)" by fastforce
  have k: "keeps_tail cell f f1" using g by (intro uf2_erase_keeps [OF assms(1) e]) simp
  have "keeps_tail cell f1 f2" using g by (intro keeps_tail_write [OF assms(1) w]) simp
  with k have k2: "keeps_tail cell f f2" by (rule keeps_tail_trans)
  have "f' = snd (fst (uf2_block_write drv target block (h, f)))" by (simp only: assms(2) fst_conv snd_conv)
  with k k2 show ?thesis
    unfolding uf2_block_accepted [OF p(1,2) a_def g e w]
    by (cases erased) (simp_all only: not_True_eq_False not_False_eq_True if_True if_False fst_conv snd_conv simp_thms)
next
  case False
  then have "fst (uf2_block_write drv target block (h, f)) = (h, f)" by (intro uf2_block_rejected) blast
  with assms(2) show ?thesis by simp
qed

section \<open>The UF2 loop, step by step\<close>

lemma uf2_loop_block:
  assumes "length pend \<ge> UF2_BLOCK_SIZE" and "uf2_block_write drv target (take UF2_BLOCK_SIZE pend) st = (st', err)"
  shows "uf2_loop drv target pend extra remaining r st =
    (case err of Some e \<Rightarrow> (snd st', Some e) | None \<Rightarrow> uf2_loop drv target (drop UF2_BLOCK_SIZE pend) extra remaining r st')"
  using assms by (subst uf2_loop.simps) (simp add: Let_def)

lemma uf2_loop_extra:
  assumes "length pend < UF2_BLOCK_SIZE" and "extra \<noteq> []" and "n = min (length extra) (UF2_BLOCK_SIZE - length pend)"
  shows "uf2_loop drv target pend extra remaining r st =
    uf2_loop drv target (pend @ take n extra) (drop n extra) remaining r st"
  using assms by (subst uf2_loop.simps) (simp add: Let_def)

lemma uf2_loop_done:
  "length pend < UF2_BLOCK_SIZE \<Longrightarrow> uf2_loop drv target pend [] 0 r st = (snd st, None)"
  by (subst uf2_loop.simps) simp

lemma uf2_loop_read:
  assumes "length pend < UF2_BLOCK_SIZE" and "remaining \<noteq> 0"
    and "read_some (min remaining (UF2_BLOCK_SIZE - length pend)) r = (x, r')"
  shows "uf2_loop drv target pend [] remaining r st =
    (case x of ReadError \<Rightarrow> (snd st, Some ''Socket read error during UF2 upload'')
     | Got bs \<Rightarrow> if bs = [] then (snd st, None) else uf2_loop drv target (pend @ bs) [] (remaining - length bs) r' st)"
  using assms by (subst uf2_loop.simps) (simp split: read_result.split)

text \<open>The loop keeps what each block keeps.\<close>

lemma uf2_loop_invariant:
  assumes "\<And>st st' err block. P st \<Longrightarrow> uf2_block_write drv target block st = (st', err) \<Longrightarrow> P st'"
    and "P st" and "uf2_loop drv target pend extra remaining r st = (f', err)"
  shows "\<exists>h. P (h, f')"
  using assms(2,3)
proof (induction "2 * (length extra + remaining) + length pend" arbitrary: pend extra remaining r st rule: less_induct)
  case less
  have now: "\<exists>h. P (h, snd st)" using less.prems(1) by (cases st) auto
  show ?case
  proof (cases "length pend \<ge> UF2_BLOCK_SIZE")
    case True
    obtain st1 e where b: "uf2_block_write drv target (take UF2_BLOCK_SIZE pend) st = (st1, e)" by fastforce
    have p: "P st1" by (rule assms(1) [OF less.prems(1) b])
    then have f: "\<exists>h. P (h, snd st1)" by (cases st1) auto
    have "2 * (length extra + remaining) + length (drop UF2_BLOCK_SIZE pend) < 2 * (length extra + remaining) + length pend"
      using True by (simp add: UF2_BLOCK_SIZE_def)
    from less.hyps [OF this p] f less.prems(2) show ?thesis unfolding uf2_loop_block [OF True b] by (cases e) auto
  next
    case short: False
    then have s: "length pend < UF2_BLOCK_SIZE" by simp
    show ?thesis
    proof (cases "extra = []")
      case False
      define n where "n = min (length extra) (UF2_BLOCK_SIZE - length pend)"
      have "n \<le> length extra" "0 < n" using False s by (auto simp: n_def)
      then have "2 * (length (drop n extra) + remaining) + length (pend @ take n extra) < 2 * (length extra + remaining) + length pend"
        by simp
      from less.hyps [OF this less.prems(1)] less.prems(2) show ?thesis unfolding uf2_loop_extra [OF s False n_def] by blast
    next
      case e: True
      show ?thesis
      proof (cases "remaining = 0")
        case True
        with less.prems(2) now show ?thesis by (simp add: e uf2_loop_done [OF s])
      next
        case False
        obtain x r1 where x: "read_some (min remaining (UF2_BLOCK_SIZE - length pend)) r = (x, r1)" by fastforce
        show ?thesis
        proof (cases x)
          case ReadError
          with less.prems(2) now show ?thesis by (simp add: e uf2_loop_read [OF s False x])
        next
          case (Got bs)
          with x have "length bs \<le> min remaining (UF2_BLOCK_SIZE - length pend)" using read_some_length by metis
          then have "bs \<noteq> [] \<Longrightarrow> 2 * (length [] + (remaining - length bs)) + length (pend @ bs) < 2 * (length extra + remaining) + length pend"
            by (cases bs) (auto simp: e)
          from less.hyps [OF this less.prems(1)] less.prems(2) now Got show ?thesis
            by (cases "bs = []") (simp_all add: e uf2_loop_read [OF s False x])
        qed
      qed
    qed
  qed
qed

lemma uf2_loop_keeps:
  assumes "nor_flash drv cell" and "uf2_loop drv target pend extra remaining r (h, f) = (f', err)"
  shows "keeps_tail cell f f'"
proof -
  have "\<exists>h. keeps_tail cell f (snd (h :: int, f'))"
    using uf2_loop_invariant [of "\<lambda>st. keeps_tail cell f (snd st)", OF _ _ assms(2)]
      uf2_block_keeps [OF assms(1)] keeps_tail_trans
    by (metis keeps_tail_refl prod.collapse snd_conv)
  then show ?thesis by simp
qed

section \<open>Any upload\<close>

lemma max_sectors:
  assumes "n \<le> k * SECTOR_SIZE" and "i < (n + SECTOR_SIZE - 1) div SECTOR_SIZE"
  shows "(i + 1) * SECTOR_SIZE \<le> k * SECTOR_SIZE"
proof -
  have "(n + SECTOR_SIZE - 1) div SECTOR_SIZE \<le> k"
    using assms(1) by (simp add: SECTOR_SIZE_def)
  then have "i + 1 \<le> k" using assms(2) by linarith
  then show ?thesis by (rule mult_le_mono1)
qed

lemma aligned_sector: "n \<le> SECTOR_SIZE \<Longrightarrow> (n + 255) div 256 * 256 \<le> SECTOR_SIZE"
  by (simp add: SECTOR_SIZE_def)

text \<open>One sector: what is left to do when its bytes have arrived.\<close>

definition data_length :: "nat \<Rightarrow> nat \<Rightarrow> nat" where
  "data_length content_length i = min ((i + 1) * SECTOR_SIZE) content_length - i * SECTOR_SIZE"

definition sector_buffer :: "bytes \<Rightarrow> bytes" where
  "sector_buffer chunk = chunk @ replicate (SECTOR_SIZE - length chunk) 0xFF"

lemma data_length_le: "data_length content_length i \<le> SECTOR_SIZE"
  unfolding data_length_def by (simp add: min_def add_mult_distrib) linarith

lemma length_sector_buffer: "length chunk \<le> SECTOR_SIZE \<Longrightarrow> length (sector_buffer chunk) = SECTOR_SIZE"
  by (simp add: sector_buffer_def)

lemma raw_sector_step:
  assumes "fill (data_length content_length i) r = Ok (chunk, r')"
  shows "raw_sectors drv target content_length (i # is) first_sector r f =
    (if first_sector \<and> is_uf2 (sector_buffer chunk) then handle_uf2_stream drv content_length chunk target r' f
     else if first_sector \<and> \<not> validate_firmware_image (take 8 chunk) then (f, Some ''Invalid firmware: bad ARM vector table'')
     else case blocking_write drv (target + i * SECTOR_SIZE)
         (take ((length chunk + 255) div 256 * 256) (sector_buffer chunk)) f of
       (f', written) \<Rightarrow>
         if \<not> written then (f', Some ''Flash write error'') else raw_sectors drv target content_length is False r' f')"
proof -
  have l: "data_length content_length i = length chunk" using fill_length [OF assms] by simp
  have "take (min 8 (length chunk)) (sector_buffer chunk) = take 8 chunk"
    by (simp add: sector_buffer_def min_def)
  then show ?thesis
    using assms l unfolding data_length_def by (simp add: Let_def sector_buffer_def)
qed

lemma raw_sector_fails:
  "fill (data_length content_length i) r = Err e \<Longrightarrow>
   raw_sectors drv target content_length (i # is) first_sector r f = (f, Some e)"
  by (simp add: data_length_def Let_def)

lemma raw_sectors_keeps:
  assumes "nor_flash drv cell" and "\<forall>i \<in> set is. target + (i + 1) * SECTOR_SIZE \<le> PROTECTED_OFFSET"
    and "raw_sectors drv target content_length is first_sector r f = (f', err)"
  shows "keeps_tail cell f f'"
  using assms(2,3)
proof (induction "is" arbitrary: first_sector r f)
  case (Cons i "is")
  show ?case
  proof (cases "fill (data_length content_length i) r")
    case (Ok x)
    then obtain chunk r1 where c: "fill (data_length content_length i) r = Ok (chunk, r1)" by (cases x) auto
    note s = Cons.prems(2) [unfolded raw_sector_step [OF c]]
    let ?bs = "take ((length chunk + 255) div 256 * 256) (sector_buffer chunk)"
    obtain f1 written where w: "blocking_write drv (target + i * SECTOR_SIZE) ?bs f = (f1, written)" by fastforce
    have "length chunk \<le> SECTOR_SIZE" using fill_length [OF c] data_length_le by metis
    then have "length ?bs \<le> SECTOR_SIZE" by (simp add: length_sector_buffer)
    then have k: "keeps_tail cell f f1"
      using Cons.prems(1) by (intro keeps_tail_write [OF assms(1) w]) simp
    consider "handle_uf2_stream drv content_length chunk target r1 f = (f', err)" | "f' = f" | "f' = f1"
      | "raw_sectors drv target content_length is False r1 f1 = (f', err)"
      using s by (auto simp: w split: if_splits)
    then show ?thesis
    proof cases
      case 1
      then show ?thesis using uf2_loop_keeps [OF assms(1)] by (simp add: handle_uf2_stream_def Let_def)
    next
      case 4
      with Cons.IH Cons.prems(1) k show ?thesis using keeps_tail_trans by (meson list.set_intros(2))
    qed (use k in simp_all)
  next
    case (Err e)
    with Cons.prems(2) show ?thesis by (simp add: raw_sector_fails del: raw_sectors.simps)
  next
    case Panic
    then show ?thesis using fill_not_Panic by blast
  qed
qed simp

end
