(* ===== verification/Ota_Props.thy ===== *)
theory Ota_Props
  imports Ota_Task
begin

text \<open>
  What an upload does to the flash, whatever the network delivers: no upload writes behind the first sector of the
  configuration region, a raw image ends up in the inactive slot byte for byte and touches nothing else, and an
  UF2 file is bounded by the configuration region only, not by the slot.
\<close>

section \<open>The bytes a filled buffer holds\<close>

lemma read_pieces_concat: "read_pieces k ps br = (Got bs, ps') \<Longrightarrow> concat ps = bs @ concat ps'"
  by (cases ps) (auto split: if_splits)

lemma read_some_concat: "read_some k r = (Got bs, r') \<Longrightarrow> concat (pieces r) = bs @ concat (pieces r')"
  by (auto simp: read_some_def dest: read_pieces_concat split: prod.splits)

lemma read_some_nonempty:
  assumes "[] \<notin> set (pieces r)" and "concat (pieces r) \<noteq> []" and "0 < k"
  obtains b bs r' where "read_some k r = (Got (b # bs), r')" "[] \<notin> set (pieces r')"
proof -
  obtain p ps where r: "pieces r = p # ps" using assms(2) by (cases "pieces r") auto
  with assms(1) obtain b cs where p: "p = b # cs" by (cases p) auto
  show ?thesis
  proof (cases "length p \<le> k")
    case True
    show ?thesis by (rule that [of b cs "r\<lparr>pieces := ps\<rparr>"]) (use assms(1) r p True in \<open>simp_all add: read_some_def\<close>)
  next
    case False
    obtain j where k: "k = Suc j" using assms(3) by (cases k) auto
    show ?thesis
      by (rule that [of b "take j cs" "r\<lparr>pieces := drop k p # ps\<rparr>"])
        (use assms(1) r p False k in \<open>simp_all add: read_some_def\<close>)
  qed
qed

lemma fill_takes: "fill want r = Ok (bs, r') \<Longrightarrow> concat (pieces r) = bs @ concat (pieces r')"
proof (induction want r arbitrary: bs r' rule: fill_induct)
  case (Piece want r r1 b cs)
  from Piece.prems obtain rest where "fill (want - Suc (length cs)) r1 = Ok (rest, r')" "bs = b # cs @ rest"
    unfolding fill_simps(4) [OF Piece.hyps(1,2)] and_then_eq_Ok by auto
  with Piece.IH [OF this(1)] read_some_concat [OF Piece.hyps(2)] show ?case by simp
next
  case (Error want r r1)
  then show ?case by (simp add: fill_simps(2) [OF Error.hyps])
next
  case (Closed want r r1)
  then show ?case by (simp add: fill_simps(3) [OF Closed.hyps])
qed (simp add: fill_simps(1))

text \<open>A stream that holds the wanted bytes, in pieces of any size, fills the buffer with them.\<close>

lemma fill_enough:
  assumes "[] \<notin> set (pieces r)" and "want \<le> length (concat (pieces r))"
  shows "\<exists>bs r'. fill want r = Ok (bs, r') \<and> [] \<notin> set (pieces r')"
  using assms
proof (induction want arbitrary: r rule: less_induct)
  case (less want)
  show ?case
  proof (cases "want = 0")
    case True
    with less.prems show ?thesis by (simp add: fill_simps(1))
  next
    case False
    then have "concat (pieces r) \<noteq> []" "0 < want"
      using less.prems(2) by (auto simp del: concat_eq_Nil_conv)
    then obtain b bs r1 where x: "read_some want r = (Got (b # bs), r1)" "[] \<notin> set (pieces r1)"
      by (rule read_some_nonempty [OF less.prems(1)])
    have l: "want - Suc (length bs) \<le> length (concat (pieces r1))"
      using read_some_concat [OF x(1)] less.prems(2) by simp
    obtain rest r2 where "fill (want - Suc (length bs)) r1 = Ok (rest, r2)" "[] \<notin> set (pieces r2)"
      using less.IH [OF _ x(2) l] False by fastforce
    then show ?thesis by (simp add: fill_simps(4) [OF False x(1)])
  qed
qed

lemma fill_image:
  assumes "[] \<notin> set (pieces r)" and "concat (pieces r) = drop k img" and "k + want \<le> length img"
  obtains r' where "fill want r = Ok (take want (drop k img), r')" "[] \<notin> set (pieces r')"
    "concat (pieces r') = drop (k + want) img"
proof -
  have "want \<le> length (concat (pieces r))" using assms(2,3) by simp
  from fill_enough [OF assms(1) this] obtain bs r' where f: "fill want r = Ok (bs, r')" "[] \<notin> set (pieces r')" by blast
  have "bs @ concat (pieces r') = drop k img" using fill_takes [OF f(1)] assms(2) by simp
  then have "bs = take want (drop k img)" "concat (pieces r') = drop want (drop k img)"
    using fill_length [OF f(1)] append_eq_conv_conj by metis+
  with f show ?thesis by (intro that) (simp_all add: add.commute)
qed

section \<open>Slots\<close>

lemma slot_cases: "ota_target_slot pc = SLOT_B_OFFSET \<or> ota_target_slot pc = SLOT_A_OFFSET"
  by (simp add: ota_target_slot_def)

definition slot_size :: "nat \<Rightarrow> nat" where
  "slot_size target = (if target = SLOT_B_OFFSET then PROTECTED_OFFSET - SLOT_B_OFFSET else SLOT_B_OFFSET)"

definition sectors_of :: "nat \<Rightarrow> nat" where
  "sectors_of n = (n + SECTOR_SIZE - 1) div SECTOR_SIZE"

lemma slot_end: "ota_target_slot pc + slot_size (ota_target_slot pc) \<le> PROTECTED_OFFSET"
  using slot_cases [of pc] by (auto simp: slot_size_def flash_layout)

lemma slot_whole: "\<exists>k. slot_size (ota_target_slot pc) = k * SECTOR_SIZE"
proof -
  have "slot_size SLOT_B_OFFSET = 240 * SECTOR_SIZE" "slot_size SLOT_A_OFFSET = 256 * SECTOR_SIZE"
    by (simp_all add: slot_size_def flash_layout)
  with slot_cases [of pc] show ?thesis by metis
qed

lemma slot_sector:
  assumes "n \<le> slot_size (ota_target_slot pc)" and "i < sectors_of n"
  shows "(i + 1) * SECTOR_SIZE \<le> slot_size (ota_target_slot pc)"
  using slot_whole [of pc] max_sectors assms unfolding sectors_of_def by metis

lemma slot_sectors:
  assumes "n \<le> slot_size (ota_target_slot pc)"
  shows "sectors_of n * SECTOR_SIZE \<le> slot_size (ota_target_slot pc)"
proof (cases "sectors_of n")
  case (Suc i)
  then show ?thesis using slot_sector [OF assms, of i] by simp
qed simp

text \<open>The handler, its checks passed.\<close>

lemma upload_checked:
  assumes "\<not> n > slot_size (ota_target_slot pc)" and "\<not> n > MAX_FIRMWARE_SIZE"
    and "blocking_erase drv (ota_target_slot pc) (ota_target_slot pc + sectors_of n * SECTOR_SIZE) f = (f1, erased)"
  shows "handle_firmware_stream drv pc r n (Some f) =
    (if \<not> erased then (Some f1, Some ''Failed to erase target slot'')
     else case raw_sectors drv (ota_target_slot pc) n [0..<sectors_of n] True r f1 of (f', err) \<Rightarrow> (Some f', err))"
  using assms unfolding handle_firmware_stream_def Let_def slot_size_def sectors_of_def
  by (simp only: if_False option.case prod.case)

lemma upload_refused:
  assumes "n > slot_size (ota_target_slot pc) \<or> n > MAX_FIRMWARE_SIZE"
  shows "fst (handle_firmware_stream drv pc r n flash) = flash" "snd (handle_firmware_stream drv pc r n flash) \<noteq> None"
  using assms unfolding handle_firmware_stream_def Let_def slot_size_def by (simp_all only: if_True split: if_split) auto

section \<open>No upload reaches the identity sector\<close>

lemma upload_keeps_tail:
  assumes "nor_flash drv cell" and "handle_firmware_stream drv pc r n (Some f) = (Some f', err)"
  shows "keeps_tail cell f f'"
proof -
  let ?t = "ota_target_slot pc"
  show ?thesis
  proof (cases "n > slot_size ?t \<or> n > MAX_FIRMWARE_SIZE")
    case True
    with upload_refused(1) [OF True, of drv r "Some f"] assms(2) show ?thesis by simp
  next
    case False
    then have le: "n \<le> slot_size ?t" by simp
    obtain f1 erased where e: "blocking_erase drv ?t (?t + sectors_of n * SECTOR_SIZE) f = (f1, erased)" by fastforce
    obtain f2 err2 where s: "raw_sectors drv ?t n [0..<sectors_of n] True r f1 = (f2, err2)" by fastforce
    have k: "keeps_tail cell f f1"
      using slot_sectors [OF le] slot_end [of pc] by (intro keeps_tail_erase [OF assms(1) e]) simp
    have "\<forall>i \<in> set [0..<sectors_of n]. ?t + (i + 1) * SECTOR_SIZE \<le> PROTECTED_OFFSET"
      using slot_sector [OF le] slot_end [of pc] by fastforce
    then have "keeps_tail cell f1 f2" by (rule raw_sectors_keeps [OF assms(1) _ s])
    then have k2: "keeps_tail cell f f2" by (rule keeps_tail_trans [OF k])
    have "f' = f1 \<or> f' = f2"
      using assms(2) False by (auto simp: upload_checked [OF _ _ e] s split: if_splits)
    with k k2 show ?thesis by auto
  qed
qed

text \<open>
  C24: whatever the upload holds, raw or UF2, complete or cut off, and whether the driver succeeds
  or fails, no byte behind the first sector of the configuration region changes: the identity sector with the
  MAC address survives every upload.
\<close>

theorem ota_protects_identity:
  assumes "nor_flash drv cell" and "handle_firmware_stream drv pc r n (Some f) = (Some f', err)"
    and "PROTECTED_OFFSET + SECTOR_SIZE \<le> i"
  shows "cell f' i = cell f i"
  using upload_keeps_tail [OF assms(1,2)] assms(3) by (simp add: keeps_tail_def outside_def)

section \<open>A raw image\<close>

text \<open>A driver whose operations succeed inside the flash.\<close>

definition completes :: "'f flash_driver \<Rightarrow> bool" where
  "completes drv \<longleftrightarrow>
     (\<forall>a b f. b \<le> FLASH_SIZE \<longrightarrow> snd (blocking_erase drv a b f))
     \<and> (\<forall>a bs f. a + length bs \<le> FLASH_SIZE \<longrightarrow> snd (blocking_write drv a bs f))"

lemma ideal_completes: "completes ideal_flash"
  by (simp add: completes_def ideal_flash_def)

lemma le32_at_take: "i + 3 < k \<Longrightarrow> le32_at (take k d) i = le32_at d i"
  by (simp add: le32_at_def)

lemma le32_at_append: "i + 3 < length d \<Longrightarrow> le32_at (d @ e) i = le32_at d i"
  by (simp add: le32_at_def nth_append)

text \<open>An image with a valid header is not an UF2 file: its initial stack pointer lies in RAM.\<close>

lemma valid_not_uf2:
  assumes "validate_firmware_image (take 8 chunk)"
  shows "8 \<le> length chunk" "\<not> is_uf2 (sector_buffer chunk)"
proof -
  show l: "8 \<le> length chunk" using assms by (simp add: validate_firmware_image_def split: if_splits)
  have sp: "le32_at chunk 0 \<ge> RAM_BASE"
    using assms l by (simp add: validate_firmware_image_def Let_def le32_at_take)
  have "\<not> RAM_BASE \<le> UF2_MAGIC1" by (simp add: RAM_BASE_def UF2_MAGIC1_def)
  with sp have "le32_at chunk 0 \<noteq> UF2_MAGIC1" by auto
  with l show "\<not> is_uf2 (sector_buffer chunk)"
    by (simp add: is_uf2_def sector_buffer_def le32_at_append)
qed

text \<open>What is programmed for a chunk: whole pages, the chunk first.\<close>

definition sector_pages :: "bytes \<Rightarrow> bytes" where
  "sector_pages chunk = take ((length chunk + 255) div 256 * 256) (sector_buffer chunk)"

lemma sector_pages_bytes:
  assumes "length chunk \<le> SECTOR_SIZE"
  shows "length (sector_pages chunk) \<le> SECTOR_SIZE" "length chunk \<le> length (sector_pages chunk)"
    "j < length chunk \<Longrightarrow> sector_pages chunk ! j = chunk ! j"
proof -
  have k: "length chunk \<le> (length chunk + 255) div 256 * 256" by linarith
  show "length (sector_pages chunk) \<le> SECTOR_SIZE" "length chunk \<le> length (sector_pages chunk)"
    using k assms by (simp_all add: sector_pages_def length_sector_buffer)
  assume "j < length chunk"
  with k show "sector_pages chunk ! j = chunk ! j" by (simp add: sector_pages_def sector_buffer_def nth_append)
qed

text \<open>The first chunk of an image with a valid header passes the checks of the first sector.\<close>

lemma first_sector_passes:
  assumes "first_sector \<longrightarrow> i = 0 \<and> validate_firmware_image (take 8 img)"
    and "k = min ((i + 1) * SECTOR_SIZE) (length img) - i * SECTOR_SIZE"
  shows "\<not> (first_sector \<and> is_uf2 (sector_buffer (take k (drop (i * SECTOR_SIZE) img))))"
    "\<not> (first_sector \<and> \<not> validate_firmware_image (take 8 (take k (drop (i * SECTOR_SIZE) img))))"
proof -
  have "first_sector \<Longrightarrow> validate_firmware_image (take 8 (take k (drop (i * SECTOR_SIZE) img)))"
  proof -
    assume first_sector
    with assms(1) have v: "i = 0" "validate_firmware_image (take 8 img)" by auto
    then have "8 \<le> k" using valid_not_uf2(1) [OF v(2)] assms(2) by (simp add: SECTOR_SIZE_def)
    with v show ?thesis by (simp add: min_def)
  qed
  then show "\<not> (first_sector \<and> is_uf2 (sector_buffer (take k (drop (i * SECTOR_SIZE) img))))"
    "\<not> (first_sector \<and> \<not> validate_firmware_image (take 8 (take k (drop (i * SECTOR_SIZE) img))))"
    using valid_not_uf2(2) by blast+
qed

text \<open>The rest of an image, sector by sector, onto erased flash.\<close>

lemma raw_sector_written:
  assumes "nor_flash drv cell" and "completes drv" and "i < sectors_of (length img)"
    and "target + sectors_of (length img) * SECTOR_SIZE \<le> FLASH_SIZE"
    and "[] \<notin> set (pieces r)" and "concat (pieces r) = drop (i * SECTOR_SIZE) img"
    and "first_sector \<longrightarrow> i = 0 \<and> validate_firmware_image (take 8 img)"
    and "\<forall>j. target + i * SECTOR_SIZE \<le> j \<and> j < target + (i + 1) * SECTOR_SIZE \<longrightarrow> cell f j = 0xFF"
  obtains f1 r1 where
    "raw_sectors drv target (length img) (i # is) first_sector r f = raw_sectors drv target (length img) is False r1 f1"
    "outside cell (target + i * SECTOR_SIZE) (target + (i + 1) * SECTOR_SIZE) f f1"
    "\<forall>j. i * SECTOR_SIZE \<le> j \<and> j < (i + 1) * SECTOR_SIZE \<and> j < length img \<longrightarrow> cell f1 (target + j) = img ! j"
    "[] \<notin> set (pieces r1)" "concat (pieces r1) = drop ((i + 1) * SECTOR_SIZE) img"
proof -
  let ?a = "i * SECTOR_SIZE" and ?n = "length img"
  let ?k = "data_length ?n i"
  have lt: "?a < ?n" using assms(3) by (simp add: sectors_of_def SECTOR_SIZE_def)
  have k: "?a + ?k = min ((i + 1) * SECTOR_SIZE) ?n" using lt by (simp add: data_length_def min_def)
  then have "?a + ?k \<le> ?n" by simp
  from fill_image [OF assms(5,6) this] obtain r1 where
    r1: "fill ?k r = Ok (take ?k (drop ?a img), r1)" "[] \<notin> set (pieces r1)" "concat (pieces r1) = drop (?a + ?k) img"
    by blast
  define chunk where "chunk = take ?k (drop ?a img)"
  have l: "length chunk = ?k" using k by (simp add: chunk_def)
  have ks: "?k \<le> SECTOR_SIZE" by (rule data_length_le)
  have "?k = min ((i + 1) * SECTOR_SIZE) ?n - ?a" by (simp add: data_length_def)
  note pass = first_sector_passes [OF assms(7) this, folded chunk_def]
  define bs where "bs = sector_pages chunk"
  have "length chunk \<le> SECTOR_SIZE" using l ks by simp
  note bl = sector_pages_bytes [OF this, folded bs_def]
  have "(i + 1) * SECTOR_SIZE \<le> sectors_of ?n * SECTOR_SIZE" using assms(3) by (intro mult_le_mono1) simp
  then have top: "target + ?a + SECTOR_SIZE \<le> FLASH_SIZE" using assms(4) by simp
  obtain f1 written where w: "blocking_write drv (target + ?a) bs f = (f1, written)" by fastforce
  have "target + ?a + length bs \<le> FLASH_SIZE" using top bl(1) by simp
  then have "snd (blocking_write drv (target + ?a) bs f)" using assms(2) unfolding completes_def by blast
  then have written by (simp add: w)
  have "raw_sectors drv target ?n (i # is) first_sector r f = raw_sectors drv target ?n is False r1 f1"
    unfolding raw_sector_step [OF r1(1) [folded chunk_def]] sector_pages_def [symmetric] bs_def [symmetric] w if_not_P [OF pass(1)] if_not_P [OF pass(2)]
    using \<open>written\<close> by simp
  moreover have "outside cell (target + ?a) (target + (i + 1) * SECTOR_SIZE) f f1"
    by (rule outside_weaken [OF nor_write(1) [OF assms(1) w]]) (use bl(1) in simp_all)
  moreover have "\<forall>j. ?a \<le> j \<and> j < (i + 1) * SECTOR_SIZE \<and> j < ?n \<longrightarrow> cell f1 (target + j) = img ! j"
  proof (intro allI impI)
    fix j
    assume j: "?a \<le> j \<and> j < (i + 1) * SECTOR_SIZE \<and> j < ?n"
    then have "j < ?a + ?k" unfolding k by simp
    with j l have jk: "j - ?a < length chunk" by linarith
    have "\<forall>j < length bs. cell f (target + ?a + j) = 0xFF" using assms(8) bl(1) by simp
    then have "cell f1 (target + ?a + (j - ?a)) = bs ! (j - ?a)"
      using nor_write(2) [OF assms(1) w \<open>written\<close>] jk bl(2) by simp
    then show "cell f1 (target + j) = img ! j" using j jk l bl(3) [OF jk] by (simp add: chunk_def)
  qed
  moreover have "concat (pieces r1) = drop ((i + 1) * SECTOR_SIZE) img"
    using r1(3) k by (cases "(i + 1) * SECTOR_SIZE \<le> ?n") (simp_all add: min_def)
  ultimately show ?thesis using that r1(2) by blast
qed

lemma raw_sectors_written:
  assumes "nor_flash drv cell" and "completes drv"
    and "target + sectors_of (length img) * SECTOR_SIZE \<le> FLASH_SIZE" and "i \<le> sectors_of (length img)"
    and "[] \<notin> set (pieces r)" and "concat (pieces r) = drop (i * SECTOR_SIZE) img"
    and "first_sector \<longrightarrow> i = 0 \<and> validate_firmware_image (take 8 img)"
    and "\<forall>j. target + i * SECTOR_SIZE \<le> j \<and> j < target + sectors_of (length img) * SECTOR_SIZE \<longrightarrow> cell f j = 0xFF"
  shows "\<exists>f'. raw_sectors drv target (length img) [i..<sectors_of (length img)] first_sector r f = (f', None)
    \<and> outside cell (target + i * SECTOR_SIZE) (target + sectors_of (length img) * SECTOR_SIZE) f f'
    \<and> (\<forall>j. i * SECTOR_SIZE \<le> j \<and> j < length img \<longrightarrow> cell f' (target + j) = img ! j)"
  using assms(4-8)
proof (induction "sectors_of (length img) - i" arbitrary: i r f first_sector)
  case 0
  have "length img \<le> sectors_of (length img) * SECTOR_SIZE" by (simp add: sectors_of_def SECTOR_SIZE_def)
  moreover have "i = sectors_of (length img)" using 0 by simp
  ultimately have "\<not> (i * SECTOR_SIZE \<le> j \<and> j < length img)" "[i..<sectors_of (length img)] = []" for j by simp_all
  then show ?case by (simp only: raw_sectors.simps(1) outside_refl prod.inject simp_thms ex_simps)
next
  case (Suc d)
  let ?m = "sectors_of (length img)"
  have i: "i < ?m" using Suc.hyps(2) by simp
  then have le: "(i + 1) * SECTOR_SIZE \<le> ?m * SECTOR_SIZE" by (intro mult_le_mono1) simp
  have "\<forall>j. target + i * SECTOR_SIZE \<le> j \<and> j < target + (i + 1) * SECTOR_SIZE \<longrightarrow> cell f j = 0xFF"
    using Suc.prems(5) le by simp
  then obtain f1 r1 where
    s: "raw_sectors drv target (length img) (i # [i + 1..<?m]) first_sector r f = raw_sectors drv target (length img) [i + 1..<?m] False r1 f1"
    and o: "outside cell (target + i * SECTOR_SIZE) (target + (i + 1) * SECTOR_SIZE) f f1"
    and b: "\<forall>j. i * SECTOR_SIZE \<le> j \<and> j < (i + 1) * SECTOR_SIZE \<and> j < length img \<longrightarrow> cell f1 (target + j) = img ! j"
    and r1: "[] \<notin> set (pieces r1)" "concat (pieces r1) = drop ((i + 1) * SECTOR_SIZE) img"
    by (rule raw_sector_written [OF assms(1,2) i assms(3) Suc.prems(2,3,4)])
  have ff: "\<forall>j. target + (i + 1) * SECTOR_SIZE \<le> j \<and> j < target + ?m * SECTOR_SIZE \<longrightarrow> cell f1 j = 0xFF"
  proof (intro allI impI)
    fix j
    assume j: "target + (i + 1) * SECTOR_SIZE \<le> j \<and> j < target + ?m * SECTOR_SIZE"
    then have "target + i * SECTOR_SIZE \<le> j" by (simp add: add_mult_distrib)
    with j Suc.prems(5) have "cell f j = 0xFF" by blast
    then show "cell f1 j = 0xFF" using o j unfolding outside_def by metis
  qed
  have "d = ?m - (i + 1)" "i + 1 \<le> ?m" using Suc.hyps(2) i by simp_all
  from Suc.hyps(1) [OF this r1 _ ff, of False] obtain f' where
    f': "raw_sectors drv target (length img) [i + 1..<?m] False r1 f1 = (f', None)"
      "outside cell (target + (i + 1) * SECTOR_SIZE) (target + ?m * SECTOR_SIZE) f1 f'"
      "\<forall>j. (i + 1) * SECTOR_SIZE \<le> j \<and> j < length img \<longrightarrow> cell f' (target + j) = img ! j"
    by blast
  have "raw_sectors drv target (length img) [i..<?m] first_sector r f = (f', None)"
    using s f'(1) by (simp only: upt_conv_Cons [OF i] Suc_eq_plus1)
  moreover have "outside cell (target + i * SECTOR_SIZE) (target + ?m * SECTOR_SIZE) f f'"
    by (rule outside_trans [OF outside_weaken [OF o] outside_weaken [OF f'(2)]]) (use le in simp_all)
  moreover have "cell f' (target + j) = img ! j" if j: "i * SECTOR_SIZE \<le> j" "j < length img" for j
  proof (cases "j < (i + 1) * SECTOR_SIZE")
    case True
    with b j f'(2) show ?thesis by (simp add: outside_def)
  next
    case False
    with f'(3) j show ?thesis by simp
  qed
  ultimately show ?case by blast
qed


section \<open>At concrete inputs\<close>

definition demo_image :: bytes where
  "demo_image = [0, 0, 1, 0x20, 1, 1, 0, 0x10]"

definition demo_upload :: reader where
  "demo_upload = \<lparr>pieces = [take 3 demo_image, drop 3 demo_image], breaks = False\<rparr>"

lemma demo_image_facts:
  "length demo_image = 8" "validate_firmware_image (take 8 demo_image)" "concat (pieces demo_upload) = demo_image"
  "[] \<notin> set (pieces demo_upload)"
  by code_simp+

lemma demo_slot: "ota_target_slot 0 = SLOT_B_OFFSET"
  by (simp add: ota_target_slot_def XIP_BASE_def flash_layout)


theorem ota_protects_identity_witness:
  "\<exists>f' err. handle_firmware_stream ideal_flash 0 demo_upload 8 (Some (\<lambda>_. 7)) = (Some f', err) \<and> f' IDENTITY_OFFSET = 7"
proof -
  have "\<not> 8 > slot_size (ota_target_slot 0)" "\<not> 8 > MAX_FIRMWARE_SIZE"
    by (simp_all add: demo_slot slot_size_def flash_layout MAX_FIRMWARE_SIZE_def)
  note u = upload_checked [OF this]
  obtain f1 where e: "blocking_erase ideal_flash (ota_target_slot 0) (ota_target_slot 0 + sectors_of 8 * SECTOR_SIZE) (\<lambda>_. 7) = (f1, True)"
    by (simp add: demo_slot ideal_flash_def sectors_of_def flash_layout)
  obtain f' err where "raw_sectors ideal_flash (ota_target_slot 0) 8 [0..<sectors_of 8] True demo_upload f1 = (f', err)" by fastforce
  then have h: "handle_firmware_stream ideal_flash 0 demo_upload 8 (Some (\<lambda>_. 7)) = (Some f', err)" by (simp add: u [OF e])
  have "PROTECTED_OFFSET + SECTOR_SIZE \<le> IDENTITY_OFFSET" by (simp add: flash_layout)
  from ota_protects_identity [OF ideal_nor h this] h show ?thesis by blast
qed

section \<open>An UF2 file can reach the running slot\<close>

text \<open>One block for the first address of slot B, with a payload of one byte.\<close>

definition demo_uf2 :: bytes where
  "demo_uf2 = [0x55, 0x46, 0x32, 0x0A, 0x57, 0x51, 0x5D, 0x9E, 0, 0, 0, 0, 0, 0, 0x10, 0x10, 1, 0, 0, 0, 0, 0, 0, 0,
     1, 0, 0, 0, 0, 0, 0, 0, 0xAB] @ replicate 475 0 @ [0x30, 0x6F, 0xB1, 0x0A]"

lemma demo_uf2_facts:
  "length demo_uf2 = 512" "is_uf2 demo_uf2" "parse_uf2_block demo_uf2 = Ok (0x10100000, [0xAB], 0, 1)"
  by code_simp+

text \<open>
  C40: the check of an UF2 block knows the configuration region only. With the code running from
  slot B an UF2 file of one block, addressed to the second megabyte, is accepted and programs the first byte of
  slot B, although the target is slot A.
\<close>

theorem uf2_reaches_running_slot:
  "ota_target_slot (XIP_BASE + of_nat SLOT_B_OFFSET) = SLOT_A_OFFSET
   \<and> (\<exists>f'. handle_firmware_stream ideal_flash (XIP_BASE + of_nat SLOT_B_OFFSET) \<lparr>pieces = [demo_uf2], breaks = False\<rparr> 512
        (Some (\<lambda>_. 7)) = (Some f', None) \<and> f' SLOT_B_OFFSET = 0xAB)"
proof -
  define pc where "pc = XIP_BASE + of_nat SLOT_B_OFFSET"
  let ?r = "\<lparr>pieces = [demo_uf2], breaks = False\<rparr>"
  have t: "ota_target_slot pc = SLOT_A_OFFSET" by (simp add: ota_target_slot_def pc_def)
  have l: "\<not> 512 > slot_size (ota_target_slot pc)" "\<not> 512 > MAX_FIRMWARE_SIZE"
    by (simp_all add: t slot_size_def flash_layout MAX_FIRMWARE_SIZE_def)
  obtain f1 where e: "blocking_erase ideal_flash (ota_target_slot pc) (ota_target_slot pc + sectors_of 512 * SECTOR_SIZE) (\<lambda>_. 7) = (f1, True)"
    by (simp add: t ideal_flash_def sectors_of_def flash_layout)
  have d: "data_length 512 0 = 512" by (simp add: data_length_def SECTOR_SIZE_def)
  have rd: "read_some 512 ?r = (Got demo_uf2, \<lparr>pieces = [], breaks = False\<rparr>)"
    by (simp add: read_some_def demo_uf2_facts(1))
  have "fill 512 ?r = Ok (demo_uf2, \<lparr>pieces = [], breaks = False\<rparr>)"
    by (subst fill.simps) (simp add: rd demo_uf2_facts(1) fill_simps(1), simp add: demo_uf2_def)
  then have fl: "fill (data_length 512 0) ?r = Ok (demo_uf2, \<lparr>pieces = [], breaks = False\<rparr>)" by (simp only: d)
  have u: "is_uf2 (sector_buffer demo_uf2)"
    using demo_uf2_facts(1,2) by (simp add: is_uf2_def sector_buffer_def le32_at_append)
  have m: "sectors_of 512 = 1" by (simp add: sectors_of_def SECTOR_SIZE_def)
  obtain f2 where e2: "uf2_erase ideal_flash (0x100000 div SECTOR_SIZE) (- 1) f1 = (f2, True)" "f2 SLOT_B_OFFSET = 0xFF"
    by (simp add: uf2_erase_def ideal_flash_def flash_layout)
  obtain f3 where w: "blocking_write ideal_flash 0x100000 [0xAB] f2 = (f3, True)" "f3 SLOT_B_OFFSET = 0xAB"
    using e2(2) by (simp add: ideal_flash_def flash_layout byte_and_ff)
  have "uf2_block_write ideal_flash SLOT_A_OFFSET demo_uf2 (- 1, f1) = ((max (- 1) (int (0x100000 div SECTOR_SIZE)), f3), None)"
    by (subst uf2_block_accepted [OF demo_uf2_facts(3) _ _ _ e2(1) w(1)]) (simp_all add: XIP_BASE_def flash_layout)
  then have "handle_uf2_stream ideal_flash 512 demo_uf2 SLOT_A_OFFSET \<lparr>pieces = [], breaks = False\<rparr> f1 = (f3, None)"
    by (simp add: handle_uf2_stream_def demo_uf2_facts(1) UF2_BLOCK_SIZE_def uf2_loop_done
      uf2_loop_block [unfolded UF2_BLOCK_SIZE_def])
  then have "raw_sectors ideal_flash SLOT_A_OFFSET 512 [0..<1] True ?r f1 = (f3, None)"
    using u by (simp add: raw_sector_step [OF fl] del: raw_sectors.simps)
  then have "handle_firmware_stream ideal_flash pc ?r 512 (Some (\<lambda>_. 7)) = (Some f3, None)"
    by (simp add: upload_checked [OF l e] t m)
  with t w(2) show ?thesis unfolding pc_def by blast
qed

end
