(* ===== verification/Boot.thy ===== *)
theory Boot
  imports Config_Store Ota_Props
begin

text \<open>
  The start of the device, \<open>firmware/src/main.rs\<close>: the configuration, the MAC address and the addresses of the network
  stack, from the flash and the random number generator. Clocks, pins, the Ethernet chip and the spawning of the
  tasks are outside the model. The second part follows the identity of the device over restarts.
\<close>

section \<open>Start\<close>

definition fresh_mac :: "64 word \<Rightarrow> bytes" where
  "fresh_mac seed = [0x02, ucast (drop_bit 8 seed), ucast (drop_bit 16 seed), ucast (drop_bit 24 seed),
     ucast (drop_bit 32 seed), ucast (drop_bit 40 seed)]"

definition choose_mac :: "'f flash_driver \<Rightarrow> 64 word \<Rightarrow> 'f \<Rightarrow> bytes \<times> 'f" where
  "choose_mac drv seed f =
     (case load_mac drv f of
        Some mac \<Rightarrow> if drop 1 mac \<noteq> [0, 0, 0, 0, 0] then (mac, f) else (fresh_mac seed, save_mac drv (fresh_mac seed) f)
      | None \<Rightarrow> (fresh_mac seed, save_mac drv (fresh_mac seed) f))"

text \<open>\<open>{:02x}\<close> of a byte.\<close>

definition hex_digit :: "u8 \<Rightarrow> u8" where
  "hex_digit n = (if n < 10 then 48 + n else 87 + n)"

definition hex02 :: "u8 \<Rightarrow> bytes" where
  "hex02 b = [hex_digit (drop_bit 4 b), hex_digit (b AND 0x0F)]"

definition unique_hostname :: "bytes \<Rightarrow> BridgeConfig \<Rightarrow> BridgeConfig" where
  "unique_hostname mac c =
     (if hostname c = str ''bacnet-bridge''
      then c\<lparr>hostname := push_until 32 [] [str ''bacnet-bridge-'', hex02 (mac ! 3), hex02 (mac ! 4), hex02 (mac ! 5)]\<rparr>
      else c)"

text \<open>The two words the mDNS task and the status page read the MAC address from.\<close>

definition mac_addr_hi :: "bytes \<Rightarrow> u32" where
  "mac_addr_hi mac = push_bit 8 (ucast (mac ! 0)) OR ucast (mac ! 1)"

definition mac_addr_lo :: "bytes \<Rightarrow> u32" where
  "mac_addr_lo mac = push_bit 24 (ucast (mac ! 2)) OR push_bit 16 (ucast (mac ! 3)) OR push_bit 8 (ucast (mac ! 4)) OR ucast (mac ! 5)"

definition packed_ip :: "bytes \<Rightarrow> u32" where
  "packed_ip oct = push_bit 24 (ucast (oct ! 0)) OR push_bit 16 (ucast (oct ! 1)) OR push_bit 8 (ucast (oct ! 2)) OR ucast (oct ! 3)"

fun leading_ones :: "nat \<Rightarrow> u32 \<Rightarrow> nat" where
  "leading_ones 0 w = 0"
| "leading_ones (Suc n) w = (if bit w n then Suc (leading_ones n w) else 0)"

definition subnet_mask_to_prefix :: "bytes \<Rightarrow> u8" where
  "subnet_mask_to_prefix m = of_nat (leading_ones 32 (packed_ip m))"

datatype NetConfig = Dhcpv4 | StaticV4 bytes u8 bytes

definition net_config :: "NetworkConfig \<Rightarrow> NetConfig" where
  "net_config n = (if dhcp n then Dhcpv4 else StaticV4 (ip n) (subnet_mask_to_prefix (subnet n)) (gateway n))"

record started =
  st_config :: BridgeConfig
  st_mac :: bytes
  st_net :: NetConfig
  st_mstp :: "u32 \<times> u8 \<times> u8"

definition startup :: "'f flash_driver \<Rightarrow> (bytes \<Rightarrow> BridgeConfig option) \<Rightarrow> 64 word \<Rightarrow> 'f \<Rightarrow> started \<times> 'f" where
  "startup drv from_json seed f =
     (let bridge_config = load_config drv from_json f;
          (mac, f) = choose_mac drv seed f;
          bridge_config = unique_hostname mac bridge_config in
      (\<lparr>st_config = bridge_config, st_mac = mac, st_net = net_config (network bridge_config),
        st_mstp = (mstp_baud (bacnet bridge_config), mstp_mac (bacnet bridge_config), max_master (bacnet bridge_config))\<rparr>, f))"

text \<open>The arguments of the bootrom's \<open>reboot\<close>: into the slot just written, and a plain restart.\<close>

definition ota_reboot_into_new_slot :: "u32 \<Rightarrow> u32 \<times> u32 \<times> u32 \<times> u32" where
  "ota_reboot_into_new_slot pc = (0x104, 500, XIP_BASE + of_nat (ota_target_slot pc), 0)"

definition system_reset :: "u32 \<times> u32 \<times> u32 \<times> u32" where
  "system_reset = (0x104, 500, 0, 0)"

section \<open>Addresses\<close>

lemma of_be32_packed: "packed_ip [a, b, c, d] = of_be32 a b c d"
  by (simp add: packed_ip_def of_be32_def)

text \<open>The prefix of a mask that is a prefix, and the MAC address read back from its two words.\<close>

lemma leading_ones_le: "leading_ones n w \<le> n"
  by (induction n) auto

lemma leading_ones_bits: "i < leading_ones n w \<Longrightarrow> bit w (n - 1 - i)"
proof (induction n arbitrary: i)
  case (Suc n)
  show ?case
  proof (cases i)
    case 0
    with Suc.prems show ?thesis by (simp split: if_splits)
  next
    case (Suc j)
    with Suc.prems Suc.IH [of j] show ?thesis by (simp split: if_splits)
  qed
qed simp

lemma mac_words:
  "[ucast (drop_bit 8 (mac_addr_hi [a, b, c, d, e, g])), ucast (mac_addr_hi [a, b, c, d, e, g]),
    ucast (drop_bit 24 (mac_addr_lo [a, b, c, d, e, g])), ucast (drop_bit 16 (mac_addr_lo [a, b, c, d, e, g])),
    ucast (drop_bit 8 (mac_addr_lo [a, b, c, d, e, g])), ucast (mac_addr_lo [a, b, c, d, e, g])] = [a, b, c, d, e, g]"
  by (simp add: mac_addr_hi_def mac_addr_lo_def, intro conjI; rule bit_word_eqI)
    (auto simp: bit_simps dest: bit_imp_le_length)

section \<open>The identity over restarts\<close>

text \<open>What happens to the flash between two starts: uploads, whether they succeed or not, and saves.\<close>

datatype flash_use = Upload u32 reader nat | Save BridgeConfig | SaveTask "BridgeConfig option list"

fun use_flash :: "'f flash_driver \<Rightarrow> printer \<Rightarrow> flash_use \<Rightarrow> 'f \<Rightarrow> 'f" where
  "use_flash drv to_slice (Upload pc r n) f = (case fst (handle_firmware_stream drv pc r n (Some f)) of Some f' \<Rightarrow> f' | None \<Rightarrow> f)"
| "use_flash drv to_slice (Save c) f = save_config drv to_slice c f"
| "use_flash drv to_slice (SaveTask cs) f = snd (save_task drv to_slice cs f)"

definition identity_works :: "'f flash_driver \<Rightarrow> bool" where
  "identity_works drv \<longleftrightarrow>
     (\<forall>f. snd (blocking_erase drv IDENTITY_OFFSET (IDENTITY_OFFSET + SECTOR_SIZE) f))
     \<and> (\<forall>bs f. length bs = 256 \<longrightarrow> snd (blocking_write drv IDENTITY_OFFSET bs f))
     \<and> (\<forall>f. blocking_read drv IDENTITY_OFFSET 16 f \<noteq> None)"

lemma write_config_below:
  assumes "nor_flash drv cell"
  shows "outside cell 0 IDENTITY_OFFSET f (write_config drv buf n f)"
proof -
  let ?bs = "take (min (page_aligned n) JSON_BUF_SIZE) buf"
  obtain f1 ok where e: "blocking_erase drv CONFIG_OFFSET (CONFIG_OFFSET + CONFIG_SIZE) f = (f1, ok)" by fastforce
  obtain f2 w where w: "blocking_write drv CONFIG_OFFSET ?bs f1 = (f2, w)" by fastforce
  have l: "CONFIG_OFFSET + CONFIG_SIZE \<le> IDENTITY_OFFSET" "CONFIG_OFFSET + JSON_BUF_SIZE \<le> IDENTITY_OFFSET"
    by (simp_all add: flash_layout JSON_BUF_SIZE_def)
  then have b: "CONFIG_OFFSET + length ?bs \<le> IDENTITY_OFFSET" by simp
  have o: "outside cell 0 IDENTITY_OFFSET f f1" by (rule outside_weaken [OF nor_erase(1) [OF assms e] _ l(1)]) simp
  moreover have "outside cell 0 IDENTITY_OFFSET f1 f2" by (rule outside_weaken [OF nor_write(1) [OF assms w] _ b]) simp
  ultimately have "outside cell 0 IDENTITY_OFFSET f f2" by (rule outside_trans)
  with o show ?thesis by (simp add: write_config_def e w)
qed

lemma save_round_below:
  assumes "nor_flash drv cell"
  shows "outside cell 0 IDENTITY_OFFSET f (snd (save_round drv to_slice c (buf, f)))"
  using write_config_below [OF assms] by (auto simp: save_round_def split: option.split prod.split)

lemma save_task_below:
  assumes "nor_flash drv cell"
  shows "outside cell 0 IDENTITY_OFFSET f (snd (fold (save_round drv to_slice) cs (buf, f)))"
proof (induction cs arbitrary: buf f)
  case (Cons c cs)
  obtain b f1 where r: "save_round drv to_slice c (buf, f) = (b, f1)" by fastforce
  have "outside cell 0 IDENTITY_OFFSET f f1" using save_round_below [OF assms, of f to_slice c buf] by (simp add: r)
  from outside_trans [OF this Cons.IH [of f1 b]] show ?case by (simp add: r)
qed simp

lemma upload_below:
  assumes "nor_flash drv cell"
  shows "outside cell 0 IDENTITY_OFFSET f (use_flash drv to_slice (Upload pc r n) f)"
proof (cases "fst (handle_firmware_stream drv pc r n (Some f))")
  case (Some f')
  then have "handle_firmware_stream drv pc r n (Some f) = (Some f', snd (handle_firmware_stream drv pc r n (Some f)))"
    by (cases "handle_firmware_stream drv pc r n (Some f)") simp
  from upload_keeps_tail [OF assms this] have "outside cell 0 IDENTITY_OFFSET f f'"
    unfolding keeps_tail_def by (rule outside_weaken) (simp_all add: flash_layout)
  with Some show ?thesis by simp
qed simp

lemma use_flash_below:
  assumes "nor_flash drv cell"
  shows "outside cell 0 IDENTITY_OFFSET f (use_flash drv to_slice u f)"
proof (cases u)
  case (Upload pc r n)
  then show ?thesis using upload_below [OF assms] by blast
next
  case (Save c)
  then show ?thesis using write_config_below [OF assms] by (simp add: save_config_def split: prod.split option.split)
next
  case (SaveTask cs)
  then show ?thesis using save_task_below [OF assms] by (simp add: save_task_def)
qed

lemma uses_below: "nor_flash drv cell \<Longrightarrow> outside cell 0 IDENTITY_OFFSET f (fold (use_flash drv to_slice) us f)"
  by (induction us arbitrary: f) (auto intro: outside_trans use_flash_below)

lemma identity_read: "identity_works drv \<Longrightarrow> \<exists>b. blocking_read drv IDENTITY_OFFSET 16 f = Some b"
  unfolding identity_works_def by simp

lemma startup_fields:
  "st_mac (fst (startup drv from_json seed f)) = fst (choose_mac drv seed f)"
  "snd (startup drv from_json seed f) = snd (choose_mac drv seed f)"
  by (simp_all add: startup_def Let_def split_beta)

lemma load_mac_same:
  assumes "nor_flash drv cell" and "identity_works drv" and "outside cell 0 IDENTITY_OFFSET f f'"
  shows "load_mac drv f' = load_mac drv f"
proof -
  obtain b where b: "blocking_read drv IDENTITY_OFFSET 16 f = Some b" using identity_read [OF assms(2)] by blast
  obtain b' where b': "blocking_read drv IDENTITY_OFFSET 16 f' = Some b'" using identity_read [OF assms(2)] by blast
  have "b' = b"
    using assms(3) unfolding nor_read [OF assms(1) b] nor_read [OF assms(1) b'] by (simp add: outside_def)
  with b b' show ?thesis by (simp add: load_mac_def)
qed

lemma chosen_mac_stored:
  assumes "nor_flash drv cell" and "identity_works drv" and "drop 1 (fresh_mac seed) \<noteq> [0, 0, 0, 0, 0]"
    and "choose_mac drv seed f = (mac, f1)"
  shows "load_mac drv f1 = Some mac \<and> drop 1 mac \<noteq> [0, 0, 0, 0, 0]"
proof -
  have "hd (fresh_mac seed) \<noteq> hd (replicate 6 0)" by (simp add: fresh_mac_def)
  then have "fresh_mac seed \<noteq> replicate 6 0" by metis
  then have new: "load_mac drv (save_mac drv (fresh_mac seed) f) = Some (fresh_mac seed)"
    using assms(2) by (intro mac_saved [OF assms(1)]) (simp_all add: identity_works_def, simp add: fresh_mac_def)
  consider m where "load_mac drv f = Some m" "drop 1 m \<noteq> [0, 0, 0, 0, 0]" "(mac, f1) = (m, f)"
    | "(mac, f1) = (fresh_mac seed, save_mac drv (fresh_mac seed) f)"
    using assms(4) by (auto simp: choose_mac_def split: option.splits if_splits)
  then show ?thesis by cases (use new assms(3) in auto)
qed

text \<open>
  C9: when the random bytes of the first start are not all zero and the identity sector works, the MAC address
  chosen at the first start is the one of every later start, after any uploads of firmware, complete or not, and
  any saves of the configuration; no later start writes the flash.
\<close>

theorem identity_survives:
  assumes "nor_flash drv cell" and "identity_works drv" and "drop 1 (fresh_mac seed) \<noteq> [0, 0, 0, 0, 0]"
    and "startup drv from_json seed f = (first, f1)"
    and "startup drv from_json' seed' (fold (use_flash drv to_slice) us f1) = (later, f2)"
  shows "st_mac later = st_mac first \<and> f2 = fold (use_flash drv to_slice) us f1"
proof -
  obtain mac g where c: "choose_mac drv seed f = (mac, g)" by fastforce
  then have m: "st_mac first = mac" "f1 = g"
    using startup_fields [of drv from_json seed f] by (simp_all add: assms(4))
  let ?f = "fold (use_flash drv to_slice) us f1"
  have "load_mac drv ?f = Some mac \<and> drop 1 mac \<noteq> [0, 0, 0, 0, 0]"
    using chosen_mac_stored [OF assms(1-3) c] load_mac_same [OF assms(1,2) uses_below [OF assms(1)]] m(2) by metis
  then have "choose_mac drv seed' ?f = (mac, ?f)" by (simp add: choose_mac_def)
  then show ?thesis using startup_fields [of drv from_json' seed' ?f] unfolding assms(5) m(1) by simp
qed

lemma ideal_identity: "identity_works ideal_flash"
proof -
  have "IDENTITY_OFFSET + SECTOR_SIZE \<le> FLASH_SIZE" "IDENTITY_OFFSET + 256 \<le> FLASH_SIZE" "IDENTITY_OFFSET + 16 \<le> FLASH_SIZE"
    by (simp_all add: flash_layout)
  then show ?thesis by (simp add: identity_works_def ideal_flash_def)
qed

theorem identity_survives_witness:
  "\<exists>s1 f1 s2 f2. startup ideal_flash (\<lambda>_. None) 0x010203040506 (\<lambda>_. 0xFF) = (s1, f1)
    \<and> startup ideal_flash (\<lambda>_. None) 77 (use_flash ideal_flash demo_to_slice (Upload 0 demo_upload 8) f1) = (s2, f2)
    \<and> st_mac s2 = [2, 5, 4, 3, 2, 1]"
proof -
  obtain s1 f1 where s1: "startup ideal_flash (\<lambda>_. None) 0x010203040506 (\<lambda>_. 0xFF) = (s1, f1)" by fastforce
  obtain s2 f2 where s2: "startup ideal_flash (\<lambda>_. None) 77 (fold (use_flash ideal_flash demo_to_slice) [Upload 0 demo_upload 8] f1) = (s2, f2)"
    by fastforce
  have m: "fresh_mac 0x010203040506 = [2, 5, 4, 3, 2, 1]" by code_simp
  have "load_mac ideal_flash (\<lambda>_. 0xFF) = None"
  proof -
    have "IDENTITY_OFFSET + 16 \<le> FLASH_SIZE" by (simp add: flash_layout)
    then have "blocking_read ideal_flash IDENTITY_OFFSET 16 (\<lambda>_. 0xFF) = Some (map (\<lambda>_. 0xFF) [IDENTITY_OFFSET..<IDENTITY_OFFSET + 16])"
      by (simp add: ideal_flash_def)
    moreover have "map (\<lambda>_. 0xFF :: u8) [IDENTITY_OFFSET..<IDENTITY_OFFSET + 16] = 0xFF # replicate 15 0xFF"
      by (simp add: map_replicate_const numeral_eq_Suc)
    ultimately show ?thesis by (simp add: load_mac_def IDENTITY_MAGIC_def)
  qed
  then have "st_mac s1 = [2, 5, 4, 3, 2, 1]" using startup_fields(1) [of ideal_flash "\<lambda>_. None" "0x010203040506" "\<lambda>_. 0xFF"] m
    by (simp add: s1 choose_mac_def)
  moreover have "drop 1 (fresh_mac 0x010203040506) \<noteq> [0, 0, 0, 0, 0]" by (simp add: m)
  ultimately show ?thesis
    using identity_survives [OF ideal_nor ideal_identity _ s1 s2] s1 s2 by auto
qed

end
