(* ===== verification/Sse.thy ===== *)
theory Sse
  imports Http_Text Mqtt_Task_Props
begin

text \<open>
  The event stream of \<open>firmware/src/http.rs\<close>, \<open>BridgeSseSource\<close>: once a second it writes an event for every changed
  point and marks it clean, or a keepalive.

  The lock on the bridge state is given up while an event is written. What the other tasks do to the state in
  that time is a parameter, \<open>meanwhile\<close>, and so is which writes the connection accepts.
\<close>

section \<open>The source\<close>

datatype sse_write = PointEvent bytes | Keepalive

record sse_env =
  accepts :: "nat \<Rightarrow> bool"
  meanwhile :: "nat \<Rightarrow> BridgeStateInner \<Rightarrow> BridgeStateInner"

type_synonym sse_state = "BridgeStateInner \<times> sse_write list"

definition event_text :: "u32 \<Rightarrow> PointEntry \<Rightarrow> bytes" where
  "event_text device p =
     json ''{^deviceId^:'' @ dec_digits (unat device) @ json '',^objType^:'' @ dec_digits (unat (object_type_code (object_type (pe_object_id p))))
     @ json '',^instance^:'' @ dec_digits (unat (instance_no (pe_object_id p))) @ json '',^value^:''
     @ format_point_value (pe_present_value p) [] @ str ''}''"

definition write_event :: "sse_env \<Rightarrow> sse_write \<Rightarrow> sse_state \<Rightarrow> sse_state \<times> bool" where
  "write_event env e = (\<lambda>(s, es).
     if accepts env (length es) then ((meanwhile env (length es) s, es @ [e]), True) else ((s, es), False))"

definition sse_point :: "sse_env \<Rightarrow> u32 \<Rightarrow> nat \<Rightarrow> nat \<Rightarrow> sse_state \<Rightarrow> sse_state \<times> bool" where
  "sse_point env device dev i = (\<lambda>(s, es).
     case bs_points s ! dev ! i of
       None \<Rightarrow> ((s, es), True)
     | Some p \<Rightarrow>
         if \<not> pe_dirty p then ((s, es), True)
         else write_event env (PointEvent (event_text device p)) (set_point s dev i (Some (p\<lparr>pe_dirty := False\<rparr>)), es))"

fun sse_points_of :: "sse_env \<Rightarrow> u32 \<Rightarrow> nat \<Rightarrow> nat list \<Rightarrow> sse_state \<Rightarrow> sse_state \<times> bool" where
  "sse_points_of env device dev [] st = (st, True)"
| "sse_points_of env device dev (i # is) st =
     (let (st', ok) = sse_point env device dev i st in if ok then sse_points_of env device dev is st' else (st', False))"

fun sse_devices :: "sse_env \<Rightarrow> nat list \<Rightarrow> sse_state \<Rightarrow> sse_state \<times> bool" where
  "sse_devices env [] st = (st, True)"
| "sse_devices env (dev # devs) st =
     (let device = de_device_id (devices (fst st) ! dev);
          count = point_counts (fst st) ! dev;
          (st', ok) = sse_points_of env device dev [0..<count] st in
      if ok then sse_devices env devs st' else (st', False))"

text \<open>One round of the loop, and \<open>n\<close> rounds; a refused write ends the stream.\<close>

definition sse_round :: "sse_env \<Rightarrow> sse_state \<Rightarrow> sse_state \<times> bool" where
  "sse_round env st =
     (let (st', ok) = sse_devices env [0..<device_count (fst st)] st in
      if \<not> ok then (st', False)
      else if snd st' = snd st then write_event env Keepalive st'
      else (st', True))"

fun write_events :: "sse_env \<Rightarrow> nat \<Rightarrow> sse_state \<Rightarrow> sse_state" where
  "write_events env 0 st = st"
| "write_events env (Suc n) st = (let (st', ok) = sse_round env st in if ok then write_events env n st' else st')"

section \<open>An undisturbed round\<close>

definition quiet :: "sse_env \<Rightarrow> bool" where
  "quiet env \<longleftrightarrow> (\<forall>n. accepts env n) \<and> (\<forall>n s. meanwhile env n s = s)"

lemma write_event_quiet: "quiet env \<Longrightarrow> write_event env e (s, es) = ((s, es @ [e]), True)"
  by (simp add: write_event_def quiet_def)

definition point_events :: "u32 \<Rightarrow> PointEntry list \<Rightarrow> sse_write list" where
  "point_events device ps = map (\<lambda>p. PointEvent (event_text device p)) ps"

lemma sse_point_eq:
  assumes "quiet env"
  shows "sse_point env device dev i (s, es) = ((clean_at dev i s, es @ point_events device (dirty_at s dev i)), True)"
proof (cases "bs_points s ! dev ! i")
  case None
  then show ?thesis using clean_at_id [of s dev i] by (simp add: sse_point_def dirty_at_def point_events_def)
next
  case (Some p)
  show ?thesis
  proof (cases "pe_dirty p")
    case True
    with Some show ?thesis
      using write_event_quiet [OF assms] by (simp add: sse_point_def dirty_at_def clean_at_def clean_point_def point_events_def)
  next
    case False
    then have "clean_point p = p" by (simp add: clean_point_def)
    with False Some show ?thesis
      using clean_at_id [of s dev i] by (simp add: sse_point_def dirty_at_def point_events_def)
  qed
qed

lemma sse_points_of_eq:
  assumes "quiet env" and "tables_ok s" and "dev < MAX_DEVICES" and "\<forall>i \<in> set is. i < MAX_POINTS_PER_DEVICE" and "distinct is"
  shows "sse_points_of env device dev is (s, es) = ((clean_row dev is s, es @ point_events device (dirty_of s dev is)), True)"
  using assms(2-)
proof (induction "is" arbitrary: s es)
  case Nil
  then show ?case by (simp add: clean_row_def dirty_of_def point_events_def)
next
  case (Cons i "is")
  let ?s = "clean_at dev i s"
  have d: "dirty_of ?s dev is = dirty_of s dev is"
    unfolding dirty_of_def
    using dirty_at_clean [OF Cons.prems(1,2,2), of _ "[i]"] Cons.prems(3,4)
    by (intro arg_cong [of _ _ concat] map_cong) (auto simp: clean_row_def)
  have "sse_points_of env device dev is (?s, es @ point_events device (dirty_at s dev i)) =
      ((clean_row dev is ?s, (es @ point_events device (dirty_at s dev i)) @ point_events device (dirty_of ?s dev is)), True)"
    using Cons.prems clean_at_ok [OF Cons.prems(1,2)] by (intro Cons.IH) simp_all
  with d show ?case
    by (simp add: sse_point_eq [OF assms(1)] clean_row_def dirty_of_def point_events_def)
qed

definition row_events :: "BridgeStateInner \<Rightarrow> nat \<Rightarrow> sse_write list" where
  "row_events s dev = point_events (de_device_id (devices s ! dev)) (dirty_of s dev [0..<point_counts s ! dev])"

lemma sse_devices_eq:
  assumes "quiet env" and "tables_ok s" and "\<forall>dev \<in> set devs. dev < MAX_DEVICES" and "distinct devs"
  shows "sse_devices env devs (s, es) = ((clean_devices devs s, es @ concat (map (row_events s) devs)), True)"
  using assms(2-)
proof (induction devs arbitrary: s es)
  case Nil
  then show ?case by (simp add: clean_devices_def)
next
  case (Cons dev devs)
  let ?is = "[0..<point_counts s ! dev]"
  let ?s = "clean_row dev ?is s"
  have dev: "dev < MAX_DEVICES" using Cons.prems(2) by simp
  have r: "\<forall>i \<in> set [0..<point_counts s ! d]. i < MAX_POINTS_PER_DEVICE" if "d < MAX_DEVICES" for d
    using Cons.prems(1) that by (auto simp: tables_ok_def)
  have p: "sse_points_of env (de_device_id (devices s ! dev)) dev ?is (s, es) = ((?s, es @ row_events s dev), True)"
    using sse_points_of_eq [OF assms(1) Cons.prems(1) dev r [OF dev]] by (simp add: row_events_def)
  have "row_events ?s d = row_events s d" if "d \<in> set devs" for d
  proof -
    have "d < MAX_DEVICES" "d \<noteq> dev" using that Cons.prems(2,3) by auto
    then have "dirty_of ?s d [0..<point_counts s ! d] = dirty_of s d [0..<point_counts s ! d]"
      unfolding dirty_of_def using dirty_at_clean [OF Cons.prems(1) _ dev] r
      by (intro arg_cong [of _ _ concat] map_cong) auto
    then show ?thesis by (simp add: row_events_def)
  qed
  then have d: "map (row_events ?s) devs = map (row_events s) devs" by simp
  have "sse_devices env devs (?s, es @ row_events s dev) =
      ((clean_devices devs ?s, (es @ row_events s dev) @ concat (map (row_events ?s) devs)), True)"
    using Cons.prems clean_row_ok [OF Cons.prems(1) dev] by (intro Cons.IH) simp_all
  with p show ?case unfolding d by (simp add: clean_devices_def Let_def)
qed

lemma clean_row_id:
  "(\<And>i. i \<in> set is \<Longrightarrow> map_option clean_point (bs_points s ! dev ! i) = bs_points s ! dev ! i) \<Longrightarrow> clean_row dev is s = s"
  unfolding clean_row_def by (induction "is") (simp_all add: clean_at_id)

lemma clean_devices_id:
  assumes "\<And>dev i. dev \<in> set devs \<Longrightarrow> i < point_counts s ! dev \<Longrightarrow>
      map_option clean_point (bs_points s ! dev ! i) = bs_points s ! dev ! i"
  shows "clean_devices devs s = s"
  unfolding clean_devices_def
  using assms
proof (induction devs)
  case (Cons dev devs)
  have "clean_row dev [0..<point_counts s ! dev] s = s" by (rule clean_row_id) (use Cons.prems in simp)
  with Cons show ?case by simp
qed simp

lemma clean_devices_tables: "tables_ok s \<Longrightarrow> \<forall>dev \<in> set devs. dev < MAX_DEVICES \<Longrightarrow> tables_ok (clean_devices devs s)"
  unfolding clean_devices_def by (induction devs arbitrary: s) (simp_all add: clean_row_ok)

lemma dirty_at_none:
  assumes "map_option clean_point (bs_points s ! dev ! i) = bs_points s ! dev ! i"
  shows "dirty_at s dev i = []"
proof (cases "bs_points s ! dev ! i")
  case (Some p)
  with assms have "pe_dirty (clean_point p) = pe_dirty p" by simp
  with Some show ?thesis by (simp add: dirty_at_def clean_point_def)
qed (simp add: dirty_at_def)

text \<open>
  C23: the event stream and the MQTT client share the dirty flag of a point. When the other tasks do not touch
  the tables, one round of the stream writes exactly one event for each changed point, in table order with the
  identifier of its device and its current value, or one keepalive; after it the MQTT client has nothing to
  publish, so its broker never learns these values.
\<close>

theorem sse_hides_from_mqtt:
  assumes "state_ok s" and "quiet env"
  shows "\<exists>s'. sse_round env (s, es) =
      ((s', es @ (if changed s = [] then [Keepalive] else concat (map (row_events s) [0..<device_count s]))), True)
    \<and> map (\<lambda>dev. length (row_events s dev)) [0..<device_count s] =
      map (\<lambda>dev. length (filter pe_dirty (entries s dev))) [0..<device_count s]
    \<and> publish_dirty_points (s', c) = ((s', c), True)"
proof -
  let ?devs = "[0..<device_count s]"
  let ?s = "clean_devices ?devs s"
  have t: "tables_ok s" by (rule state_tables_ok [OF assms(1)])
  have m: "\<forall>dev \<in> set ?devs. dev < MAX_DEVICES" using t by (auto simp: tables_ok_def)
  have ev: "row_events s dev = point_events (de_device_id (devices s ! dev)) (filter pe_dirty (entries s dev))" if "dev < device_count s" for dev
    using assms(1) that unfolding row_events_def by (subst dirty_of_filter) (auto simp: state_ok_def)
  then have none: "concat (map (row_events s) ?devs) = [] \<longleftrightarrow> changed s = []"
    by (auto simp: changed_def point_events_def)
  have "sse_devices env ?devs (s, es) = ((?s, es @ concat (map (row_events s) ?devs)), True)"
    by (rule sse_devices_eq [OF assms(2) t m]) simp
  then have r: "sse_round env (s, es) =
      ((?s, es @ (if changed s = [] then [Keepalive] else concat (map (row_events s) ?devs))), True)"
    using none by (simp add: sse_round_def write_event_quiet [OF assms(2)])
  have id: "map_option clean_point (bs_points ?s ! dev ! i) = bs_points ?s ! dev ! i"
    if "dev \<in> set ?devs" "i < point_counts ?s ! dev" for dev i
  proof -
    have "dev < MAX_DEVICES" using that(1) m by blast
    moreover from this have "point_counts s ! dev \<le> MAX_POINTS_PER_DEVICE" using t by (simp add: tables_ok_def)
    ultimately have "dev < MAX_DEVICES" "i < MAX_POINTS_PER_DEVICE" using that(2) by simp_all
    with clean_devices_nth [OF t m this] that show ?thesis by (simp add: clean_clean)
  qed
  have z: "dirty_points ?s ?devs = []" using id by (auto simp: dirty_points_def dirty_of_def dirty_at_none)
  have "publish_devices ?devs (?s, c) = ((clean_devices ?devs ?s, sent_more (messages (dirty_points ?s ?devs)) c), True)"
    using z by (intro publish_devices_eq [OF clean_devices_tables [OF t m] m]) simp_all
  moreover have "clean_devices ?devs ?s = ?s" by (rule clean_devices_id) (rule id)
  ultimately have "publish_dirty_points (?s, c) = ((?s, c), True)"
    using z by (simp add: publish_dirty_points_def messages_def)
  moreover have "map (\<lambda>dev. length (row_events s dev)) ?devs = map (\<lambda>dev. length (filter pe_dirty (entries s dev))) ?devs"
    using ev by (simp add: point_events_def)
  ultimately show ?thesis using r by blast
qed

definition quiet_env :: sse_env where
  "quiet_env = \<lparr>accepts = (\<lambda>_. True), meanwhile = (\<lambda>_ s. s)\<rparr>"

theorem sse_hides_from_mqtt_witness:
  "\<exists>s' e. sse_round quiet_env (one_point, []) = ((s', [e]), True)
    \<and> publish_dirty_points (s', \<lparr>written_packets = [], writes_left = 1\<rparr>) = ((s', \<lparr>written_packets = [], writes_left = 1\<rparr>), True)
    \<and> changed one_point \<noteq> []"
proof -
  have q: "quiet quiet_env" by (simp add: quiet_def quiet_env_def)
  have d: "device_count one_point = 1" by (simp add: one_point_def)
  have "changed one_point \<noteq> []" "length (filter pe_dirty (entries one_point 0)) = 1"
    using one_point_changed by (simp_all add: changed_def d fresh_point_def)
  with sse_hides_from_mqtt [OF one_point_ok q, of "[]" "\<lparr>written_packets = [], writes_left = 1\<rparr>"] show ?thesis
    by (auto simp: d length_Suc_conv)
qed

end
