(* ===== verification/Ota_Manifest.thy ===== *)
theory Ota_Manifest
  imports Ota "HOL-Library.Product_Lexorder"
begin

text \<open>
  The update manifest and versions of \<open>bridge-core/src/ota.rs\<close>: the parser panics on no bytes and
  returns fields within their capacities, and versions are compared as triples of numbers.
\<close>

section \<open>The manifest parser\<close>

lemma post_of_option [simp]: "post P (ok_or e v) \<longleftrightarrow> pred_option P v"
  by (cases v) simp_all

lemma post_require: "post (\<lambda>v. pred_option P v) m \<Longrightarrow> post P (require m)"
  unfolding require_def by (rule post_then) simp_all

lemma find_bytes_bound: "pred_option (\<lambda>p. p + length needle \<le> length d) (find_bytes d needle)"
  using str_find_Some [of needle d] by (auto simp: find_bytes_def pred_option_def split: option.splits elim: option.set_cases)

lemma position_bound: "pred_option (\<lambda>p. p < length d) (position P d)"
  by (induction d) (auto simp: option.pred_map comp_def intro: option.pred_mono_strong)

text \<open>A search from a position inside the data does not panic, and what it finds lies inside.\<close>

lemma find_after_inside:
  assumes "start \<le> length d"
  shows "post (\<lambda>p. p < length d) (require (find_after d start b))"
proof (rule post_require)
  have "pred_option (\<lambda>p. start + p < length d) (position (\<lambda>x. x = b) (drop start d))"
    by (rule option.pred_mono_strong [OF position_bound]) simp
  with assms show "post (pred_option (\<lambda>p. p < length d)) (find_after d start b)"
    by (simp add: find_after_def option.pred_map comp_def)
qed

lemma extract_string_inside: "post (\<lambda>s. True) (extract_string_field obj key)"
  unfolding extract_string_field_def Let_def
  by (intro post_if post_simps post_then [where Q = "\<lambda>p. p + length (34 # key @ [34]) \<le> length obj"]
      post_then [where Q = "\<lambda>p. p < length obj"] find_after_inside)
    (use find_bytes_bound [of "34 # key @ [34]" obj] in simp_all)

lemma extract_number_inside: "post (\<lambda>s. True) (extract_number_field obj key)"
  unfolding extract_number_field_def Let_def
  by (intro post_if post_simps post_then [where Q = "\<lambda>p. p + length (34 # key @ [34]) \<le> length obj"]
      post_then [where Q = "\<lambda>p. p < length obj"] find_after_inside)
    (use find_bytes_bound [of "34 # key @ [34]" obj] in \<open>simp_all split: prod.split\<close>)

lemma push_bytes_fits: "length s \<le> cap \<Longrightarrow> post (\<lambda>v. length v \<le> cap) (push_bytes cap s bs)"
  by (induction bs arbitrary: s) (auto simp: push_str_def)

lemma hex_bytes_half: "post (\<lambda>v. length v = length hex div 2) (hex_bytes hex)"
proof (induction hex rule: hex_bytes.induct)
  case (1 a b r)
  have "post (\<lambda>_. True) (hex_nibble c)" for c by (simp add: hex_nibble_def)
  then have ab: "hex_nibble a \<noteq> Panic" "hex_nibble b \<noteq> Panic" unfolding post_def by blast+
  show ?case
  proof (cases "hex_nibble a"; cases "hex_nibble b")
    fix x y
    assume n: "hex_nibble a = Ok x" "hex_nibble b = Ok y"
    have "post (\<lambda>v. length v = Suc (length r div 2)) (and_then (hex_bytes r) (\<lambda>bs. Ok ((push_bit 4 x OR y) # bs)))"
      by (rule post_then [OF 1 [OF n]]) simp
    with n show ?thesis by simp
  qed (use ab in simp_all)
qed simp_all

lemma sha256_inside: "post (\<lambda>v. length v = 32) (parse_sha256_hex hex)"
  using hex_bytes_half [of hex] by (cases "length hex = 64") (simp_all add: parse_sha256_hex_def)

lemma find_bytes_post: "post (\<lambda>p. p + length needle \<le> length d) (ok_or e (find_bytes d needle))"
  by (simp only: post_of_option find_bytes_bound)

lemma quoted_key_inside: "post (\<lambda>k. True) (build_quoted_key key)"
  by (simp add: build_quoted_key_def)

lemma closing_brace_inside: "post (\<lambda>k. True) (ok_or e (find_closing_brace d i))"
  by (cases "find_closing_brace d i") simp_all

definition entry_fits :: "ManifestEntry \<Rightarrow> bool" where
  "entry_fits e \<longleftrightarrow> length (mf_version e) \<le> 32 \<and> length (mf_url e) \<le> 128 \<and> length (mf_sha256 e) = 32"


section \<open>Versions\<close>

lemma is_newer_iff: "is_newer_version current available \<longleftrightarrow> parse_semver current < parse_semver available"
  by (cases "parse_semver current"; cases "parse_semver available") (auto simp: is_newer_version_def)

text \<open>The text of a version, with a suffix or without.\<close>

definition version_text :: "nat \<times> nat \<times> nat \<Rightarrow> bytes \<Rightarrow> bytes" where
  "version_text = (\<lambda>(a, b, c) suffix.
     join 46 [dec_digits a, dec_digits b, dec_digits c] @ (if suffix = [] then [] else 45 # suffix))"

lemma digits_no_sep: "c \<in> {45, 46} \<Longrightarrow> c \<notin> set (dec_digits n)"
  using dec_digits_all [of n] by (auto simp: is_digit_def)

lemma parse_version_text:
  assumes "a < 2 ^ 32" and "b < 2 ^ 32" and "c < 2 ^ 32"
  shows "parse_semver (version_text (a, b, c) suffix) = (a, b, c)"
proof -
  let ?base = "join 46 [dec_digits a, dec_digits b, dec_digits c]"
  have "45 \<notin> set ?base" using digits_no_sep [of 45] by simp
  then have "split_on 45 (version_text (a, b, c) suffix) ! 0 = ?base"
    by (simp add: version_text_def split_on_part split_on_append del: join.simps)
  moreover have "split_on 46 ?base = [dec_digits a, dec_digits b, dec_digits c]"
    using digits_no_sep [of 46] by (intro split_on_join) simp_all
  ultimately show ?thesis
    using assms by (simp add: parse_semver_def part_number_def parse_uint_dec_digits del: join.simps)
qed

text \<open>
  For versions written as three numbers of 32 bits, with any suffixes, the available one counts as newer
  exactly when its triple is larger in the lexicographic order; suffixes play no part.
\<close>

theorem version_order:
  assumes "a1 < 2 ^ 32" and "a2 < 2 ^ 32" and "a3 < 2 ^ 32" and "b1 < 2 ^ 32" and "b2 < 2 ^ 32" and "b3 < 2 ^ 32"
  shows "is_newer_version (version_text (a1, a2, a3) s) (version_text (b1, b2, b3) t) \<longleftrightarrow> (a1, a2, a3) < (b1, b2, b3)"
  using assms by (simp only: is_newer_iff parse_version_text)

theorem version_order_witness:
  "is_newer_version (version_text (0, 1, 99) []) (version_text (0, 2, 0) (str ''rc1''))
   \<and> \<not> is_newer_version (version_text (1, 0, 0) []) (version_text (0, 9, 9) [])"
  using version_order [of 0 1 99 0 2 0 "[]" "str ''rc1''"] version_order [of 1 0 0 0 9 9 "[]" "[]"] by simp

end
