(* ===== verification/Sntp.thy ===== *)
theory Sntp
  imports Rust_Str
begin

text \<open>
  The clock: the SNTP packets of \<open>bridge-core/src/ntp.rs\<close>, the resolver of \<open>firmware/src/dns.rs\<close> and the synchronisation
  of \<open>firmware/src/ntp.rs\<close>.

  The network is a parameter: what the DNS client and the UDP socket of embassy-net report at the n-th attempt, a
  timeout included. A round of the task returns the requests it sent and the new clock.
\<close>

section \<open>Packets\<close>

definition SNTP_PACKET_LEN :: nat where "SNTP_PACKET_LEN = 48"
definition NTP_PORT :: u16 where "NTP_PORT = 123"
definition NTP_UNIX_OFFSET :: u32 where "NTP_UNIX_OFFSET = 2208988800"

record NtpTimestamp =
  seconds :: u32
  fraction :: u32

record NtpPacket =
  li_vn_mode :: u8
  stratum :: u8
  poll :: u8
  precision :: int
  root_delay :: u32
  root_dispersion :: u32
  ref_id :: u32
  ref_ts :: NtpTimestamp
  origin_ts :: NtpTimestamp
  recv_ts :: NtpTimestamp
  transmit_ts :: NtpTimestamp

definition encode_request :: "bytes \<Rightarrow> bytes \<times> nat" where
  "encode_request buf =
     (if length buf < SNTP_PACKET_LEN then (buf, 0)
      else ((replicate SNTP_PACKET_LEN 0 @ drop SNTP_PACKET_LEN buf)[0 := 0x23], SNTP_PACKET_LEN))"

definition read_u32 :: "bytes \<Rightarrow> nat \<Rightarrow> u32" where
  "read_u32 d offset = push_bit 24 (ucast (d ! offset)) OR push_bit 16 (ucast (d ! (offset + 1)))
     OR push_bit 8 (ucast (d ! (offset + 2))) OR ucast (d ! (offset + 3))"

definition read_ntp_timestamp :: "bytes \<Rightarrow> nat \<Rightarrow> NtpTimestamp" where
  "read_ntp_timestamp d offset = \<lparr>seconds = read_u32 d offset, fraction = read_u32 d (offset + 4)\<rparr>"

definition decode_response :: "bytes \<Rightarrow> (DecodeError, NtpTimestamp) result" where
  "decode_response d =
     (if length d < SNTP_PACKET_LEN then Err UnexpectedEnd
      else
        let version = drop_bit 3 (d ! 0) AND 0x07 in
        if version \<noteq> 3 \<and> version \<noteq> 4 then Err InvalidVersion
        else
          let stratum = d ! 1 in
          if stratum = 0 then Err InvalidData
          else Ok (read_ntp_timestamp d 40))"

definition decode_packet :: "bytes \<Rightarrow> (DecodeError, NtpPacket) result" where
  "decode_packet d =
     (if length d < SNTP_PACKET_LEN then Err UnexpectedEnd
      else Ok \<lparr>li_vn_mode = d ! 0, stratum = d ! 1, poll = d ! 2, precision = sint (d ! 3),
        root_delay = read_u32 d 4, root_dispersion = read_u32 d 8, ref_id = read_u32 d 12,
        ref_ts = read_ntp_timestamp d 16, origin_ts = read_ntp_timestamp d 24, recv_ts = read_ntp_timestamp d 32,
        transmit_ts = read_ntp_timestamp d 40\<rparr>)"

definition ntp_to_unix_epoch :: "u32 \<Rightarrow> u32 option" where
  "ntp_to_unix_epoch ntp_secs = (if ntp_secs < NTP_UNIX_OFFSET then None else Some (ntp_secs - NTP_UNIX_OFFSET))"

section \<open>The resolver\<close>

datatype ip_address = Ipv4 "u8 list" | OtherAddress
datatype dns_outcome = Addresses "ip_address list" | QueryFailed | QueryTimeout

definition DNS_MAX_ATTEMPTS :: nat where "DNS_MAX_ATTEMPTS = 3"

fun first_ipv4 :: "ip_address list \<Rightarrow> u8 list option" where
  "first_ipv4 [] = None"
| "first_ipv4 (Ipv4 octets # as) = Some octets"
| "first_ipv4 (OtherAddress # as) = first_ipv4 as"

fun resolve_attempts :: "dns_outcome list \<Rightarrow> u8 list option" where
  "resolve_attempts [] = None"
| "resolve_attempts (x # xs) =
     (case x of
        Addresses addrs \<Rightarrow> (case first_ipv4 addrs of Some octets \<Rightarrow> Some octets | None \<Rightarrow> resolve_attempts xs)
      | QueryFailed \<Rightarrow> resolve_attempts xs
      | QueryTimeout \<Rightarrow> resolve_attempts xs)"

definition resolve :: "(nat \<Rightarrow> dns_outcome) \<Rightarrow> u8 list option" where
  "resolve dns_query = resolve_attempts (map dns_query [0..<DNS_MAX_ATTEMPTS])"

section \<open>Synchronisation\<close>

datatype ntp_outcome = SendFailed | Received bytes | ReceiveError | NoReply

definition NTP_FALLBACK_IP :: "u8 list" where "NTP_FALLBACK_IP = [162, 159, 200, 1]"
definition MAX_ATTEMPTS :: nat where "MAX_ATTEMPTS = 3"

definition reply_time :: "ntp_outcome \<Rightarrow> u32 option" where
  "reply_time x =
     (case x of
        Received d \<Rightarrow> (case decode_response d of Ok ts \<Rightarrow> ntp_to_unix_epoch (seconds ts) | _ \<Rightarrow> None)
      | _ \<Rightarrow> None)"

text \<open>The attempts left: the requests that went out, and the time.\<close>

fun sync_attempts :: "bytes \<Rightarrow> ntp_outcome list \<Rightarrow> bytes list \<times> u32 option" where
  "sync_attempts req [] = ([], None)"
| "sync_attempts req (x # xs) =
     (if x = SendFailed then sync_attempts req xs
      else case reply_time x of
        Some unix \<Rightarrow> ([req], Some unix)
      | None \<Rightarrow> (let (sent, t) = sync_attempts req xs in (req # sent, t)))"

definition sync_once :: "(nat \<Rightarrow> dns_outcome) \<Rightarrow> bool \<Rightarrow> (u8 list \<Rightarrow> nat \<Rightarrow> ntp_outcome) \<Rightarrow> (u8 list \<times> u16 \<times> bytes) list \<times> u32 option" where
  "sync_once dns_query bound net =
     (let server_ip = (case resolve dns_query of Some octets \<Rightarrow> octets | None \<Rightarrow> NTP_FALLBACK_IP) in
      if \<not> bound then ([], None)
      else
        let (req_buf, req_len) = encode_request (replicate 48 0);
            (sent, t) = sync_attempts (take req_len req_buf) (map (net server_ip) [0..<MAX_ATTEMPTS]) in
        (map (\<lambda>p. (server_ip, NTP_PORT, p)) sent, t))"

record clock =
  UNIX_EPOCH_SECS :: u32
  NTP_SYNCED :: bool

definition clock_init :: clock where
  "clock_init = \<lparr>UNIX_EPOCH_SECS = 0, NTP_SYNCED = False\<rparr>"

definition unix_now :: "clock \<Rightarrow> u32 option" where
  "unix_now c = (let v = UNIX_EPOCH_SECS c in if v = 0 then None else Some v)"

definition is_synced :: "clock \<Rightarrow> bool" where
  "is_synced c = NTP_SYNCED c"

text \<open>One round of the loop of \<open>ntp_task\<close>, up to its sleep of an hour.\<close>

definition ntp_round :: "u32 option \<Rightarrow> clock \<Rightarrow> clock" where
  "ntp_round t c = (case t of Some unix_secs \<Rightarrow> c\<lparr>UNIX_EPOCH_SECS := unix_secs, NTP_SYNCED := True\<rparr> | None \<Rightarrow> c)"

section \<open>What a round does\<close>

text \<open>A reply as a server writes it: the header up to the transmit timestamp, the timestamp, and any extensions.\<close>

lemma read_u32_be32:
  assumes "length h = k"
  shows "read_u32 (h @ be32 v @ r) k = v"
  using assms by (simp add: read_u32_def be32_def nth_append, simp add: of_be32_be32 [unfolded of_be32_def])

lemma decode_reply:
  assumes "length h = 40" and "drop_bit 3 (h ! 0) AND 0x07 = 3 \<or> drop_bit 3 (h ! 0) AND 0x07 = 4" and "h ! 1 \<noteq> 0"
  shows "decode_response (h @ be32 s @ be32 f @ r) = Ok \<lparr>seconds = s, fraction = f\<rparr>"
  using assms read_u32_be32 [OF assms(1), of s "be32 f @ r"] read_u32_be32 [of "h @ be32 s" 44 f r]
  by (auto simp: decode_response_def SNTP_PACKET_LEN_def read_ntp_timestamp_def nth_append Let_def)

lemma request_bytes: "take (snd (encode_request (replicate 48 0))) (fst (encode_request (replicate 48 0))) = 0x23 # replicate 47 0"
  by code_simp

lemma sync_attempts_result: "snd (sync_attempts req xs) = (case List.find (\<lambda>x. reply_time x \<noteq> None) xs of Some x \<Rightarrow> reply_time x | None \<Rightarrow> None)"
  by (induction xs) (auto simp: reply_time_def split: option.splits prod.splits)

lemma sync_attempts_sent: "set (fst (sync_attempts req xs)) \<subseteq> {req}" "length (fst (sync_attempts req xs)) \<le> length xs"
  by (induction xs) (auto split: option.splits prod.splits)

lemma find_upt_first:
  assumes "i < n" and "P (f i)" and "\<forall>j < i. \<not> P (f j)"
  shows "List.find P (map f [0..<n]) = Some (f i)"
proof -
  have "List.find P (map f [0..<n]) \<noteq> None" using assms(1,2) by (auto simp: find_None_iff)
  then obtain x where x: "List.find P (map f [0..<n]) = Some x" by blast
  then obtain k where k: "k < n" "P (f k)" "x = f k" "\<forall>j < k. \<not> P (f j)" by (auto simp: find_Some_iff)
  have "k = i" using k(2,4) assms(2,3) by (metis nat_neq_iff)
  with x k(3) show ?thesis by simp
qed

definition server :: "(nat \<Rightarrow> dns_outcome) \<Rightarrow> u8 list" where
  "server dns_query = (case resolve dns_query of Some octets \<Rightarrow> octets | None \<Rightarrow> NTP_FALLBACK_IP)"

lemma sync_once_result:
  "snd (sync_once dns_query True net) =
    (case List.find (\<lambda>x. reply_time x \<noteq> None) (map (net (server dns_query)) [0..<MAX_ATTEMPTS]) of Some x \<Rightarrow> reply_time x | None \<Rightarrow> None)"
  using sync_attempts_result by (simp add: sync_once_def server_def Let_def split_beta)

text \<open>
  When the i-th of the three attempts is the first one answered acceptably, by a server reply of version 3
  or 4 with a stratum other than 0, the clock is set to the transmit timestamp of that reply, counted from 1970, and
  the other tasks read it; every datagram sent is the 48-byte client request to port 123 of the server, and there
  are at most three.
\<close>

theorem ntp_sync_sets_clock:
  assumes "i < MAX_ATTEMPTS" and "net (server dns_query) i = Received (h @ be32 s @ be32 f @ r)"
    and "\<forall>j < i. reply_time (net (server dns_query) j) = None"
    and "length h = 40" and "drop_bit 3 (h ! 0) AND 0x07 = 3 \<or> drop_bit 3 (h ! 0) AND 0x07 = 4" and "h ! 1 \<noteq> 0"
    and "s > NTP_UNIX_OFFSET"
  shows "unix_now (ntp_round (snd (sync_once dns_query True net)) c) = Some (s - NTP_UNIX_OFFSET)
    \<and> is_synced (ntp_round (snd (sync_once dns_query True net)) c)
    \<and> set (fst (sync_once dns_query True net)) \<subseteq> {(server dns_query, NTP_PORT, 0x23 # replicate 47 0)}
    \<and> length (fst (sync_once dns_query True net)) \<le> MAX_ATTEMPTS"
proof -
  have t: "reply_time (net (server dns_query) i) = Some (s - NTP_UNIX_OFFSET)"
    using assms(7) by (auto simp: reply_time_def assms(2) decode_reply [OF assms(4-6)] ntp_to_unix_epoch_def)
  have "List.find (\<lambda>x. reply_time x \<noteq> None) (map (net (server dns_query)) [0..<MAX_ATTEMPTS]) = Some (net (server dns_query) i)"
    using assms(1,3) t by (intro find_upt_first) simp_all
  with t have r: "snd (sync_once dns_query True net) = Some (s - NTP_UNIX_OFFSET)" by (simp add: sync_once_result)
  have "s - NTP_UNIX_OFFSET \<noteq> 0" using assms(7) by auto
  with r have u: "unix_now (ntp_round (snd (sync_once dns_query True net)) c) = Some (s - NTP_UNIX_OFFSET)"
    "is_synced (ntp_round (snd (sync_once dns_query True net)) c)"
    by (simp_all add: ntp_round_def unix_now_def is_synced_def Let_def)
  have f: "fst (sync_once dns_query True net) = map (\<lambda>p. (server dns_query, NTP_PORT, p))
      (fst (sync_attempts (0x23 # replicate 47 0) (map (net (server dns_query)) [0..<MAX_ATTEMPTS])))"
    using request_bytes by (simp add: sync_once_def server_def Let_def split_beta)
  have "set (fst (sync_once dns_query True net)) \<subseteq> {(server dns_query, NTP_PORT, 0x23 # replicate 47 0)}"
    using sync_attempts_sent(1) unfolding f by fastforce
  moreover have "length (fst (sync_once dns_query True net)) \<le> MAX_ATTEMPTS"
    using sync_attempts_sent(2) [of _ "map (net (server dns_query)) [0..<MAX_ATTEMPTS]"] unfolding f by simp
  ultimately show ?thesis using u by blast
qed

text \<open>A lost first answer, and a second one from a server of stratum 2.\<close>

definition demo_net :: "u8 list \<Rightarrow> nat \<Rightarrow> ntp_outcome" where
  "demo_net ip i = (if i = 0 then NoReply else Received ((0x24 # 2 # replicate 38 0) @ be32 (NTP_UNIX_OFFSET + 5) @ be32 0 @ []))"

theorem ntp_sync_sets_clock_witness:
  "unix_now (ntp_round (snd (sync_once (\<lambda>_. QueryTimeout) True demo_net)) clock_init) = Some 5"
proof -
  have "drop_bit 3 (0x24 :: u8) AND 0x07 = 4" "NTP_UNIX_OFFSET + 5 > NTP_UNIX_OFFSET" by code_simp+
  then show ?thesis
    using ntp_sync_sets_clock [of 1 demo_net "\<lambda>_. QueryTimeout" "0x24 # 2 # replicate 38 0" "NTP_UNIX_OFFSET + 5" 0 "[]" clock_init]
    by (simp add: demo_net_def MAX_ATTEMPTS_def reply_time_def)
qed

end
