(* ===== verification/Syslog.thy ===== *)
theory Syslog
  imports Rust_Str
begin

text \<open>
  \<open>bridge-core/src/syslog.rs\<close> and \<open>firmware/src/syslog.rs\<close>: the RFC 5424 line, and sending it. The UDP socket is a
  parameter: whether it binds.
\<close>

section \<open>Codes\<close>

datatype SyslogSeverity = Emergency | Alert | Critical | Error | Warning | Notice | Info | Debug

datatype SyslogFacility =
    Kern | User | Mail | Daemon | Auth | Syslog | Lpr | News | Uucp | Cron | AuthPriv | Ftp | Ntp | LogAudit | LogAlert
  | Clock | Local0 | Local1 | Local2 | Local3 | Local4 | Local5 | Local6 | Local7

definition severity_code :: "SyslogSeverity \<Rightarrow> u8" where
  "severity_code s = (case s of Emergency \<Rightarrow> 0 | Alert \<Rightarrow> 1 | Critical \<Rightarrow> 2 | Error \<Rightarrow> 3 | Warning \<Rightarrow> 4 | Notice \<Rightarrow> 5 | Info \<Rightarrow> 6 | Debug \<Rightarrow> 7)"

definition facility_code :: "SyslogFacility \<Rightarrow> u8" where
  "facility_code f = (case f of
     Kern \<Rightarrow> 0 | User \<Rightarrow> 1 | Mail \<Rightarrow> 2 | Daemon \<Rightarrow> 3 | Auth \<Rightarrow> 4 | Syslog \<Rightarrow> 5 | Lpr \<Rightarrow> 6 | News \<Rightarrow> 7 | Uucp \<Rightarrow> 8 | Cron \<Rightarrow> 9
   | AuthPriv \<Rightarrow> 10 | Ftp \<Rightarrow> 11 | Ntp \<Rightarrow> 12 | LogAudit \<Rightarrow> 13 | LogAlert \<Rightarrow> 14 | Clock \<Rightarrow> 15 | Local0 \<Rightarrow> 16 | Local1 \<Rightarrow> 17
   | Local2 \<Rightarrow> 18 | Local3 \<Rightarrow> 19 | Local4 \<Rightarrow> 20 | Local5 \<Rightarrow> 21 | Local6 \<Rightarrow> 22 | Local7 \<Rightarrow> 23)"

definition syslog_pri :: "SyslogFacility \<Rightarrow> SyslogSeverity \<Rightarrow> u8" where
  "syslog_pri f s = facility_code f * 8 + severity_code s"

section \<open>The line\<close>

definition write_u8_decimal :: "nat \<Rightarrow> bytes \<Rightarrow> u8 \<Rightarrow> (EncodeError, bytes) result" where
  "write_u8_decimal n v b = ok_or BufferTooSmall (vec_push n v b)"

fun write_str :: "nat \<Rightarrow> bytes \<Rightarrow> bytes \<Rightarrow> (EncodeError, bytes) result" where
  "write_str n v [] = Ok v"
| "write_str n v (b # bs) = and_then (write_u8_decimal n v b) (\<lambda>v. write_str n v bs)"

definition write_decimal_u8 :: "nat \<Rightarrow> bytes \<Rightarrow> u8 \<Rightarrow> (EncodeError, bytes) result" where
  "write_decimal_u8 n v val =
     (if val \<ge> 100 then
        and_then (write_u8_decimal n v (48 + val div 100)) (\<lambda>v.
        and_then (write_u8_decimal n v (48 + (val div 10) mod 10)) (\<lambda>v.
          write_u8_decimal n v (48 + val mod 10)))
      else if val \<ge> 10 then
        and_then (write_u8_decimal n v (48 + val div 10)) (\<lambda>v. write_u8_decimal n v (48 + val mod 10))
      else write_u8_decimal n v (48 + val))"

text \<open>The buffer comes back with the result: it is only written once the header is known to fit.\<close>

definition syslog_header :: "SyslogFacility \<Rightarrow> SyslogSeverity \<Rightarrow> bytes \<Rightarrow> bytes \<Rightarrow> bytes option \<Rightarrow> (EncodeError, bytes) result" where
  "syslog_header facility severity hostname app_name timestamp =
     (let pri = facility_code facility * 8 + severity_code severity;
          ts = (case timestamp of Some t \<Rightarrow> t | None \<Rightarrow> str ''-'') in
      and_then (write_u8_decimal 512 [] 60) (\<lambda>hdr.
      and_then (write_decimal_u8 512 hdr pri) (\<lambda>hdr.
      and_then (write_u8_decimal 512 hdr 62) (\<lambda>hdr.
      and_then (write_u8_decimal 512 hdr 49) (\<lambda>hdr.
      and_then (write_u8_decimal 512 hdr 32) (\<lambda>hdr.
      and_then (write_str 512 hdr ts) (\<lambda>hdr.
      and_then (write_u8_decimal 512 hdr 32) (\<lambda>hdr.
      and_then (write_str 512 hdr hostname) (\<lambda>hdr.
      and_then (write_u8_decimal 512 hdr 32) (\<lambda>hdr.
      and_then (write_str 512 hdr app_name) (\<lambda>hdr.
      and_then (write_u8_decimal 512 hdr 32) (\<lambda>hdr.
        write_str 512 hdr (str ''- - - '')))))))))))))"

definition format_syslog ::
  "bytes \<Rightarrow> SyslogFacility \<Rightarrow> SyslogSeverity \<Rightarrow> bytes \<Rightarrow> bytes \<Rightarrow> bytes option \<Rightarrow> bytes \<Rightarrow> (EncodeError, bytes \<times> nat) result" where
  "format_syslog buf facility severity hostname app_name timestamp msg =
     and_then (syslog_header facility severity hostname app_name timestamp) (\<lambda>hdr.
       let hdr_len = length hdr in
       if length buf < hdr_len then Err BufferTooSmall
       else
         let buf = overwrite buf 0 hdr;
             remaining = length buf - hdr_len;
             msg_len = min (length msg) remaining;
             buf = overwrite buf hdr_len (take msg_len msg) in
         Ok (buf, hdr_len + msg_len))"

section \<open>Sending\<close>

definition set_target :: "bytes \<Rightarrow> u16 \<Rightarrow> (bytes \<times> u16) option \<Rightarrow> (bytes \<times> u16) option" where
  "set_target dest port target = Some (dest, port)"

definition clear_target :: "(bytes \<times> u16) option \<Rightarrow> (bytes \<times> u16) option" where
  "clear_target target = None"

definition send_log :: "(bytes \<times> u16) option \<Rightarrow> bytes option \<Rightarrow> bool \<Rightarrow> SyslogSeverity \<Rightarrow> bytes \<Rightarrow> (bytes \<times> u16 \<times> bytes) option" where
  "send_log target config_hostname bound severity msg =
     (case target of
        None \<Rightarrow> None
      | Some (dest_ip, dest_port) \<Rightarrow>
          let hostname = (case config_hostname of
                Some h \<Rightarrow> push_ignore 32 [] h
              | None \<Rightarrow> push_ignore 32 [] (str ''bacnet-bridge'')) in
          case format_syslog (replicate 512 0) Local0 severity hostname (str ''bacnet-bridge'') None msg of
            Ok (buf, n) \<Rightarrow> if \<not> bound then None else Some (dest_ip, dest_port, take n buf)
          | _ \<Rightarrow> None)"

definition info :: "(bytes \<times> u16) option \<Rightarrow> bytes option \<Rightarrow> bool \<Rightarrow> bytes \<Rightarrow> (bytes \<times> u16 \<times> bytes) option" where
  "info target h bound msg = send_log target h bound Info msg"

definition warning :: "(bytes \<times> u16) option \<Rightarrow> bytes option \<Rightarrow> bool \<Rightarrow> bytes \<Rightarrow> (bytes \<times> u16 \<times> bytes) option" where
  "warning target h bound msg = send_log target h bound Warning msg"

definition error :: "(bytes \<times> u16) option \<Rightarrow> bytes option \<Rightarrow> bool \<Rightarrow> bytes \<Rightarrow> (bytes \<times> u16 \<times> bytes) option" where
  "error target h bound msg = send_log target h bound Error msg"

definition debug :: "(bytes \<times> u16) option \<Rightarrow> bytes option \<Rightarrow> bool \<Rightarrow> bytes \<Rightarrow> (bytes \<times> u16 \<times> bytes) option" where
  "debug target h bound msg = send_log target h bound Debug msg"

section \<open>What a receiver reads\<close>

lemma write_byte_eq: "length v < n \<Longrightarrow> write_u8_decimal n v b = Ok (v @ [b])"
  "\<not> length v < n \<Longrightarrow> write_u8_decimal n v b = Err BufferTooSmall"
  by (simp_all add: write_u8_decimal_def vec_push_def)

lemma write_str_eq: "write_str n v s = (if s = [] \<or> length v + length s \<le> n then Ok (v @ s) else Err BufferTooSmall)"
proof (induction s arbitrary: v)
  case (Cons b s)
  show ?case by (cases "length v < n") (auto simp: write_byte_eq Cons.IH)
qed simp

lemma write_byte_str: "write_u8_decimal n v b = write_str n v [b]"
  by simp

lemma write_str_then: "and_then (write_str n v s) (\<lambda>v. write_str n v t) = write_str n v (s @ t)"
  by (auto simp: write_str_eq)

lemma dec_digits_byte:
  "dec_digits (unat (val :: u8)) =
    (if val \<ge> 100 then [48 + val div 100, 48 + (val div 10) mod 10, 48 + val mod 10]
     else if val \<ge> 10 then [48 + val div 10, 48 + val mod 10] else [48 + val])"
proof -
  let ?n = "unat val"
  have w: "of_nat (unat v) = v" for v :: u8 by simp
  have n: "?n < 256" using unsigned_less [of val, where ?'a = nat] by simp
  have c: "of_nat (?n div 100) = val div 100" "of_nat (?n div 10) = val div 10" "of_nat (?n mod 10) = val mod 10"
    "of_nat (?n div 10 mod 10) = val div 10 mod 10"
    using w [of "val div 100"] w [of "val div 10"] w [of "val mod 10"] w [of "val div 10 mod 10"] by (simp_all add: unat_div unat_mod)
  have g: "val \<ge> 100 \<longleftrightarrow> 100 \<le> ?n" "val \<ge> 10 \<longleftrightarrow> 10 \<le> ?n" by (simp_all add: word_le_nat_alt)
  consider "?n < 10" | "10 \<le> ?n" "?n < 100" | "100 \<le> ?n" by linarith
  then show ?thesis
  proof cases
    case 1
    with g show ?thesis by (simp add: dec_digits.simps [of ?n])
  next
    case 2
    then have "dec_digits ?n = [48 + of_nat (?n div 10), 48 + of_nat (?n mod 10)]"
      by (simp add: dec_digits.simps [of ?n] dec_digits.simps [of "?n div 10"])
    with 2 g show ?thesis by (simp only: c) simp
  next
    case 3
    then have "?n div 100 < 10" "\<not> ?n div 10 < 10" "\<not> ?n < 10" using n by linarith+
    then have "dec_digits ?n = [48 + of_nat (?n div 100), 48 + of_nat (?n div 10 mod 10), 48 + of_nat (?n mod 10)]"
      by (simp add: dec_digits.simps [of ?n] dec_digits.simps [of "?n div 10"] dec_digits.simps [of "?n div 100"] div_mult2_eq [symmetric])
    with 3 g show ?thesis by (simp only: c) simp
  qed
qed

lemma write_decimal_str: "write_decimal_u8 n v val = write_str n v (dec_digits (unat val))"
  by (simp add: write_decimal_u8_def dec_digits_byte)

definition pri_text :: "SyslogFacility \<Rightarrow> SyslogSeverity \<Rightarrow> bytes" where
  "pri_text f s = [60] @ dec_digits (unat (syslog_pri f s)) @ [62] @ [49]"

definition header_text :: "SyslogFacility \<Rightarrow> SyslogSeverity \<Rightarrow> bytes \<Rightarrow> bytes \<Rightarrow> bytes option \<Rightarrow> bytes" where
  "header_text f s hostname app_name timestamp =
     join 32 [pri_text f s, case timestamp of Some t \<Rightarrow> t | None \<Rightarrow> [45], hostname, app_name, [45], [45], [45]] @ [32]"

lemma syslog_header_eq:
  "syslog_header f s hostname app_name timestamp =
     (if length (header_text f s hostname app_name timestamp) \<le> 512
      then Ok (header_text f s hostname app_name timestamp) else Err BufferTooSmall)"
proof -
  have "str ''-'' = [45]" "str ''- - - '' = [45, 32, 45, 32, 45, 32]" by code_simp+
  then have "syslog_header f s hostname app_name timestamp = write_str 512 [] (header_text f s hostname app_name timestamp)"
    by (simp only: syslog_header_def Let_def write_byte_str write_decimal_str write_str_then and_then_assoc)
      (simp add: header_text_def pri_text_def syslog_pri_def del: write_str.simps(2))
  then show ?thesis by (simp add: write_str_eq)
qed

text \<open>
  A line whose parts hold no spaces splits at its spaces into the priority and version, the timestamp or
  a hyphen, the host, the application and three hyphens, and the rest is the message, cut to the buffer;
  formatting fails exactly when the header is longer than the buffer or 512 bytes.
\<close>

theorem syslog_line_read:
  assumes "\<forall>p \<in> {hostname, app_name, ts}. 32 \<notin> set p"
  shows "case format_syslog buf f s hostname app_name (Some ts) msg of
      Ok (buf', n) \<Rightarrow> \<exists>k. length buf' = length buf \<and> n \<le> length buf
        \<and> take n buf' = header_text f s hostname app_name (Some ts) @ take k msg
        \<and> (k = length msg \<or> n = length buf)
        \<and> take 7 (split_on 32 (take n buf')) = [pri_text f s, ts, hostname, app_name, [45], [45], [45]]
        \<and> join 32 (drop 7 (split_on 32 (take n buf'))) = take k msg
    | Err e \<Rightarrow> e = BufferTooSmall \<and> length (header_text f s hostname app_name (Some ts)) > min 512 (length buf)
    | Panic \<Rightarrow> False"
proof (cases "length (header_text f s hostname app_name (Some ts)) \<le> min 512 (length buf)")
  case True
  let ?h = "header_text f s hostname app_name (Some ts)"
  define k where "k = min (length msg) (length buf - length ?h)"
  define n where "n = length ?h + k"
  define b2 where "b2 = overwrite (overwrite buf 0 ?h) (length ?h) (take k msg)"
  have e: "format_syslog buf f s hostname app_name (Some ts) msg = Ok (b2, n)"
    using True by (simp add: format_syslog_def syslog_header_eq Let_def k_def n_def b2_def)
  have h: "length ?h + k \<le> length buf" using True unfolding k_def by linarith
  then have l: "length b2 = length buf" "n \<le> length buf" by (simp_all add: b2_def n_def)
  have t: "take n b2 = ?h @ take k msg" using True by (simp add: b2_def n_def k_def overwrite_def)
  let ?ps = "[pri_text f s, ts, hostname, app_name, [45], [45], [45]]"
  have "32 \<notin> set (pri_text f s)" using dec_digits_all [of "unat (syslog_pri f s)"] by (auto simp: pri_text_def is_digit_def)
  then have sp: "split_on 32 (take n b2) = ?ps @ split_on 32 (take k msg)"
    using assms unfolding t by (simp add: header_text_def split_on_append)
  have "take 7 (split_on 32 (take n b2)) = ?ps" "join 32 (drop 7 (split_on 32 (take n b2))) = take k msg"
    unfolding sp by simp_all
  moreover have "k = length msg \<or> n = length buf" using True by (auto simp: k_def n_def)
  ultimately show ?thesis unfolding e using l t by auto
next
  case False
  then show ?thesis by (auto simp: format_syslog_def syslog_header_eq Let_def)
qed

theorem syslog_line_read_witness:
  "case format_syslog (replicate 512 0) Local0 Info (str ''bridge'') (str ''app'') (Some (str ''now'')) (str ''hi'') of
      Ok (buf', n) \<Rightarrow> take 3 (split_on 32 (take n buf')) = [str ''<134>1'', str ''now'', str ''bridge'']
    | _ \<Rightarrow> False"
proof -
  have h: "\<forall>p \<in> {str ''bridge'', str ''app'', str ''now''}. 32 \<notin> set p" by code_simp
  have p: "pri_text Local0 Info = str ''<134>1''" by code_simp
  have l: "\<not> length (header_text Local0 Info (str ''bridge'') (str ''app'') (Some (str ''now''))) > 512" by code_simp
  show ?thesis
  proof (cases "format_syslog (replicate 512 0) Local0 Info (str ''bridge'') (str ''app'') (Some (str ''now'')) (str ''hi'')")
    case (Ok x)
    obtain b n where x: "x = (b, n)" by fastforce
    have "take 7 (split_on 32 (take n b)) = [pri_text Local0 Info, str ''now'', str ''bridge'', str ''app'', [45], [45], [45]]"
      using syslog_line_read [OF h, of "replicate 512 0" Local0 Info "str ''hi''"] by (auto simp: Ok x)
    then have "take 3 (take 7 (split_on 32 (take n b))) = [str ''<134>1'', str ''now'', str ''bridge'']" by (simp add: p)
    then show ?thesis by (simp add: Ok x)
  next
    case (Err e)
    with syslog_line_read [OF h, of "replicate 512 0" Local0 Info "str ''hi''"] l show ?thesis by simp
  next
    case Panic
    with syslog_line_read [OF h, of "replicate 512 0" Local0 Info "str ''hi''"] show ?thesis by simp
  qed
qed

end
