(* ===== verification/Spec2Isabelle.thy ===== *)
theory Spec2Isabelle
  imports Apdu_Total Npdu Bvlc Ipc_Spsc Convert Bridge Bip_Service Snmp_Agent Mdns_Task Mqtt_Task_Props Http_Props Config_Store Boot Sse Ota_Manifest Sntp Syslog Tls
begin

text \<open>
  A model of \<open>micro-bacnet-bridge\<close>: the firmware of a device with two cores that joins a BACnet MS/TP bus to
  Ethernet. Paths are relative to \<open>bridge-core/src\<close> (\<open>bc\<close>, the portable library) and \<open>firmware/src\<close> (\<open>fw\<close>, the
  tasks of core 0).

  \<^bold>\<open>The program and its parts.\<close> Core 1 runs the MS/TP state machine (C code, outside the model) and exchanges
  PDUs with core 0 over two rings in shared memory. On core 0 the router decodes each PDU, answers requests to
  the bridge device and keeps the tables of devices and points. Everything else reads or feeds these tables: the
  BACnet/IP task, the SNMP agent, the MQTT client, the event stream and the HTTP server. The configuration lives
  in flash, as do the two firmware slots and the identity sector with the MAC address.

  \<^bold>\<open>Conventions.\<close> A struct is a \<open>record\<close>, an enum a \<open>datatype\<close>, a machine integer a word of its width, \<open>usize\<close> a
  \<open>nat\<close> except where a sum can wrap: there the pointer width \<open>w\<close> is an argument (32 on the target, 64 on the
  host), and the release profile wraps. A function that can fail returns \<open>result\<close> with \<open>Ok\<close>, \<open>Err\<close>, or
  \<open>Panic\<close> where Rust indexes or slices out of range. A bounded string is its UTF-8 bytes, and a push that does not fit
  does what \<open>heapless\<close> does. State is passed explicitly; a handler runs with the locks it takes held.
  Definitions are executable and keep the names of the source; a field name that several structs share has a prefix.

  \<^bold>\<open>Theories, from the bottom.\<close>
    \<^item> \<^theory_text>\<open>Prelude\<close>, \<^theory_text>\<open>Codec\<close>, \<^theory_text>\<open>Rust_Str\<close>, \<^theory_text>\<open>F32\<close>: results, slices and big-endian words; the interfaces \<open>encoder\<close>
      and \<open>codec\<close> of a wire format; strings, digits and searching; IEEE 754 binary32 arithmetic.
    \<^item> \<^theory_text>\<open>Errors\<close>, \<^theory_text>\<open>Bacnet\<close>, \<^theory_text>\<open>Engineering_Units\<close>, \<^theory_text>\<open>Convert\<close>: \<open>bc/error.rs\<close> and \<open>bc/bacnet.rs\<close>.
    \<^item> \<^theory_text>\<open>Apdu_Tags\<close>, \<^theory_text>\<open>Apdu\<close> (definitions), \<^theory_text>\<open>Apdu_Wire\<close>, \<^theory_text>\<open>Apdu_Read\<close>, \<^theory_text>\<open>Apdu_Props\<close>, \<^theory_text>\<open>Apdu_Total\<close>:
      \<open>bc/apdu.rs\<close>. Each encoder writes a byte string given in closed form, the decoders read it back at any position;
      on arbitrary bytes the decoder returns when no position can wrap, and on the 32-bit target it need not.
    \<^item> \<^theory_text>\<open>Npdu\<close>, \<^theory_text>\<open>Bvlc\<close>: \<open>bc/npdu.rs\<close>, \<open>bc/bvlc.rs\<close>.
    \<^item> \<^theory_text>\<open>Ipc\<close>, \<^theory_text>\<open>Ipc_Spsc\<close>: \<open>bc/ipc.rs\<close>. The ring implements the interface \<open>queue\<close> across the wrap of its counters;
      then \<open>push\<close> and \<open>pop\<close> as single accesses of the two cores, in every interleaving.
    \<^item> \<^theory_text>\<open>Config\<close>, \<^theory_text>\<open>Pipeline\<close>, \<^theory_text>\<open>Bridge\<close>: \<open>bc/config.rs\<close>, \<open>bc/pipeline.rs\<close>, \<open>bc/bridge.rs\<close>. The tables refine a
      bounded finite map, and every reachable table is well formed.
    \<^item> \<^theory_text>\<open>Router\<close>, \<^theory_text>\<open>Router_Props\<close>, \<^theory_text>\<open>Router_Answers\<close>, \<^theory_text>\<open>Bip\<close>, \<^theory_text>\<open>Bip_Service\<close>: \<open>fw/bacnet_router.rs\<close>, \<open>fw/ipc.rs\<close>, \<open>fw/bridge.rs\<close>,
      \<open>fw/bacnet_ip.rs\<close>. Both drain loops are instances of the interface \<open>drain\<close>; a round ends although handlers
      push onto the rings they drain. A request is followed from the datagram through both rings to the datagram
      of its answer.
    \<^item> \<^theory_text>\<open>Snmp\<close>, \<^theory_text>\<open>Snmp_Wire\<close>, \<^theory_text>\<open>Snmp_Props\<close>, \<^theory_text>\<open>Snmp_Request\<close>, \<^theory_text>\<open>Snmp_Agent\<close>: \<open>bc/snmp.rs\<close>, \<open>fw/snmp.rs\<close>.
    \<^item> \<^theory_text>\<open>Mdns\<close>, \<^theory_text>\<open>Mdns_Name\<close>, \<^theory_text>\<open>Mdns_Props\<close>, \<^theory_text>\<open>Mdns_Task\<close>: \<open>bc/mdns.rs\<close>, \<open>fw/mdns.rs\<close>. What a name with compression
      pointers means is an inductive relation, which the reader is shown to decide.
    \<^item> \<^theory_text>\<open>Mqtt\<close>, \<^theory_text>\<open>Mqtt_Props\<close>, \<^theory_text>\<open>Mqtt_Task\<close>, \<^theory_text>\<open>Mqtt_Task_Props\<close>: \<open>bc/mqtt.rs\<close>, \<open>fw/mqtt.rs\<close>, against a receiver written
      after the standard.
    \<^item> \<^theory_text>\<open>Auth\<close>, \<^theory_text>\<open>Http_Text\<close>, \<^theory_text>\<open>Http_Session\<close>, \<^theory_text>\<open>Http\<close>, \<^theory_text>\<open>Http_Props\<close>, \<^theory_text>\<open>Sse\<close>: \<open>bc/auth.rs\<close>, \<open>fw/http.rs\<close>. The session
      table implements the interface \<open>token_store\<close>; all handlers, the catch-all service and the routes; who
      may change what; the event stream with what other tasks do while it writes.
    \<^item> \<^theory_text>\<open>Flash\<close>, \<^theory_text>\<open>Config_Store\<close>, \<^theory_text>\<open>Ota\<close>, \<^theory_text>\<open>Ota_Task\<close>, \<^theory_text>\<open>Ota_Props\<close>, \<^theory_text>\<open>Ota_Manifest\<close>, \<^theory_text>\<open>Boot\<close>: \<open>fw/platform.rs\<close>,
      \<open>fw/config.rs\<close>, \<open>bc/ota.rs\<close>, \<open>fw/ota.rs\<close>, \<open>fw/main.rs\<close>. Saving and loading, uploads into the inactive slot, and
      the identity of the device over uploads, saves and restarts.
    \<^item> \<^theory_text>\<open>Sntp\<close>, \<^theory_text>\<open>Syslog\<close>, \<^theory_text>\<open>Tls\<close>: \<open>bc/ntp.rs\<close>, \<open>fw/ntp.rs\<close>, \<open>fw/dns.rs\<close>, \<open>bc/syslog.rs\<close>, \<open>fw/syslog.rs\<close>, \<open>bc/tls.rs\<close>.

  \<^bold>\<open>Loops and bounds.\<close> Loops over data are recursive functions with a measure. Three loops are \<^theory_text>\<open>partial_function\<close>s
  whose value \<open>None\<close> means "never returns": the list of values in a COV notification, which really need not end
  when positions wrap, and the two drain loops of the router, whose handlers push onto the rings they drain. These
  two are shown to end for pointers of at least 35 bits, where no position wraps, because a PDU that is answered
  weighs more than its answer. The outgoing drain of \<^theory_text>\<open>Bip\<close> has fuel, and the length of the ring is shown to be enough.
  Table sizes, buffer sizes and capacities are those of the code.

  \<^bold>\<open>Parameters.\<close> Code outside the repository is an argument: SHA-256, the JSON library (\<open>serde\<close>), the flash driver, the
  PEM decoder, random numbers, the clock, the DNS client, sockets and the HTTP transport (\<open>picoserve\<close>). What the
  code relies on is a named hypothesis (\<open>nor_flash\<close>, \<open>json_library\<close>, \<open>works\<close>, \<open>completes\<close>, \<open>identity_works\<close>) and holds for
  a concrete instance, such as \<open>ideal_flash\<close>.

  \<^bold>\<open>Not modelled.\<close> The C code of core 1 and its launch (\<open>fw/core1.rs\<close>), the hardware set-up and the spawning of tasks in
  \<open>fw/main.rs\<close>, TCP, TLS and timers of the network tasks, derived serialisation, logging, the build scripts,
  and \<open>fw/sse.rs\<close>, which no module declares. The model runs a task up to the point where the code gives up its
  locks; interference is modelled for the rings (\<^theory_text>\<open>Ipc_Spsc\<close>) and the event stream (\<^theory_text>\<open>Sse\<close>).
\<close>

end
